(* ===== verification/Dom_Prelude.thy ===== *)
theory Dom_Prelude
  imports Main "HOL-Library.Word" "HOL-Library.List_Lexorder" "HOL-Library.Char_ord"
    "HOL-Library.Multiset"
begin

text \<open>
  Shared vocabulary of the development.

  \<^item> Machine integers: \<open>u32\<close> and \<open>u64\<close> are Go's \<^verbatim>\<open>uint32\<close> and \<^verbatim>\<open>uint64\<close>
    (arithmetic wraps). Signed fields that the code only copies and compares are
    \<open>int\<close>.
  \<^item> A Go map that is only looked up is an Isabelle map. A Go map that the code also
    ranges over is an association list with distinct keys; the list order is the
    iteration order, which Go leaves open, so a lemma about every list covers every
    order.
  \<^item> A Go \<^verbatim>\<open>panic\<close> is a value of the error side of a sum type.
  \<^item> \<open>pathJoin\<close> and \<open>pathClean\<close> are Go's \<^verbatim>\<open>path.Join\<close> and \<^verbatim>\<open>path.Clean\<close> (on Unix
    \<^verbatim>\<open>filepath.Join\<close> agrees). \<open>absPath\<close> is the printing of a component list, with the
    lemmas that relate the two.
\<close>

type_synonym u8 = "8 word"
type_synonym u32 = "32 word"
type_synonym u64 = "64 word"
type_synonym hash = "u8 list"

named_theorems path_simps \<open>how the path operations act on component lists\<close>

section \<open>Panics\<close>

datatype panic =
    IndexOutOfRange
  | NilDereference
  | ExplicitPanic string

definition bindP :: "panic + 'a \<Rightarrow> ('a \<Rightarrow> panic + 'b) \<Rightarrow> panic + 'b" where
  "bindP x f = (case x of Inl e \<Rightarrow> Inl e | Inr a \<Rightarrow> f a)"

lemma bindP_simps [simp]:
  "bindP (Inl e) f = Inl e"
  "bindP (Inr a) f = f a"
  by (simp_all add: bindP_def)

lemma bindP_eq_Inr [simp]:
  "bindP x f = Inr b \<longleftrightarrow> (\<exists>a. x = Inr a \<and> f a = Inr b)"
  by (cases x) auto

lemma bindP_cong [fundef_cong]:
  "x = y \<Longrightarrow> (\<And>a. y = Inr a \<Longrightarrow> f a = g a) \<Longrightarrow> bindP x f = bindP y g"
  by (cases y) auto

lemma map_sum_eq_Inr [simp]: "map_sum f g x = Inr b \<longleftrightarrow> (\<exists>a. x = Inr a \<and> b = g a)"
  by (cases x) auto

lemma map_sum_eq_Inl [simp]: "map_sum f g x = Inl b \<longleftrightarrow> (\<exists>a. x = Inl a \<and> b = f a)"
  by (cases x) auto

section \<open>Lists\<close>

text \<open>A loop that stops at the first error, as a Go loop that returns \<^verbatim>\<open>err\<close> does.\<close>

fun foldE :: "('a \<Rightarrow> 's \<Rightarrow> 'e + 's) \<Rightarrow> 'a list \<Rightarrow> 's \<Rightarrow> 'e + 's" where
  "foldE f [] s = Inr s"
| "foldE f (x # xs) s = (case f x s of Inl e \<Rightarrow> Inl e | Inr s' \<Rightarrow> foldE f xs s')"

lemma foldE_append:
  "foldE f (xs @ ys) s = (case foldE f xs s of Inl e \<Rightarrow> Inl e | Inr s' \<Rightarrow> foldE f ys s')"
  by (induction xs arbitrary: s) (auto split: sum.splits)

definition first_index :: "'a list \<Rightarrow> panic + 'a" where
  "first_index xs = (case xs of [] \<Rightarrow> Inl IndexOutOfRange | x # _ \<Rightarrow> Inr x)"

lemma first_index_simps [simp]:
  "first_index [] = Inl IndexOutOfRange"
  "first_index (x # xs) = Inr x"
  by (simp_all add: first_index_def)

lemma first_index_Inr: "first_index xs = Inr x \<Longrightarrow> x \<in> set xs"
  by (cases xs) auto

lemma sum_list_size_filter:
  "sum_list (map f (filter p xs)) \<le> sum_list (map (f :: 'a \<Rightarrow> nat) xs)"
  by (induction xs) auto

lemma sum_list_map_sort_key:
  "sum_list (map (f :: 'a \<Rightarrow> nat) (sort_key k xs)) = sum_list (map f xs)"
proof -
  have "mset (map f (sort_key k xs)) = mset (map f xs)" by simp
  then have "sum_mset (mset (map f (sort_key k xs))) = sum_mset (mset (map f xs))" by simp
  then show ?thesis by (simp only: sum_mset_sum_list)
qed

section \<open>Go maps that are ranged over\<close>

fun appendTable :: "'k \<Rightarrow> 'v \<Rightarrow> ('k \<times> 'v list) list \<Rightarrow> ('k \<times> 'v list) list" where
  "appendTable k v [] = [(k, [v])]"
| "appendTable k v ((k', vs) # t) =
     (if k' = k then (k', vs @ [v]) # t else (k', vs) # appendTable k v t)"

fun putTable :: "'k \<Rightarrow> 'v \<Rightarrow> ('k \<times> 'v) list \<Rightarrow> ('k \<times> 'v) list" where
  "putTable k v [] = [(k, v)]"
| "putTable k v ((k', v') # t) =
     (if k' = k then (k', v) # t else (k', v') # putTable k v t)"

definition deleteKey :: "'k \<Rightarrow> ('k \<times> 'v) list \<Rightarrow> ('k \<times> 'v) list" where
  "deleteKey k t = filter (\<lambda>e. fst e \<noteq> k) t"

lemma map_of_deleteKey: "map_of (deleteKey k t) h = (if h = k then None else map_of t h)"
  by (induction t) (auto simp: deleteKey_def)

definition indexTable :: "('k \<times> 'v list) list \<Rightarrow> 'k \<Rightarrow> 'v list" where
  "indexTable t k = (case map_of t k of None \<Rightarrow> [] | Some vs \<Rightarrow> vs)"

lemma map_of_appendTable:
  "map_of (appendTable k v t) k' =
     (if k' = k then Some (indexTable t k @ [v]) else map_of t k')"
  by (induction k v t rule: appendTable.induct) (auto simp: indexTable_def)

lemma indexTable_Nil [simp]: "indexTable [] k = []"
  by (simp add: indexTable_def)

lemma indexTable_appendTable:
  "indexTable (appendTable k v t) k' =
     (if k' = k then indexTable t k @ [v] else indexTable t k')"
  by (simp add: indexTable_def map_of_appendTable)

lemma fst_set_appendTable [simp]:
  "fst ` set (appendTable k v t) = insert k (fst ` set t)"
  by (induction k v t rule: appendTable.induct) auto

lemma distinct_appendTable [simp]:
  "distinct (map fst t) \<Longrightarrow> distinct (map fst (appendTable k v t))"
proof (induction k v t rule: appendTable.induct)
  case (2 k v k' vs t)
  have "fst ` set (appendTable k v t) = insert k (fst ` set t)" by simp
  with 2 show ?case by auto
qed simp

lemma map_of_putTable: "map_of (putTable k v t) = (map_of t)(k \<mapsto> v)"
  by (induction k v t rule: putTable.induct) auto

lemma fst_set_putTable [simp]: "fst ` set (putTable k v t) = insert k (fst ` set t)"
  by (induction k v t rule: putTable.induct) auto

lemma distinct_putTable [simp]:
  "distinct (map fst t) \<Longrightarrow> distinct (map fst (putTable k v t))"
proof (induction k v t rule: putTable.induct)
  case (2 k v k' v' t)
  have "fst ` set (putTable k v t) = insert k (fst ` set t)" by simp
  with 2 show ?case by auto
qed simp

section \<open>Slash-separated paths\<close>

fun splitSlash :: "string \<Rightarrow> string list" where
  "splitSlash [] = [[]]"
| "splitSlash (c # cs) =
     (if c = CHR ''/'' then [] # splitSlash cs
      else (case splitSlash cs of [] \<Rightarrow> [[c]] | w # ws \<Rightarrow> (c # w) # ws))"

fun joinSlash :: "string list \<Rightarrow> string" where
  "joinSlash [] = []"
| "joinSlash [c] = c"
| "joinSlash (c # cs) = c @ CHR ''/'' # joinSlash cs"

definition cleanStep :: "bool \<Rightarrow> string list \<Rightarrow> string \<Rightarrow> string list" where
  "cleanStep rooted stack c =
     (if c = '''' \<or> c = ''.'' then stack
      else if c = ''..'' then
        (case stack of
           [] \<Rightarrow> if rooted then [] else [c]
         | x # xs \<Rightarrow> if x = ''..'' then c # stack else xs)
      else c # stack)"

definition pathClean :: "string \<Rightarrow> string" where
  "pathClean p =
     (let rooted = (p \<noteq> [] \<and> hd p = CHR ''/'');
          s = joinSlash (rev (foldl (cleanStep rooted) [] (splitSlash p)))
      in if rooted then CHR ''/'' # s else if s = [] then ''.'' else s)"

definition pathJoin :: "string \<Rightarrow> string \<Rightarrow> string" where
  "pathJoin a b =
     (if a = [] \<and> b = [] then []
      else pathClean (if a = [] then b else a @ CHR ''/'' # b))"

definition absPath :: "string list \<Rightarrow> string" where
  "absPath cs = CHR ''/'' # joinSlash cs"

text \<open>A name that may stand in a directory: what the kernel allows as an entry name.\<close>

definition plainName :: "string \<Rightarrow> bool" where
  "plainName c \<longleftrightarrow> c \<noteq> '''' \<and> c \<noteq> ''.'' \<and> c \<noteq> ''..'' \<and> CHR ''/'' \<notin> set c"

lemma splitSlash_nonempty [simp]: "splitSlash s \<noteq> []"
  by (induction s) (auto split: list.splits)

lemma splitSlash_plain: "CHR ''/'' \<notin> set c \<Longrightarrow> splitSlash c = [c]"
  by (induction c) auto

lemma splitSlash_append:
  "CHR ''/'' \<notin> set c \<Longrightarrow> splitSlash (c @ CHR ''/'' # s) = c # splitSlash s"
  by (induction c) auto

lemma joinSlash_Cons: "cs \<noteq> [] \<Longrightarrow> joinSlash (c # cs) = c @ CHR ''/'' # joinSlash cs"
  by (cases cs) auto

lemma splitSlash_joinSlash:
  "cs \<noteq> [] \<Longrightarrow> \<forall>c \<in> set cs. CHR ''/'' \<notin> set c \<Longrightarrow> splitSlash (joinSlash cs) = cs"
proof (induction cs rule: joinSlash.induct)
  case (2 c)
  then show ?case by (simp add: splitSlash_plain)
next
  case (3 c v va)
  then show ?case by (simp add: splitSlash_append)
qed simp

lemma foldl_cleanStep_plain:
  "list_all plainName cs \<Longrightarrow> foldl (cleanStep r) st cs = rev cs @ st"
  by (induction cs arbitrary: st) (auto simp: cleanStep_def plainName_def)

lemma plainNames_no_slash:
  "list_all plainName cs \<Longrightarrow> \<forall>c \<in> set cs. CHR ''/'' \<notin> set c"
  by (auto simp: list_all_iff plainName_def)

lemma pathClean_abs:
  assumes "list_all plainName cs"
  shows "pathClean (absPath cs) = absPath cs"
proof (cases "cs = []")
  case True
  then show ?thesis by (simp add: pathClean_def absPath_def cleanStep_def)
next
  case False
  have "splitSlash (absPath cs) = '''' # cs"
    using splitSlash_joinSlash [OF False plainNames_no_slash [OF assms]]
    by (simp add: absPath_def)
  then show ?thesis
    using foldl_cleanStep_plain [OF assms, of True "[]"]
    by (simp add: pathClean_def absPath_def cleanStep_def)
qed

lemma joinSlash_append:
  "cs \<noteq> [] \<Longrightarrow> joinSlash (cs @ [c]) = joinSlash cs @ CHR ''/'' # c"
  by (induction cs rule: joinSlash.induct) (auto simp: joinSlash_Cons)

lemma joinSlash_eq_Nil: "list_all plainName cs \<Longrightarrow> joinSlash cs = [] \<longleftrightarrow> cs = []"
  by (induction cs rule: joinSlash.induct) (auto simp: plainName_def)

lemma pathJoin_abs [path_simps]:
  assumes cs: "list_all plainName cs" and c: "plainName c"
  shows "pathJoin (absPath cs) c = absPath (cs @ [c])"
proof (cases "cs = []")
  case True
  have "splitSlash (''//'' @ c) = ['''', '''', c]"
    using c by (simp add: splitSlash_plain plainName_def)
  then show ?thesis
    using True c
    by (simp add: pathJoin_def absPath_def pathClean_def cleanStep_def plainName_def)
next
  case False
  have "absPath cs @ CHR ''/'' # c = absPath (cs @ [c])"
    using False by (simp add: absPath_def joinSlash_append)
  then have "pathJoin (absPath cs) c = pathClean (absPath (cs @ [c]))"
    by (simp add: pathJoin_def absPath_def)
  then show ?thesis using cs c by (simp add: pathClean_abs)
qed

lemma absPath_inject [path_simps]:
  assumes "list_all plainName cs" "list_all plainName ds"
  shows "absPath cs = absPath ds \<longleftrightarrow> cs = ds"
proof
  assume eq: "absPath cs = absPath ds"
  then have j: "joinSlash cs = joinSlash ds" by (simp add: absPath_def)
  show "cs = ds"
  proof (cases "cs = [] \<or> ds = []")
    case True
    then show ?thesis using j joinSlash_eq_Nil [OF assms(1)] joinSlash_eq_Nil [OF assms(2)] by auto
  next
    case False
    then show ?thesis
      using j splitSlash_joinSlash [of cs] splitSlash_joinSlash [of ds]
        plainNames_no_slash [OF assms(1)] plainNames_no_slash [OF assms(2)]
      by metis
  qed
qed simp

lemma absPath_Nil: "absPath [] = ''/''"
  by (simp add: absPath_def)

text \<open>\<^verbatim>\<open>path.Dir\<close>: everything before the last element, cleaned.\<close>

definition pathDir :: "string \<Rightarrow> string" where
  "pathDir p = pathClean (rev (dropWhile (\<lambda>c. c \<noteq> CHR ''/'') (rev p)))"

section \<open>Callers\<close>

text \<open>What is known of the caller of a remote procedure, \<^verbatim>\<open>AuthInformation\<close> of \<^verbatim>\<open>lib/srpc\<close>.\<close>

record auth_information =
  HaveMethodAccess :: bool
  Username :: string
  GroupList :: "string set"

end
