(* ===== verification/Object_Cache.thy ===== *)
theory Object_Cache
  imports Dom_Prelude
begin

text \<open>
  Hashes (\<^verbatim>\<open>lib/hash\<close>) and the object cache (\<^verbatim>\<open>lib/objectcache\<close>).

  A \<^verbatim>\<open>hash.Hash\<close> is an array of 64 bytes: a list of length 64. Text is a list of characters;
  the cache holds no other than ASCII names, on which a Go rune is a byte.
\<close>

unbundle bit_operations_syntax

definition hashSize :: nat where "hashSize = 64"

definition zeroHash :: hash where "zeroHash = replicate hashSize 0"

section \<open>Hexadecimal text\<close>

definition formatNibble :: "u8 \<Rightarrow> char" where
  "formatNibble nibble =
     (if nibble < 10 then char_of (unat (0x30 + nibble)) else char_of (unat (0x61 + nibble - 10)))"

definition marshalText :: "hash \<Rightarrow> string" where
  "marshalText h = concat (map (\<lambda>b. [formatNibble (drop_bit 4 b), formatNibble (b AND 0xF)]) h)"

datatype hash_error = BadCharacter | HashStringTooLong | FilenameTooLong

definition hexcharToByte :: "char \<Rightarrow> hash_error + u8" where
  "hexcharToByte ch =
     (let c = (of_char ch :: nat)
      in if 0x30 \<le> c \<and> c \<le> 0x39 then Inr (of_nat (c - 0x30))
         else if 0x61 \<le> c \<and> c \<le> 0x66 then Inr (of_nat (c - 0x61 + 10))
         else Inl BadCharacter)"

text \<open>The loop of \<^verbatim>\<open>unmarshalText\<close> at \<^verbatim>\<open>index\<close>: the bytes of the receiver are added to, not set.\<close>

fun unmarshalLoop :: "nat \<Rightarrow> string \<Rightarrow> hash \<Rightarrow> hash_error + hash" where
  "unmarshalLoop index [] h = Inr h"
| "unmarshalLoop index (ch # text) h =
     (if length h \<le> drop_bit 1 index then Inl HashStringTooLong
      else case hexcharToByte ch of
        Inl err \<Rightarrow> Inl err
      | Inr val \<Rightarrow>
          unmarshalLoop (Suc index) text
            (h[drop_bit 1 index :=
                 h ! drop_bit 1 index + (if index AND 1 = 0 then push_bit 4 val else val)]))"

definition unmarshalText :: "string \<Rightarrow> hash \<Rightarrow> hash_error + hash" where
  "unmarshalText text h = unmarshalLoop 0 text h"

section \<open>Object file names\<close>

definition hashToFilename :: "hash \<Rightarrow> string" where
  "hashToFilename h =
     marshalText (take 1 h) @ ''/'' @ marshalText (take 1 (drop 1 h)) @ ''/'' @ marshalText (drop 2 h)"

fun filenameLoop :: "u8 \<Rightarrow> nat \<Rightarrow> string \<Rightarrow> hash \<Rightarrow> hash_error + hash" where
  "filenameLoop prev_nibble index [] h = Inr h"
| "filenameLoop prev_nibble index (ch # fileName) h =
     (case hexcharToByte ch of
        Inl err \<Rightarrow> filenameLoop prev_nibble index fileName h
      | Inr nibble \<Rightarrow>
          if prev_nibble < 16 then
            if length h \<le> index then Inl FilenameTooLong
            else filenameLoop 16 (Suc index) fileName (h[index := nibble OR push_bit 4 prev_nibble])
          else filenameLoop nibble index fileName h)"

definition filenameToHash :: "string \<Rightarrow> hash_error + hash" where
  "filenameToHash fileName = filenameLoop 16 0 fileName zeroHash"

section \<open>The cache\<close>

type_synonym object_cache = "hash list"

definition objectMapToCache :: "(hash \<times> u64) list \<Rightarrow> object_cache" where
  "objectMapToCache objectMap = map fst objectMap"

fun compareLoop :: "object_cache \<Rightarrow> object_cache \<Rightarrow> bool" where
  "compareLoop (l # left) (r # right) = (if l \<noteq> r then False else compareLoop left right)"
| "compareLoop _ _ = True"

definition compareObjects :: "object_cache \<Rightarrow> object_cache \<Rightarrow> bool" where
  "compareObjects left right \<longleftrightarrow>
     (if length left \<noteq> length right then False else compareLoop left right)"

text \<open>\<^verbatim>\<open>binary.Write\<close> and \<^verbatim>\<open>binary.Read\<close> of a \<^verbatim>\<open>uint64\<close> in big-endian order.\<close>

definition putUint64 :: "u64 \<Rightarrow> u8 list" where
  "putUint64 v = map (\<lambda>i. ucast (drop_bit (8 * (7 - i)) v)) [0..<8]"

definition getUint64 :: "u8 list \<Rightarrow> u64" where
  "getUint64 bs = foldl (\<lambda>v b. push_bit 8 v OR ucast b) 0 bs"

definition encode :: "object_cache \<Rightarrow> u8 list" where
  "encode objectCache = putUint64 (of_nat (length objectCache)) @ concat objectCache"

datatype read_error = UnexpectedEOF

definition readFull :: "nat \<Rightarrow> u8 list \<Rightarrow> read_error + (u8 list \<times> u8 list)" where
  "readFull n stream =
     (if length stream < n then Inl UnexpectedEOF else Inr (take n stream, drop n stream))"

fun decodeLoop :: "nat \<Rightarrow> u8 list \<Rightarrow> object_cache \<Rightarrow> read_error + (object_cache \<times> u8 list)" where
  "decodeLoop 0 stream objectCache = Inr (objectCache, stream)"
| "decodeLoop (Suc n) stream objectCache =
     (case readFull hashSize stream of
        Inl err \<Rightarrow> Inl err
      | Inr (h, stream') \<Rightarrow> decodeLoop n stream' (objectCache @ [h]))"

definition decode :: "u8 list \<Rightarrow> read_error + (object_cache \<times> u8 list)" where
  "decode stream =
     (case readFull 8 stream of
        Inl err \<Rightarrow> Inl err
      | Inr (bs, stream') \<Rightarrow> decodeLoop (unat (getUint64 bs)) stream' [])"

text \<open>
  Reading an object. \<open>sha512\<close> is the digest function of the Go library; \<open>readError\<close> is an
  error the reader reports before the end of its data.
\<close>

datatype object_error =
    ReaderError
  | ZeroLengthObject
  | IncompatibleHashSize
  | HashMismatch

definition readObject ::
    "(u8 list \<Rightarrow> hash) \<Rightarrow> bool \<Rightarrow> u8 list \<Rightarrow> u64 \<Rightarrow> hash option
       \<Rightarrow> object_error + (hash \<times> u8 list)" where
  "readObject sha512 readError stream len expectedHash =
     (case (if len < 1 then
              (if readError then Inl ReaderError
               else if length stream < 1 then Inl ZeroLengthObject
               else Inr stream)
            else
              (case readFull (unat len) stream of
                 Inl err \<Rightarrow> Inl ReaderError
               | Inr (d, rest) \<Rightarrow> Inr d)) of
        Inl err \<Rightarrow> Inl err
      | Inr d \<Rightarrow>
          if length (sha512 []) \<noteq> hashSize then Inl IncompatibleHashSize
          else case expectedHash of
            None \<Rightarrow> Inr (sha512 d, d)
          | Some h \<Rightarrow> if sha512 d \<noteq> h then Inl HashMismatch else Inr (sha512 d, d))"

section \<open>Lemmas\<close>

lemma nibble_cases:
  fixes x :: u8
  assumes "x < 16"
  shows "x \<in> {0, 1, 2, 3, 4, 5, 6, 7, 8, 9, 10, 11, 12, 13, 14, 15}"
proof -
  have "unat x < 16" using assms by (simp add: word_less_nat_alt)
  then have "unat x \<in> set [0..<16]" by simp
  then have "(of_nat (unat x) :: u8) \<in> of_nat ` set [0..<16]" by (rule imageI)
  then show ?thesis by (simp add: upt_rec)
qed

lemma hexchar_nibble:
  assumes "x < 16"
  shows "hexcharToByte (formatNibble x) = Inr x"
  using nibble_cases [OF assms]
  by (elim insertE; simp add: formatNibble_def hexcharToByte_def Let_def)

lemma low_nibble_take_bit: "(b :: u8) AND 0xF = take_bit 4 b"
  using take_bit_eq_mask [of 4 b] by (simp add: mask_eq_exp_minus_1)

lemma high_nibble: "drop_bit 4 (b :: u8) < 16"
proof -
  have "unat b < 2 ^ LENGTH(8)" by (rule unsigned_less)
  then have "unat b div 16 < 16" by (simp add: less_mult_imp_div_less)
  then show ?thesis by (simp add: word_less_nat_alt unat_div drop_bit_eq_div)
qed

lemma low_nibble: "(b :: u8) AND 0xF < 16"
  by (rule le_less_trans [OF word_and_le1]) simp

lemma nibbles_add: "push_bit 4 (drop_bit 4 (b :: u8)) + (b AND 0xF) = b"
  unfolding low_nibble_take_bit by (rule bits_ident)

lemma nibbles_or: "(b AND 0xF) OR push_bit 4 (drop_bit 4 (b :: u8)) = b"
  unfolding low_nibble_take_bit
proof (rule bit_word_eqI)
  fix n
  assume "n < LENGTH(8)"
  then show "bit (take_bit 4 b OR push_bit 4 (drop_bit 4 b)) n = bit b n"
    by (cases "n < 4") (auto simp: bit_simps)
qed

lemma getUint64_bytes:
  "n \<le> 8 \<Longrightarrow>
     getUint64 (map (\<lambda>i. ucast (drop_bit (8 * (n - Suc i)) v)) [0..<n]) = take_bit (8 * n) v"
proof (induction n arbitrary: v)
  case 0
  then show ?case by (simp add: getUint64_def)
next
  case (Suc n)
  have bytes: "map (\<lambda>i. ucast (drop_bit (8 * (Suc n - Suc i)) v)) [0..<Suc n] =
      map (\<lambda>i. ucast (drop_bit (8 * (n - Suc i)) (drop_bit 8 v))) [0..<n] @ [ucast v :: u8]"
    by (auto simp: ac_simps Suc_diff_Suc [symmetric])
  have "getUint64 (map (\<lambda>i. ucast (drop_bit (8 * (Suc n - Suc i)) v)) [0..<Suc n]) =
      push_bit 8 (take_bit (8 * n) (drop_bit 8 v)) OR ucast (ucast v :: u8)"
    using Suc.IH [of "drop_bit 8 v"] Suc.prems unfolding bytes by (simp add: getUint64_def)
  also have "\<dots> = take_bit (8 * Suc n) v"
  proof (rule bit_word_eqI)
    fix k
    assume "k < LENGTH(64)"
    then show "bit (push_bit 8 (take_bit (8 * n) (drop_bit 8 v)) OR ucast (ucast v :: u8)) k =
        bit (take_bit (8 * Suc n) v) k"
      by (cases "k < 8") (auto simp: bit_simps)
  qed
  finally show ?case .
qed

lemma getUint64_putUint64: "getUint64 (putUint64 v) = v"
  using getUint64_bytes [of 8 v] by (simp add: putUint64_def take_bit_word_eq_self)

lemmas hexchar_nibbles [simp] = hexchar_nibble [OF high_nibble] hexchar_nibble [OF low_nibble]

lemma unmarshalLoop_marshal:
  "i + length bs \<le> length h \<Longrightarrow>
     unmarshalLoop (2 * i) (marshalText bs) h =
       Inr (take i h @ map2 (+) (take (length bs) (drop i h)) bs @ drop (i + length bs) h)"
proof (induction bs arbitrary: i h)
  case Nil
  then show ?case by (simp add: marshalText_def)
next
  case (Cons b bs)
  let ?h = "h[i := h ! i + push_bit 4 (drop_bit 4 b)]"
  have i: "i < length h" using Cons.prems by simp
  have odd: "drop_bit 1 (Suc (2 * i)) = i" "Suc (2 * i) AND 1 = 1" "drop_bit 1 (2 * i) = i" "2 * i AND 1 = 0"
    by (simp_all add: drop_bit_Suc and_one_eq drop_bit_eq_div)
  have "unmarshalLoop (2 * i) (marshalText (b # bs)) h =
      unmarshalLoop (2 * Suc i) (marshalText bs) (h[i := h ! i + b])"
    using i odd nibbles_add [of b]
    by (simp add: marshalText_def add.assoc del: drop_bit_Suc)
  also have "\<dots> = Inr (take (Suc i) (h[i := h ! i + b])
      @ map2 (+) (take (length bs) (drop (Suc i) h)) bs @ drop (Suc i + length bs) h)"
    using Cons.IH [of "Suc i" "h[i := h ! i + b]"] Cons.prems by simp
  also have "take (Suc i) (h[i := h ! i + b]) = take i h @ [h ! i + b]"
    using i by (simp add: take_Suc_conv_app_nth)
  finally show ?case using i by (simp add: Cons_nth_drop_Suc [symmetric])
qed

lemma filenameLoop_marshal:
  "i + length bs \<le> length h \<Longrightarrow>
     filenameLoop 16 i (marshalText bs @ rest) h =
       filenameLoop 16 (i + length bs) rest (take i h @ bs @ drop (i + length bs) h)"
proof (induction bs arbitrary: i h)
  case Nil
  then show ?case by (simp add: marshalText_def)
next
  case (Cons b bs)
  have "filenameLoop 16 i (marshalText (b # bs) @ rest) h =
      filenameLoop 16 (Suc i) (marshalText bs @ rest) (h[i := b])"
    using Cons.prems high_nibble [of b] nibbles_or [of b] by (simp add: marshalText_def)
  also have "\<dots> = filenameLoop 16 (i + length (b # bs)) rest
      (take (Suc i) (h[i := b]) @ bs @ drop (i + length (b # bs)) h)"
    using Cons.IH [of "Suc i" "h[i := b]"] Cons.prems by simp
  also have "take (Suc i) (h[i := b]) = take i h @ [b]"
    using Cons.prems by (simp add: take_Suc_conv_app_nth)
  finally show ?case by simp
qed

lemma filenameLoop_slash: "filenameLoop p i (CHR ''/'' # rest) h = filenameLoop p i rest h"
  by (simp add: hexcharToByte_def)

lemma compareLoop_iff: "length left = length right \<Longrightarrow> compareLoop left right \<longleftrightarrow> left = right"
  by (induction left right rule: compareLoop.induct) auto

lemma decodeLoop_concat:
  "list_all (\<lambda>h. length h = hashSize) hs \<Longrightarrow>
     decodeLoop (length hs) (concat hs @ rest) acc = Inr (acc @ hs, rest)"
  by (induction hs arbitrary: acc) (auto simp: readFull_def)

lemma length_putUint64 [simp]: "length (putUint64 v) = 8"
  by (simp add: putUint64_def)

lemma filenameToHash_filename:
  assumes "length h = hashSize"
  shows "filenameToHash (hashToFilename h) = Inr h"
proof -
  obtain a b bs where h: "h = a # b # bs" and bs: "length bs = 62"
    using assms by (auto simp: hashSize_def length_Suc_conv numeral_eq_Suc)
  have z: "zeroHash = 0 # 0 # replicate 62 0"
    by (simp add: zeroHash_def hashSize_def numeral_eq_Suc)
  show ?thesis
    using filenameLoop_marshal [of 0 "[a]" zeroHash]
      filenameLoop_marshal [of 1 "[b]" "a # 0 # replicate 62 0"]
      filenameLoop_marshal [of 2 bs "a # b # replicate 62 0" "[]"] bs
    by (simp add: filenameToHash_def hashToFilename_def h z filenameLoop_slash numeral_2_eq_2
        del: filenameLoop.simps(2))
qed

lemma hashToFilename_inject:
  assumes "length h = hashSize" "length h' = hashSize" and eq: "hashToFilename h = hashToFilename h'"
  shows "h = h'"
proof -
  have "Inr h = filenameToHash (hashToFilename h)" by (rule filenameToHash_filename [OF assms(1), symmetric])
  also have "\<dots> = Inr h'" unfolding eq by (rule filenameToHash_filename [OF assms(2)])
  finally show ?thesis by (rule sum.inject(2) [THEN iffD1])
qed

lemma length_marshalText: "length (marshalText h) = 2 * length h"
  by (induction h) (simp_all add: marshalText_def)

lemma marshalText_plain: "c \<in> set (marshalText h) \<Longrightarrow> c \<noteq> CHR ''/'' \<and> c \<noteq> CHR ''.''"
proof -
  assume "c \<in> set (marshalText h)"
  then have "\<exists>b. hexcharToByte c = Inr b" by (auto simp: marshalText_def)
  then show ?thesis by (auto simp: hexcharToByte_def)
qed

section \<open>Properties\<close>

text \<open>
  C37. The file name of an object determines its hash: reading the name back gives the hash
  it was made from, for every hash.
\<close>

theorem filename_roundtrip:
  assumes "length h = hashSize"
  shows "filenameToHash (hashToFilename h) = Inr h"
  using assms by (rule filenameToHash_filename)

theorem filename_roundtrip_witness:
  "filenameToHash (hashToFilename (replicate 64 0xAB)) = Inr (replicate 64 0xAB)"
  by (rule filename_roundtrip) (simp add: hashSize_def)

text \<open>
  Unmarshalling a marshalled hash adds it, byte by byte, to what the receiver held: the
  round trip gives the hash back exactly if the receiver is the zero hash.
\<close>

theorem hash_text_roundtrip:
  assumes "length h = hashSize" and "length h0 = hashSize"
  shows "unmarshalText (marshalText h) h0 = Inr (map2 (+) h0 h)
       \<and> (unmarshalText (marshalText h) h0 = Inr h \<longleftrightarrow> h0 = zeroHash)"
proof -
  have "map2 (+) h0 h = h \<longleftrightarrow> h0 = zeroHash"
    using assms by (auto simp: list_eq_iff_nth_eq zeroHash_def)
  then show ?thesis
    using unmarshalLoop_marshal [of 0 h h0] assms by (simp add: unmarshalText_def)
qed

theorem hash_text_roundtrip_witness:
  "unmarshalText (marshalText (replicate 64 1)) (replicate 64 1) \<noteq> Inr (replicate 64 1)
   \<and> unmarshalText (marshalText (replicate 64 1)) zeroHash = Inr (replicate 64 1)"
  using hash_text_roundtrip [of "replicate 64 1" "replicate 64 1"]
    hash_text_roundtrip [of "replicate 64 1" zeroHash]
  by (simp add: hashSize_def zeroHash_def)

text \<open>
  C36. An encoded object cache decodes to itself and leaves the rest of the stream, and two
  caches compare equal exactly if they are.
\<close>

theorem object_cache_roundtrip:
  assumes "list_all (\<lambda>h. length h = hashSize) c" and "length c < 2 ^ 64"
  shows "decode (encode c @ rest) = Inr (c, rest) \<and> (compareObjects c c' \<longleftrightarrow> c = c')"
proof -
  have "unat (of_nat (length c) :: u64) = length c"
    using assms(2) by (simp add: unat_of_nat)
  then show ?thesis
    using decodeLoop_concat [OF assms(1), of rest "[]"]
    by (auto simp: decode_def encode_def readFull_def getUint64_putUint64 compareObjects_def
        compareLoop_iff)
qed

theorem object_cache_roundtrip_witness:
  "decode (encode [replicate 64 7, replicate 64 9] @ [1]) = Inr ([replicate 64 7, replicate 64 9], [1])"
  using object_cache_roundtrip [of "[replicate 64 7, replicate 64 9]" "[1]"]
  by (simp add: hashSize_def)



end
