(* ===== verification/File_System.thy ===== *)
theory File_System
  imports Dom_Prelude
begin

text \<open>
  The file-system image (\<^verbatim>\<open>lib/filesystem\<close>): the inode types, the comparison of inodes
  and trees, and what that comparison decides.

  A \<^verbatim>\<open>*DirectoryEntry\<close> holds a private pointer to its inode. The model unfolds these
  pointers: an entry carries the inode it points to, or \<open>None\<close> for a nil pointer, and
  the identity of an inode is its inode number. Pointer equality itself is not part of
  the model: where the code returns early for identical pointers, the comparisons below
  take the structural path, and \<open>compareDirectoryInodes_refl\<close> shows that on a resolved
  tree the result is the same. \<open>compareInodes\<close>, whose early return differs from the
  structural path on directories, takes the outcome of the pointer test as an argument.
\<close>

unbundle bit_operations_syntax

section \<open>Inodes, entries, directories\<close>

record regular_inode =
  ri_Mode :: u32
  ri_Uid :: u32
  ri_Gid :: u32
  ri_MtimeNanoSeconds :: int
  ri_MtimeSeconds :: int
  ri_Size :: u64
  ri_Hash :: hash

record computed_regular_inode =
  ci_Mode :: u32
  ci_Uid :: u32
  ci_Gid :: u32
  ci_Source :: string

record symlink_inode =
  si_Uid :: u32
  si_Gid :: u32
  si_Symlink :: string

record special_inode =
  sp_Mode :: u32
  sp_Uid :: u32
  sp_Gid :: u32
  sp_MtimeNanoSeconds :: int
  sp_MtimeSeconds :: int
  sp_Rdev :: u64

datatype generic_inode =
    RegularInode regular_inode
  | ComputedRegularInode computed_regular_inode
  | SymlinkInode symlink_inode
  | SpecialInode special_inode
  | DirectoryInode directory_inode
and directory_inode =
  Directory (EntryList: "directory_entry list") (di_Mode: u32) (di_Uid: u32) (di_Gid: u32)
and directory_entry =
  DirectoryEntry (Name: string) (InodeNumber: u64) (inode: "generic_inode option")

type_synonym inode_table = "(u64 \<times> generic_inode option) list"

record file_system =
  InodeTable :: inode_table
  NumRegularInodes :: u64
  TotalDataBytes :: u64
  DirectoryCount :: u64
  fs_root :: directory_inode

fun GetUid :: "generic_inode \<Rightarrow> u32" where
  "GetUid (RegularInode r) = ri_Uid r"
| "GetUid (ComputedRegularInode c) = ci_Uid c"
| "GetUid (SymlinkInode s) = si_Uid s"
| "GetUid (SpecialInode s) = sp_Uid s"
| "GetUid (DirectoryInode d) = di_Uid d"

fun GetGid :: "generic_inode \<Rightarrow> u32" where
  "GetGid (RegularInode r) = ri_Gid r"
| "GetGid (ComputedRegularInode c) = ci_Gid c"
| "GetGid (SymlinkInode s) = si_Gid s"
| "GetGid (SpecialInode s) = sp_Gid s"
| "GetGid (DirectoryInode d) = di_Gid d"

section \<open>Comparison of inodes\<close>

definition S_IFMT :: u32 where "S_IFMT = 0xF000"
definition S_IFBLK :: u32 where "S_IFBLK = 0x6000"
definition S_IFCHR :: u32 where "S_IFCHR = 0x2000"

definition compareDirectoriesMetadata :: "directory_inode \<Rightarrow> directory_inode \<Rightarrow> bool" where
  "compareDirectoriesMetadata left right \<longleftrightarrow>
     (if di_Mode left \<noteq> di_Mode right then False
      else if di_Uid left \<noteq> di_Uid right then False
      else if di_Gid left \<noteq> di_Gid right then False
      else True)"

definition compareRegularInodesMetadata :: "regular_inode \<Rightarrow> regular_inode \<Rightarrow> bool" where
  "compareRegularInodesMetadata left right \<longleftrightarrow>
     (if ri_Mode left \<noteq> ri_Mode right then False
      else if ri_Uid left \<noteq> ri_Uid right then False
      else if ri_Gid left \<noteq> ri_Gid right then False
      else if (ri_MtimeSeconds left, ri_MtimeNanoSeconds left)
            \<noteq> (ri_MtimeSeconds right, ri_MtimeNanoSeconds right) then False
      else True)"

definition compareRegularInodesData :: "regular_inode \<Rightarrow> regular_inode \<Rightarrow> bool" where
  "compareRegularInodesData left right \<longleftrightarrow>
     (if ri_Size left \<noteq> ri_Size right then False
      else if ri_Size left > 0 then ri_Hash left = ri_Hash right
      else True)"

definition compareRegularInodes :: "regular_inode \<Rightarrow> regular_inode \<Rightarrow> bool" where
  "compareRegularInodes left right \<longleftrightarrow>
     (if \<not> compareRegularInodesMetadata left right then False
      else compareRegularInodesData left right)"

definition compareComputedRegularInodesMetadata ::
    "computed_regular_inode \<Rightarrow> computed_regular_inode \<Rightarrow> bool" where
  "compareComputedRegularInodesMetadata left right \<longleftrightarrow>
     (if ci_Mode left \<noteq> ci_Mode right then False
      else if ci_Uid left \<noteq> ci_Uid right then False
      else if ci_Gid left \<noteq> ci_Gid right then False
      else if ci_Source left \<noteq> ci_Source right then False
      else True)"

definition compareComputedRegularInodesData ::
    "computed_regular_inode \<Rightarrow> computed_regular_inode \<Rightarrow> bool" where
  "compareComputedRegularInodesData left right \<longleftrightarrow>
     (if ci_Source left \<noteq> ci_Source right then False else True)"

definition compareComputedRegularInodes ::
    "computed_regular_inode \<Rightarrow> computed_regular_inode \<Rightarrow> bool" where
  "compareComputedRegularInodes left right \<longleftrightarrow>
     (if \<not> compareComputedRegularInodesMetadata left right then False
      else compareComputedRegularInodesData left right)"

definition compareSymlinkInodesMetadata :: "symlink_inode \<Rightarrow> symlink_inode \<Rightarrow> bool" where
  "compareSymlinkInodesMetadata left right \<longleftrightarrow>
     (if si_Uid left \<noteq> si_Uid right then False
      else if si_Gid left \<noteq> si_Gid right then False
      else True)"

definition compareSymlinkInodesData :: "symlink_inode \<Rightarrow> symlink_inode \<Rightarrow> bool" where
  "compareSymlinkInodesData left right \<longleftrightarrow>
     (if si_Symlink left \<noteq> si_Symlink right then False else True)"

definition compareSymlinkInodes :: "symlink_inode \<Rightarrow> symlink_inode \<Rightarrow> bool" where
  "compareSymlinkInodes left right \<longleftrightarrow>
     (if \<not> compareSymlinkInodesMetadata left right then False
      else compareSymlinkInodesData left right)"

definition compareSpecialInodesMetadata :: "special_inode \<Rightarrow> special_inode \<Rightarrow> bool" where
  "compareSpecialInodesMetadata left right \<longleftrightarrow>
     (if sp_Mode left \<noteq> sp_Mode right then False
      else if sp_Uid left \<noteq> sp_Uid right then False
      else if sp_Gid left \<noteq> sp_Gid right then False
      else if (sp_MtimeSeconds left, sp_MtimeNanoSeconds left)
            \<noteq> (sp_MtimeSeconds right, sp_MtimeNanoSeconds right) then False
      else True)"

definition compareSpecialInodesData :: "special_inode \<Rightarrow> special_inode \<Rightarrow> bool" where
  "compareSpecialInodesData left right \<longleftrightarrow>
     (if sp_Mode left AND S_IFMT = S_IFBLK \<or> sp_Mode left AND S_IFMT = S_IFCHR
      then (if sp_Rdev left \<noteq> sp_Rdev right then False else True)
      else True)"

definition compareSpecialInodes :: "special_inode \<Rightarrow> special_inode \<Rightarrow> bool" where
  "compareSpecialInodes left right \<longleftrightarrow>
     (if \<not> compareSpecialInodesMetadata left right then False
      else compareSpecialInodesData left right)"

text \<open>
  The triple is \<open>(sameType, sameMetadata, sameData)\<close>. \<open>same\<close> is the outcome of the
  pointer comparison \<^verbatim>\<open>left == right\<close>. Two distinct directories never have the same data.
\<close>

definition compareInodes :: "bool \<Rightarrow> generic_inode \<Rightarrow> generic_inode \<Rightarrow> bool \<times> bool \<times> bool" where
  "compareInodes same left right =
     (if same then (True, True, True)
      else case (left, right) of
        (RegularInode l, RegularInode r) \<Rightarrow>
          (True, compareRegularInodesMetadata l r, compareRegularInodesData l r)
      | (ComputedRegularInode l, ComputedRegularInode r) \<Rightarrow>
          (True, compareComputedRegularInodesMetadata l r, compareComputedRegularInodesData l r)
      | (SymlinkInode l, SymlinkInode r) \<Rightarrow>
          (True, compareSymlinkInodesMetadata l r, compareSymlinkInodesData l r)
      | (SpecialInode l, SpecialInode r) \<Rightarrow>
          (True, compareSpecialInodesMetadata l r, compareSpecialInodesData l r)
      | (DirectoryInode l, DirectoryInode r) \<Rightarrow>
          (True, compareDirectoriesMetadata l r, False)
      | _ \<Rightarrow> (False, False, False))"

fun compareDirectoryInodes :: "directory_inode \<Rightarrow> directory_inode \<Rightarrow> bool"
and compareEntryLists :: "directory_entry list \<Rightarrow> directory_entry list \<Rightarrow> bool"
and compareDirectoryEntries :: "directory_entry \<Rightarrow> directory_entry \<Rightarrow> bool" where
  "compareDirectoryInodes (Directory ls lm lu lg) (Directory rs rm ru rg) \<longleftrightarrow>
     (if \<not> compareDirectoriesMetadata (Directory ls lm lu lg) (Directory rs rm ru rg) then False
      else if length ls \<noteq> length rs then False
      else compareEntryLists ls rs)"
| "compareEntryLists (l # ls) (r # rs) \<longleftrightarrow>
     (if \<not> compareDirectoryEntries l r then False else compareEntryLists ls rs)"
| "compareEntryLists _ _ \<longleftrightarrow> True"
| "compareDirectoryEntries (DirectoryEntry ln li lino) (DirectoryEntry rn ri rino) \<longleftrightarrow>
     (if ln \<noteq> rn then False
      else case lino of
        Some (RegularInode l) \<Rightarrow>
          (case rino of Some (RegularInode r) \<Rightarrow> compareRegularInodes l r | _ \<Rightarrow> False)
      | Some (ComputedRegularInode l) \<Rightarrow>
          (case rino of Some (ComputedRegularInode r) \<Rightarrow> compareComputedRegularInodes l r
           | _ \<Rightarrow> False)
      | Some (SymlinkInode l) \<Rightarrow>
          (case rino of Some (SymlinkInode r) \<Rightarrow> compareSymlinkInodes l r | _ \<Rightarrow> False)
      | Some (SpecialInode l) \<Rightarrow>
          (case rino of Some (SpecialInode r) \<Rightarrow> compareSpecialInodes l r | _ \<Rightarrow> False)
      | Some (DirectoryInode l) \<Rightarrow>
          (case rino of Some (DirectoryInode r) \<Rightarrow> compareDirectoryInodes l r | _ \<Rightarrow> False)
      | None \<Rightarrow> False)"

definition compareFileSystems :: "file_system \<Rightarrow> file_system \<Rightarrow> bool" where
  "compareFileSystems left right \<longleftrightarrow>
     (if length (InodeTable left) \<noteq> length (InodeTable right) then False
      else compareDirectoryInodes (fs_root left) (fs_root right))"


section \<open>What the comparison decides\<close>

text \<open>
  The abstract specification: two trees are the same when their normal forms are equal.
  The normal form erases what the comparison is meant to ignore: inode numbers, the hash
  of an empty file, and the device number of a special file that is not a device.
\<close>

definition isDevice :: "u32 \<Rightarrow> bool" where
  "isDevice m \<longleftrightarrow> m AND S_IFMT = S_IFBLK \<or> m AND S_IFMT = S_IFCHR"

definition normRegular :: "regular_inode \<Rightarrow> regular_inode" where
  "normRegular r = (if ri_Size r = 0 then r\<lparr>ri_Hash := []\<rparr> else r)"

definition normSpecial :: "special_inode \<Rightarrow> special_inode" where
  "normSpecial s = (if isDevice (sp_Mode s) then s else s\<lparr>sp_Rdev := 0\<rparr>)"

primrec normInode :: "generic_inode \<Rightarrow> generic_inode"
and normDirectory :: "directory_inode \<Rightarrow> directory_inode"
and normEntry :: "directory_entry \<Rightarrow> directory_entry" where
  "normInode (RegularInode r) = RegularInode (normRegular r)"
| "normInode (ComputedRegularInode c) = ComputedRegularInode c"
| "normInode (SymlinkInode s) = SymlinkInode s"
| "normInode (SpecialInode s) = SpecialInode (normSpecial s)"
| "normInode (DirectoryInode d) = DirectoryInode (normDirectory d)"
| "normDirectory (Directory es m u g) = Directory (map normEntry es) m u g"
| "normEntry (DirectoryEntry n i ino) = DirectoryEntry n 0 (map_option normInode ino)"

fun resolvedInode :: "generic_inode \<Rightarrow> bool"
and resolvedDirectory :: "directory_inode \<Rightarrow> bool"
and resolvedEntries :: "directory_entry list \<Rightarrow> bool" where
  "resolvedInode (DirectoryInode d) = resolvedDirectory d"
| "resolvedInode _ = True"
| "resolvedDirectory (Directory es _ _ _) = resolvedEntries es"
| "resolvedEntries [] = True"
| "resolvedEntries (DirectoryEntry _ _ ino # es) =
     ((case ino of None \<Rightarrow> False | Some i \<Rightarrow> resolvedInode i) \<and> resolvedEntries es)"

lemma compareRegularInodes_iff:
  "compareRegularInodes l r \<longleftrightarrow> normRegular l = normRegular r"
  by (cases l; cases r)
     (auto simp: compareRegularInodes_def compareRegularInodesMetadata_def
        compareRegularInodesData_def normRegular_def word_gt_0)

lemma compareComputedRegularInodes_iff:
  "compareComputedRegularInodes l r \<longleftrightarrow> l = r"
  by (cases l; cases r)
     (auto simp: compareComputedRegularInodes_def compareComputedRegularInodesMetadata_def
        compareComputedRegularInodesData_def)

lemma compareSymlinkInodes_iff:
  "compareSymlinkInodes l r \<longleftrightarrow> l = r"
  by (cases l; cases r)
     (auto simp: compareSymlinkInodes_def compareSymlinkInodesMetadata_def
        compareSymlinkInodesData_def)

lemma compareSpecialInodes_iff:
  "compareSpecialInodes l r \<longleftrightarrow> normSpecial l = normSpecial r"
  by (cases l; cases r)
     (auto simp: compareSpecialInodes_def compareSpecialInodesMetadata_def
        compareSpecialInodesData_def normSpecial_def isDevice_def)

lemmas compare_iffs =
  compareRegularInodes_iff compareComputedRegularInodes_iff compareSymlinkInodes_iff
  compareSpecialInodes_iff

lemma compareDirectoriesMetadata_iff:
  "compareDirectoriesMetadata l r \<longleftrightarrow>
     di_Mode l = di_Mode r \<and> di_Uid l = di_Uid r \<and> di_Gid l = di_Gid r"
  by (auto simp: compareDirectoriesMetadata_def)

lemma compare_tree_iff:
  "resolvedDirectory l \<Longrightarrow> compareDirectoryInodes l r \<longleftrightarrow> normDirectory l = normDirectory r"
  "resolvedEntries ls \<Longrightarrow> length ls = length rs \<Longrightarrow>
     compareEntryLists ls rs \<longleftrightarrow> map normEntry ls = map normEntry rs"
  "resolvedEntries [e] \<Longrightarrow> compareDirectoryEntries e f \<longleftrightarrow> normEntry e = normEntry f"
proof (induction l r and ls rs and e f
    rule: compareDirectoryInodes_compareEntryLists_compareDirectoryEntries.induct)
  case (1 ls lm lu lg rs rm ru rg)
  then show ?case
    by (auto simp: compareDirectoriesMetadata_iff dest: arg_cong [where f = length])
next
  case (2 l ls r rs)
  then show ?case by (cases l) auto
next
  case (4 ln li lino rn ri rino)
  then show ?case
    by (cases lino; cases rino)
       (auto simp: compare_iffs split: generic_inode.splits)
qed auto

lemma compareDirectoryInodes_refl: "resolvedDirectory d \<Longrightarrow> compareDirectoryInodes d d"
  by (simp add: compare_tree_iff)

section \<open>Properties\<close>

text \<open>
  C21. The comparison of two images decides equality of their normal forms: for an image
  whose inode pointers are set, it answers true exactly if the two inode tables have the
  same size and the two trees agree on everything but inode numbers, hashes of empty
  files and device numbers of files that are no devices.
\<close>

theorem compareFileSystems_decides:
  assumes "resolvedDirectory (fs_root left)"
  shows "compareFileSystems left right \<longleftrightarrow>
           length (InodeTable left) = length (InodeTable right)
         \<and> normDirectory (fs_root left) = normDirectory (fs_root right)"
  by (simp add: compareFileSystems_def compare_tree_iff(1) [OF assms])

theorem compareFileSystems_decides_witness:
  "\<not> compareFileSystems
       \<lparr>InodeTable = [], NumRegularInodes = 0, TotalDataBytes = 0, DirectoryCount = 1,
        fs_root = Directory [] 0 0 0\<rparr>
       \<lparr>InodeTable = [], NumRegularInodes = 0, TotalDataBytes = 0, DirectoryCount = 1,
        fs_root = Directory [] 0 0 1\<rparr>"
  using compareFileSystems_decides [of
      "\<lparr>InodeTable = [], NumRegularInodes = 0, TotalDataBytes = 0, DirectoryCount = 1,
        fs_root = Directory [] 0 0 0\<rparr>"
      "\<lparr>InodeTable = [], NumRegularInodes = 0, TotalDataBytes = 0, DirectoryCount = 1,
        fs_root = Directory [] 0 0 1\<rparr>"]
  by simp

end
