(* ===== verification/File_Tables.thy ===== *)
theory File_Tables
  imports File_System
begin

text \<open>
  The index tables of a file-system image (\<^verbatim>\<open>rebuild.go\<close>, \<^verbatim>\<open>get.go\<close>).

  The Go code caches three of the tables in the image; the model recomputes them. The
  specification all walks are compared with is \<open>pathsOf\<close>: the list of the inode numbers,
  pathnames and inodes of a tree in the order of a depth-first walk.
\<close>

section \<open>The specification: the paths of a tree\<close>

fun pathsOfDirectory :: "directory_inode \<Rightarrow> string \<Rightarrow> (string \<times> u64 \<times> generic_inode option) list"
and pathsOfEntries :: "directory_entry list \<Rightarrow> string \<Rightarrow> (string \<times> u64 \<times> generic_inode option) list"
and pathsOfInode :: "generic_inode option \<Rightarrow> string \<Rightarrow> (string \<times> u64 \<times> generic_inode option) list"
where
  "pathsOfDirectory (Directory es _ _ _) name = pathsOfEntries es name"
| "pathsOfEntries [] name = []"
| "pathsOfEntries (DirectoryEntry n i ino # es) name =
     (pathJoin name n, i, ino) # pathsOfInode ino (pathJoin name n) @ pathsOfEntries es name"
| "pathsOfInode (Some (DirectoryInode d)) name = pathsOfDirectory d name"
| "pathsOfInode _ name = []"

definition pathsOf :: "file_system \<Rightarrow> (string \<times> u64 \<times> generic_inode option) list" where
  "pathsOf fs = pathsOfDirectory (fs_root fs) ''/''"

section \<open>Inode numbers to filenames and back\<close>

fun buildInodeToFilenamesTableDir ::
    "directory_inode \<Rightarrow> string \<Rightarrow> (u64 \<times> string list) list \<Rightarrow> (u64 \<times> string list) list"
and buildInodeToFilenamesTableEntries ::
    "directory_entry list \<Rightarrow> string \<Rightarrow> (u64 \<times> string list) list \<Rightarrow> (u64 \<times> string list) list"
and buildInodeToFilenamesTableInode ::
    "generic_inode option \<Rightarrow> string \<Rightarrow> (u64 \<times> string list) list \<Rightarrow> (u64 \<times> string list) list"
where
  "buildInodeToFilenamesTableDir (Directory es _ _ _) name t =
     buildInodeToFilenamesTableEntries es name t"
| "buildInodeToFilenamesTableEntries [] name t = t"
| "buildInodeToFilenamesTableEntries (DirectoryEntry n i ino # es) name t =
     buildInodeToFilenamesTableEntries es name
       (buildInodeToFilenamesTableInode ino (pathJoin name n)
         (appendTable i (pathJoin name n) t))"
| "buildInodeToFilenamesTableInode (Some (DirectoryInode d)) name t =
     buildInodeToFilenamesTableDir d name t"
| "buildInodeToFilenamesTableInode _ name t = t"

definition InodeToFilenamesTable :: "file_system \<Rightarrow> (u64 \<times> string list) list" where
  "InodeToFilenamesTable fs = buildInodeToFilenamesTableDir (fs_root fs) ''/'' []"

definition addFilenames :: "(string \<rightharpoonup> u64) \<Rightarrow> u64 \<times> string list \<Rightarrow> (string \<rightharpoonup> u64)" where
  "addFilenames m e = foldl (\<lambda>m filename. m(filename \<mapsto> fst e)) m (snd e)"

definition FilenameToInodeTable :: "file_system \<Rightarrow> string \<rightharpoonup> u64" where
  "FilenameToInodeTable fs = foldl addFilenames Map.empty (InodeToFilenamesTable fs)"

definition HashToInodesTable :: "file_system \<Rightarrow> (hash \<times> u64 list) list" where
  "HashToInodesTable fs =
     foldl (\<lambda>t (inum, ino).
         case ino of
           Some (RegularInode r) \<Rightarrow> if ri_Size r > 0 then appendTable (ri_Hash r) inum t else t
         | _ \<Rightarrow> t)
       [] (InodeTable fs)"

definition filenamesOf :: "u64 \<Rightarrow> (string \<times> u64 \<times> generic_inode option) list \<Rightarrow> string list" where
  "filenamesOf i ps = map fst (filter (\<lambda>p. fst (snd p) = i) ps)"

lemma filenamesOf_simps [simp]:
  "filenamesOf i [] = []"
  "filenamesOf i ((n, j, ino) # ps) = (if j = i then n # filenamesOf i ps else filenamesOf i ps)"
  "filenamesOf i (ps @ qs) = filenamesOf i ps @ filenamesOf i qs"
  by (simp_all add: filenamesOf_def)

lemma set_filenamesOf: "n \<in> set (filenamesOf i ps) \<longleftrightarrow> (\<exists>ino. (n, i, ino) \<in> set ps)"
  by (force simp: filenamesOf_def)

lemma indexTable_build:
  "indexTable (buildInodeToFilenamesTableDir d name t) i =
     indexTable t i @ filenamesOf i (pathsOfDirectory d name)"
  "indexTable (buildInodeToFilenamesTableEntries es name t) i =
     indexTable t i @ filenamesOf i (pathsOfEntries es name)"
  "indexTable (buildInodeToFilenamesTableInode ino name t) i =
     indexTable t i @ filenamesOf i (pathsOfInode ino name)"
  by (induction d name t and es name t and ino name t
      rule: buildInodeToFilenamesTableDir_buildInodeToFilenamesTableEntries_buildInodeToFilenamesTableInode.induct)
    (auto simp: indexTable_appendTable)

lemma distinct_build:
  "distinct (map fst t) \<Longrightarrow> distinct (map fst (buildInodeToFilenamesTableDir d name t))"
  "distinct (map fst t) \<Longrightarrow> distinct (map fst (buildInodeToFilenamesTableEntries es name t))"
  "distinct (map fst t) \<Longrightarrow> distinct (map fst (buildInodeToFilenamesTableInode ino name t))"
  by (induction d name t and es name t and ino name t
      rule: buildInodeToFilenamesTableDir_buildInodeToFilenamesTableEntries_buildInodeToFilenamesTableInode.induct)
    auto

lemma indexTable_InodeToFilenamesTable:
  "indexTable (InodeToFilenamesTable fs) i = filenamesOf i (pathsOf fs)"
  by (simp add: InodeToFilenamesTable_def pathsOf_def indexTable_build)

lemma distinct_InodeToFilenamesTable: "distinct (map fst (InodeToFilenamesTable fs))"
  by (simp add: InodeToFilenamesTable_def distinct_build)

lemma foldl_filenames:
  "foldl (\<lambda>m filename. m(filename \<mapsto> inum)) m filenames n =
     (if n \<in> set filenames then Some inum else m n)"
  by (induction filenames arbitrary: m) auto

lemma addFilenames_apply:
  "addFilenames m (i, fns) n = (if n \<in> set fns then Some i else m n)"
  by (simp add: addFilenames_def foldl_filenames)

lemma foldl_addFilenames_SomeD:
  "foldl addFilenames m t n = Some i
     \<Longrightarrow> m n = Some i \<or> (\<exists>fns. (i, fns) \<in> set t \<and> n \<in> set fns)"
proof (induction t arbitrary: m)
  case (Cons x t)
  obtain j fns where x: "x = (j, fns)" by (cases x)
  from Cons.prems have "foldl addFilenames (addFilenames m (j, fns)) t n = Some i"
    by (simp add: x)
  from Cons.IH [OF this] show ?case by (auto simp: x addFilenames_apply split: if_splits)
qed simp

lemma foldl_addFilenames_None:
  "foldl addFilenames m t n = None
     \<longleftrightarrow> m n = None \<and> (\<forall>i fns. (i, fns) \<in> set t \<longrightarrow> n \<notin> set fns)"
  by (induction t arbitrary: m) (auto simp: addFilenames_apply split: if_splits)

lemma mem_InodeToFilenamesTable:
  "(i, fns) \<in> set (InodeToFilenamesTable fs) \<Longrightarrow> fns = filenamesOf i (pathsOf fs)"
  using indexTable_InodeToFilenamesTable [of fs i] distinct_InodeToFilenamesTable [of fs]
  by (simp add: indexTable_def)

lemma indexTable_memI: "x \<in> set (indexTable t i) \<Longrightarrow> \<exists>vs. (i, vs) \<in> set t \<and> x \<in> set vs"
  by (cases "map_of t i") (auto simp: indexTable_def dest: map_of_SomeD)

lemma FilenameToInodeTable_SomeD:
  "FilenameToInodeTable fs n = Some i \<Longrightarrow> \<exists>ino. (n, i, ino) \<in> set (pathsOf fs)"
  using foldl_addFilenames_SomeD [of Map.empty "InodeToFilenamesTable fs" n i]
  by (auto simp: FilenameToInodeTable_def set_filenamesOf dest: mem_InodeToFilenamesTable)

lemma FilenameToInodeTable_None:
  "FilenameToInodeTable fs n = None \<longleftrightarrow> n \<notin> fst ` set (pathsOf fs)"
proof -
  have "FilenameToInodeTable fs n = None \<longleftrightarrow>
      (\<forall>i fns. (i, fns) \<in> set (InodeToFilenamesTable fs) \<longrightarrow> n \<notin> set fns)"
    by (simp add: FilenameToInodeTable_def foldl_addFilenames_None)
  also have "\<dots> \<longleftrightarrow> (\<forall>i. n \<notin> set (filenamesOf i (pathsOf fs)))"
    using indexTable_InodeToFilenamesTable [of fs] mem_InodeToFilenamesTable [of _ _ fs]
    by (metis indexTable_memI)
  also have "\<dots> \<longleftrightarrow> n \<notin> fst ` set (pathsOf fs)"
    by (force simp: set_filenamesOf)
  finally show ?thesis .
qed

section \<open>Properties\<close>

text \<open>
  C30. The index tables describe the tree: the names filed under an inode number are the
  paths of the entries with that number in the order of the walk, a pathname is found
  exactly if the tree has it, and the number found for it is the number of such an entry.
\<close>

theorem index_tables_correct:
  "indexTable (InodeToFilenamesTable fs) i = filenamesOf i (pathsOf fs)
   \<and> (FilenameToInodeTable fs n = None \<longleftrightarrow> n \<notin> fst ` set (pathsOf fs))
   \<and> (case FilenameToInodeTable fs n of None \<Rightarrow> True
      | Some j \<Rightarrow> \<exists>ino. (n, j, ino) \<in> set (pathsOf fs))"
  using FilenameToInodeTable_SomeD
  by (auto simp: indexTable_InodeToFilenamesTable FilenameToInodeTable_None split: option.splits)

end
