(* ===== verification/File_Walks.thy ===== *)
theory File_Walks
  imports File_Tables
begin

text \<open>
  The walks over a file-system image: rebuilding the inode pointers of a decoded image
  (\<^verbatim>\<open>rebuild.go\<close>), calling a function for every file (\<^verbatim>\<open>iterators.go\<close>), collecting the
  computed files and the objects (\<^verbatim>\<open>get.go\<close>), the filtered copies (\<^verbatim>\<open>filter.go\<close>), and
  the totals and estimates (\<^verbatim>\<open>rebuild.go\<close>, \<^verbatim>\<open>estimate.go\<close>).
\<close>

section \<open>Rebuilding inode pointers\<close>

text \<open>
  An image that was decoded from the wire has no inode pointers: they are restored from
  the inode table. \<open>stale e t\<close> is the outcome of the pointer comparison
  \<^verbatim>\<open>dirent.inode != tableInode\<close> for an entry whose pointer is not nil. A table in which a
  directory reaches itself makes the Go code recurse without end; the fuel bounds the
  depth of directories, \<open>None\<close> is "deeper than the fuel", and \<open>rebuild_enough_fuel\<close>
  says which depth is enough.
\<close>

datatype rebuild_error =
    NoInodeTableEntry string
  | NilInodeTableEntry string
  | ChangingInodeEntry string

fun prefixError :: "string \<Rightarrow> rebuild_error \<Rightarrow> rebuild_error" where
  "prefixError n (NoInodeTableEntry p) = NoInodeTableEntry (n @ ''/'' @ p)"
| "prefixError n (NilInodeTableEntry p) = NilInodeTableEntry (n @ ''/'' @ p)"
| "prefixError n (ChangingInodeEntry p) = ChangingInodeEntry (n @ ''/'' @ p)"

fun rebuildDirectory ::
    "inode_table \<Rightarrow> (directory_entry \<Rightarrow> generic_inode \<Rightarrow> bool) \<Rightarrow> nat \<Rightarrow> directory_inode
       \<Rightarrow> (rebuild_error + directory_inode) option"
and rebuildEntries ::
    "inode_table \<Rightarrow> (directory_entry \<Rightarrow> generic_inode \<Rightarrow> bool) \<Rightarrow> nat \<Rightarrow> directory_entry list
       \<Rightarrow> (rebuild_error + directory_entry list) option"
where
  "rebuildDirectory table stale 0 d = None"
| "rebuildDirectory table stale (Suc fuel) (Directory es m u g) =
     map_option (map_sum id (\<lambda>es'. Directory es' m u g)) (rebuildEntries table stale fuel es)"
| "rebuildEntries table stale fuel [] = Some (Inr [])"
| "rebuildEntries table stale fuel (DirectoryEntry n i ino # es) =
     (case map_of table i of
        None \<Rightarrow> Some (Inl (NoInodeTableEntry n))
      | Some None \<Rightarrow> Some (Inl (NilInodeTableEntry n))
      | Some (Some t) \<Rightarrow>
          if ino \<noteq> None \<and> stale (DirectoryEntry n i ino) t
          then Some (Inl (ChangingInodeEntry n))
          else
            (case (case t of
                     DirectoryInode d \<Rightarrow>
                       map_option (map_sum (prefixError n) DirectoryInode)
                         (rebuildDirectory table stale fuel d)
                   | _ \<Rightarrow> Some (Inr t)) of
               None \<Rightarrow> None
             | Some (Inl err) \<Rightarrow> Some (Inl err)
             | Some (Inr t') \<Rightarrow>
                 map_option (map_sum id (\<lambda>es'. DirectoryEntry n i (Some t') # es'))
                   (rebuildEntries table stale fuel es)))"

definition rebuildInodePointers ::
    "(directory_entry \<Rightarrow> generic_inode \<Rightarrow> bool) \<Rightarrow> nat \<Rightarrow> file_system
       \<Rightarrow> (rebuild_error + file_system) option" where
  "rebuildInodePointers stale fuel fs =
     map_option (map_sum id (\<lambda>d. fs\<lparr>fs_root := d\<rparr>))
       (rebuildDirectory (InodeTable fs) stale fuel (fs_root fs))"

lemma resolvedEntries_iff:
  "resolvedEntries es \<longleftrightarrow>
     (\<forall>e \<in> set es. \<exists>t. inode e = Some t \<and> resolvedInode t)"
proof (induction es)
  case (Cons e es)
  then show ?case by (cases e) (auto split: option.splits)
qed simp

lemma rebuild_resolved:
  "rebuildDirectory table stale fuel d = Some (Inr d') \<Longrightarrow> resolvedDirectory d'"
  "rebuildEntries table stale fuel es = Some (Inr es') \<Longrightarrow> resolvedEntries es'"
proof (induction table stale fuel d and table stale fuel es arbitrary: d' and es'
    rule: rebuildDirectory_rebuildEntries.induct)
  case (4 table stale fuel n i ino es)
  then show ?case
    by (cases ino) (auto split: option.splits if_splits sum.splits generic_inode.splits)
qed auto

text \<open>The rebuilt entries are the table's inodes under the old names and numbers.\<close>

lemma rebuild_entries_shape:
  "rebuildEntries table stale fuel es = Some (Inr es') \<Longrightarrow>
     map Name es' = map Name es \<and> map InodeNumber es' = map InodeNumber es"
proof (induction es arbitrary: es')
  case (Cons e es)
  then show ?case
    by (cases e) (auto split: option.splits if_splits sum.splits generic_inode.splits)
qed simp

text \<open>
  Termination: if the directories of the table can be ranked so that every directory
  ranks above the directories among its entries, then a fuel above the root's rank is
  enough, whatever the table holds otherwise.
\<close>

definition rankedEntries :: "(u64 \<Rightarrow> nat) \<Rightarrow> inode_table \<Rightarrow> nat \<Rightarrow> directory_entry list \<Rightarrow> bool" where
  "rankedEntries rank table k es \<longleftrightarrow>
     (\<forall>e \<in> set es. \<forall>d. map_of table (InodeNumber e) = Some (Some (DirectoryInode d))
        \<longrightarrow> rank (InodeNumber e) < k)"

definition rankedTable :: "(u64 \<Rightarrow> nat) \<Rightarrow> inode_table \<Rightarrow> bool" where
  "rankedTable rank table \<longleftrightarrow>
     (\<forall>i d. map_of table i = Some (Some (DirectoryInode d))
        \<longrightarrow> rankedEntries rank table (rank i) (EntryList d))"

lemma rebuild_enough_fuel:
  assumes "rankedTable rank table"
  shows "rankedEntries rank table k (EntryList d) \<Longrightarrow> k < fuel
           \<Longrightarrow> rebuildDirectory table stale fuel d \<noteq> None"
    and "rankedEntries rank table k es \<Longrightarrow> k \<le> fuel
           \<Longrightarrow> rebuildEntries table stale fuel es \<noteq> None"
proof (induction fuel arbitrary: k d es)
  case 0
  {
    case 1
    then show ?case by simp
  next
    case 2
    then show ?case
    proof (induction es)
      case (Cons e es)
      then have "rankedEntries rank table 0 es" by (simp add: rankedEntries_def)
      with Cons show ?case
        by (cases e)
           (auto simp: rankedEntries_def split: option.splits sum.splits generic_inode.splits)
    qed simp
  }
next
  case (Suc fuel)
  {
    case 1
    obtain es m u g where d: "d = Directory es m u g" by (cases d)
    have "rebuildEntries table stale fuel es \<noteq> None"
      using Suc.IH(2) [of k es] 1 by (simp add: d)
    then show ?case by (simp add: d)
  next
    case 2
    then show ?case
    proof (induction es)
      case (Cons e es)
      obtain n i ino where e: "e = DirectoryEntry n i ino" by (cases e)
      have rest: "rebuildEntries table stale (Suc fuel) es \<noteq> None"
        using Cons by (simp add: rankedEntries_def)
      have dir: "rebuildDirectory table stale (Suc fuel) d' \<noteq> None"
        if t: "map_of table i = Some (Some (DirectoryInode d'))" for d'
      proof -
        obtain es' m u g where d': "d' = Directory es' m u g" by (cases d')
        have "rank i < k" using Cons.prems t by (auto simp: rankedEntries_def e)
        moreover have "rankedEntries rank table (rank i) es'"
          using assms t unfolding rankedTable_def d' by (metis directory_inode.sel(1))
        ultimately have "rebuildEntries table stale fuel es' \<noteq> None"
          using Suc.IH(2) [of "rank i" es'] Cons.prems by simp
        then show ?thesis by (simp add: d')
      qed
      show ?case
        using rest dir
        by (auto simp: e split: option.splits sum.splits generic_inode.splits)
    qed simp
  }
qed

section \<open>Calling a function for every file\<close>

fun forEachEntry ::
    "(string \<times> u64 \<times> generic_inode option \<Rightarrow> 's \<Rightarrow> 'e + 's) \<Rightarrow> directory_inode \<Rightarrow> string \<Rightarrow> 's \<Rightarrow> 'e + 's"
and forEachEntryList ::
    "(string \<times> u64 \<times> generic_inode option \<Rightarrow> 's \<Rightarrow> 'e + 's) \<Rightarrow> directory_entry list \<Rightarrow> string \<Rightarrow> 's \<Rightarrow> 'e + 's"
and forEachInode ::
    "(string \<times> u64 \<times> generic_inode option \<Rightarrow> 's \<Rightarrow> 'e + 's) \<Rightarrow> generic_inode option \<Rightarrow> string \<Rightarrow> 's \<Rightarrow> 'e + 's"
where
  "forEachEntry fn (Directory es _ _ _) directoryName s = forEachEntryList fn es directoryName s"
| "forEachEntryList fn [] directoryName s = Inr s"
| "forEachEntryList fn (DirectoryEntry n i ino # es) directoryName s =
     (case fn (pathJoin directoryName n, i, ino) s of
        Inl err \<Rightarrow> Inl err
      | Inr s1 \<Rightarrow>
          (case forEachInode fn ino (pathJoin directoryName n) s1 of
             Inl err \<Rightarrow> Inl err
           | Inr s2 \<Rightarrow> forEachEntryList fn es directoryName s2))"
| "forEachInode fn (Some (DirectoryInode d)) name s = forEachEntry fn d name s"
| "forEachInode fn _ name s = Inr s"

definition forEachFile ::
    "(string \<times> u64 \<times> generic_inode option \<Rightarrow> 's \<Rightarrow> 'e + 's) \<Rightarrow> file_system \<Rightarrow> 's \<Rightarrow> 'e + 's" where
  "forEachFile fn fs s =
     (case fn (''/'', 0, Some (DirectoryInode (fs_root fs))) s of
        Inl err \<Rightarrow> Inl err
      | Inr s1 \<Rightarrow> forEachEntry fn (fs_root fs) ''/'' s1)"

lemma forEachEntry_foldE:
  "forEachEntry fn d name s = foldE fn (pathsOfDirectory d name) s"
  "forEachEntryList fn es name s = foldE fn (pathsOfEntries es name) s"
  "forEachInode fn ino name s = foldE fn (pathsOfInode ino name) s"
  by (induction fn d name s and fn es name s and fn ino name s
      rule: forEachEntry_forEachEntryList_forEachInode.induct)
    (auto simp: foldE_append split: sum.splits)

section \<open>Computed files and objects\<close>

record computed_file =
  cf_Filename :: string
  cf_Source :: string

fun getComputedFilesDir :: "directory_inode \<Rightarrow> string \<Rightarrow> computed_file list"
and getComputedFilesEntries :: "directory_entry list \<Rightarrow> string \<Rightarrow> computed_file list"
and getComputedFilesInode :: "generic_inode option \<Rightarrow> string \<Rightarrow> computed_file list" where
  "getComputedFilesDir (Directory es _ _ _) name = getComputedFilesEntries es name"
| "getComputedFilesEntries [] name = []"
| "getComputedFilesEntries (DirectoryEntry n i ino # es) name =
     getComputedFilesInode ino (pathJoin name n) @ getComputedFilesEntries es name"
| "getComputedFilesInode (Some (ComputedRegularInode c)) name =
     [\<lparr>cf_Filename = name, cf_Source = ci_Source c\<rparr>]"
| "getComputedFilesInode (Some (DirectoryInode d)) name = getComputedFilesDir d name"
| "getComputedFilesInode _ name = []"

definition GetComputedFiles :: "file_system \<Rightarrow> computed_file list" where
  "GetComputedFiles fs = getComputedFilesDir (fs_root fs) ''/''"

definition computedFileOf :: "string \<times> u64 \<times> generic_inode option \<Rightarrow> computed_file option" where
  "computedFileOf p =
     (case snd (snd p) of
        Some (ComputedRegularInode c) \<Rightarrow> Some \<lparr>cf_Filename = fst p, cf_Source = ci_Source c\<rparr>
      | _ \<Rightarrow> None)"

lemma getComputedFiles_paths:
  "getComputedFilesDir d name = List.map_filter computedFileOf (pathsOfDirectory d name)"
  "getComputedFilesEntries es name = List.map_filter computedFileOf (pathsOfEntries es name)"
  "getComputedFilesInode ino name =
     (case ino of Some (ComputedRegularInode c) \<Rightarrow> [\<lparr>cf_Filename = name, cf_Source = ci_Source c\<rparr>]
      | _ \<Rightarrow> List.map_filter computedFileOf (pathsOfInode ino name))"
proof (induction d name and es name and ino name
    rule: getComputedFilesDir_getComputedFilesEntries_getComputedFilesInode.induct)
  case (3 n i ino es name)
  then show ?case
    by (cases ino)
       (auto simp: List.map_filter_def computedFileOf_def split: generic_inode.splits)
qed (auto simp: List.map_filter_def)

definition getObjects :: "file_system \<Rightarrow> (hash \<times> u64) list" where
  "getObjects fs =
     foldl (\<lambda>objects (inum, ino).
         case ino of
           Some (RegularInode r) \<Rightarrow>
             if ri_Size r > 0 then putTable (ri_Hash r) (ri_Size r) objects else objects
         | _ \<Rightarrow> objects)
       [] (InodeTable fs)"

section \<open>Totals and estimates\<close>

fun countInode :: "file_system \<Rightarrow> u64 \<times> generic_inode option \<Rightarrow> file_system" where
  "countInode fs (inum, Some (RegularInode r)) =
     fs\<lparr>NumRegularInodes := NumRegularInodes fs + 1,
        TotalDataBytes := TotalDataBytes fs + ri_Size r\<rparr>"
| "countInode fs _ = fs"

definition computeTotalDataBytes :: "file_system \<Rightarrow> file_system" where
  "computeTotalDataBytes fs =
     foldl countInode (fs\<lparr>NumRegularInodes := 0, TotalDataBytes := 0\<rparr>) (InodeTable fs)"

definition computeNumComputedRegularInodes :: "file_system \<Rightarrow> u64" where
  "computeNumComputedRegularInodes fs =
     foldl (\<lambda>n (inum, ino). case ino of Some (ComputedRegularInode c) \<Rightarrow> n + 1 | _ \<Rightarrow> n)
       0 (InodeTable fs)"

definition sizeToOrder :: "u64 \<Rightarrow> nat" where
  "sizeToOrder blockSize =
     foldl (\<lambda>order i. if push_bit i 1 AND blockSize \<noteq> 0 then i else order) 0 [0..<64]"

text \<open>The size of a file rounded up to a multiple of \<open>2 ^ order\<close>, in machine arithmetic.\<close>

definition roundUpOrder :: "nat \<Rightarrow> u64 \<Rightarrow> u64" where
  "roundUpOrder order sz =
     (let rounded = push_bit order (drop_bit order sz)
      in if rounded < sz then rounded + push_bit order 1 else rounded)"

definition estimateUsage :: "file_system \<Rightarrow> u64 \<Rightarrow> u64" where
  "estimateUsage fs blockSize0 =
     (let blockSize = (if blockSize0 < 1 then 4096 else blockSize0);
          fileOrder = sizeToOrder blockSize
      in foldl (\<lambda>total (inum, ino).
             case ino of
               Some (DirectoryInode d) \<Rightarrow> total + blockSize
             | Some (RegularInode r) \<Rightarrow> total + roundUpOrder fileOrder (ri_Size r)
             | Some (SymlinkInode s) \<Rightarrow> total + 64
             | _ \<Rightarrow> total)
           0 (InodeTable fs))"

fun regularInodes :: "inode_table \<Rightarrow> regular_inode list" where
  "regularInodes [] = []"
| "regularInodes ((_, Some (RegularInode r)) # t) = r # regularInodes t"
| "regularInodes (_ # t) = regularInodes t"

lemma foldl_countInode:
  "foldl countInode fs t =
     fs\<lparr>NumRegularInodes := NumRegularInodes fs + of_nat (length (regularInodes t)),
        TotalDataBytes := TotalDataBytes fs + sum_list (map ri_Size (regularInodes t))\<rparr>"
  by (induction t arbitrary: fs rule: regularInodes.induct) (simp_all add: add.assoc)

lemma computeTotalDataBytes_eq:
  "computeTotalDataBytes fs =
     fs\<lparr>NumRegularInodes := of_nat (length (regularInodes (InodeTable fs))),
        TotalDataBytes := sum_list (map ri_Size (regularInodes (InodeTable fs)))\<rparr>"
  by (simp add: computeTotalDataBytes_def foldl_countInode)

lemma unat_push_drop:
  "unat (push_bit order (drop_bit order (sz :: u64))) = unat sz div 2 ^ order * 2 ^ order"
proof -
  have "unat (push_bit order (drop_bit order sz)) = (unat sz div 2 ^ order * 2 ^ order) mod 2 ^ 64"
    by (simp only: unsigned_push_bit_eq unat_drop_bit_eq)
       (simp add: push_bit_eq_mult drop_bit_eq_div take_bit_eq_mod)
  moreover have "unat sz div 2 ^ order * 2 ^ order < 2 ^ 64"
    using le_less_trans [OF div_times_less_eq_dividend unsigned_less [of sz]] by simp
  ultimately show ?thesis by (simp only: mod_less)
qed

lemma round_up_nat:
  fixes n k :: nat
  assumes "0 < k"
  shows "(n + k - 1) div k * k = (if n div k * k < n then n div k * k + k else n div k * k)"
proof -
  define q r where "q = n div k" and "r = n mod k"
  have n: "n = q * k + r" and r: "r < k" using assms by (simp_all add: q_def r_def)
  show ?thesis
  proof (cases "r = 0")
    case True
    have "(q * k + k - 1) div k = q"
      using assms by (simp add: div_nat_eqI mult.commute)
    with True n assms show ?thesis by (simp add: q_def)
  next
    case False
    have "(q * k + r + k - 1) div k = q + 1"
      using assms r False by (intro div_nat_eqI) (simp_all add: algebra_simps)
    with False n r assms show ?thesis by (simp add: q_def)
  qed
qed

text \<open>
  As long as the next multiple still fits into 64 bits, the rounded size is the least
  multiple of \<open>2 ^ order\<close> that is not below the size.
\<close>

lemma roundUpOrder_unat:
  assumes "order < 64" and "unat sz + 2 ^ order \<le> 2 ^ 64"
  shows "unat (roundUpOrder order sz) = (unat sz + 2 ^ order - 1) div 2 ^ order * 2 ^ order"
proof -
  let ?d = "unat sz div 2 ^ order * 2 ^ order"
  have one: "unat (push_bit order (1 :: u64)) = 2 ^ order"
  proof -
    have "(2 :: nat) ^ order < 2 ^ 64" using assms(1) by (intro power_strict_increasing) simp_all
    then show ?thesis by (simp only: unsigned_push_bit_eq) (simp add: push_bit_eq_mult take_bit_eq_mod)
  qed
  have "unat (push_bit order (drop_bit order sz) + push_bit order 1) = ?d + 2 ^ order"
    if "?d < unat sz"
  proof -
    have "?d + 2 ^ order < 2 ^ 64" using that assms(2) by linarith
    then show ?thesis by (simp add: unat_word_ariths(1) unat_push_drop one [simplified])
  qed
  then show ?thesis
    using round_up_nat [of "2 ^ order" "unat sz"]
    by (simp add: roundUpOrder_def Let_def word_less_nat_alt unat_push_drop)
qed

lemma roundUpOrder_bounds:
  assumes "order < 64" and "unat sz + 2 ^ order \<le> 2 ^ 64"
  shows "unat sz \<le> unat (roundUpOrder order sz)"
    and "unat (roundUpOrder order sz) < unat sz + 2 ^ order"
    and "2 ^ order dvd unat (roundUpOrder order sz)"
proof -
  let ?k = "(2 :: nat) ^ order" and ?n = "unat sz"
  have u: "unat (roundUpOrder order sz) = (if ?n div ?k * ?k < ?n then ?n div ?k * ?k + ?k else ?n div ?k * ?k)"
    using roundUpOrder_unat [OF assms] round_up_nat [of ?k ?n] by simp
  have n: "?n = ?n div ?k * ?k + ?n mod ?k" and k: "0 < ?k" and m: "?n mod ?k < ?k"
    by (simp_all only: div_mult_mod_eq) simp_all
  show "?n \<le> unat (roundUpOrder order sz)"
    unfolding u using n m by (simp only: not_less split: if_split) linarith
  show "unat (roundUpOrder order sz) < ?n + ?k"
    unfolding u using n k by (simp only: not_less split: if_split) linarith
  show "?k dvd unat (roundUpOrder order sz)"
    unfolding u by simp
qed

section \<open>Filtered copies\<close>

text \<open>
  The copy is built while the inode table and the directory count of the new image are
  filled; \<open>skip\<close> is \<^verbatim>\<open>filter.Match\<close> for a filter and "not in the list" for a reference.
\<close>

fun filterDirectory ::
    "(string \<Rightarrow> bool) \<Rightarrow> directory_inode \<Rightarrow> string \<Rightarrow> inode_table \<times> u64 \<Rightarrow> directory_inode \<times> inode_table \<times> u64"
and filterEntries ::
    "(string \<Rightarrow> bool) \<Rightarrow> directory_entry list \<Rightarrow> string \<Rightarrow> inode_table \<times> u64 \<Rightarrow> directory_entry list \<times> inode_table \<times> u64"
and filterInode ::
    "(string \<Rightarrow> bool) \<Rightarrow> generic_inode option \<Rightarrow> string \<Rightarrow> inode_table \<times> u64 \<Rightarrow> generic_inode option \<times> inode_table \<times> u64"
where
  "filterDirectory skip (Directory es m u g) name st =
     (case filterEntries skip es name st of
        (es', table, cnt) \<Rightarrow> (Directory es' m u g, table, cnt + 1))"
| "filterEntries skip [] name st = ([], st)"
| "filterEntries skip (DirectoryEntry n i ino # es) name st =
     (if skip (pathJoin name n) then filterEntries skip es name st
      else
        (case filterInode skip ino (pathJoin name n) st of
           (ino', table, cnt) \<Rightarrow>
             (case filterEntries skip es name (putTable i ino' table, cnt) of
                (es', st') \<Rightarrow> (DirectoryEntry n i ino' # es', st'))))"
| "filterInode skip (Some (DirectoryInode d)) name st =
     (case filterDirectory skip d name st of (d', st') \<Rightarrow> (Some (DirectoryInode d'), st'))"
| "filterInode skip ino name st = (ino, st)"

definition filterUsingList ::
    "(string \<rightharpoonup> u64) \<Rightarrow> directory_inode \<Rightarrow> string \<Rightarrow> inode_table \<times> u64 \<Rightarrow> directory_inode \<times> inode_table \<times> u64" where
  "filterUsingList list = filterDirectory (\<lambda>subName. list subName = None)"

definition newFileSystem :: "directory_inode \<times> inode_table \<times> u64 \<Rightarrow> file_system" where
  "newFileSystem r =
     computeTotalDataBytes
       \<lparr>InodeTable = fst (snd r), NumRegularInodes = 0, TotalDataBytes = 0,
        DirectoryCount = snd (snd r), fs_root = fst r\<rparr>"

definition FilterFS ::
    "(directory_entry \<Rightarrow> generic_inode \<Rightarrow> bool) \<Rightarrow> nat \<Rightarrow> (string \<Rightarrow> bool) option \<Rightarrow> file_system
       \<Rightarrow> (panic + file_system) option" where
  "FilterFS stale fuel flt fs =
     (case flt of
        None \<Rightarrow> Some (Inr fs)
      | Some match \<Rightarrow>
          (case rebuildInodePointers stale fuel fs of
             None \<Rightarrow> None
           | Some (Inl err) \<Rightarrow> Some (Inl (ExplicitPanic ''RebuildInodePointers''))
           | Some (Inr fs) \<Rightarrow>
               Some (Inr (newFileSystem (filterDirectory match (fs_root fs) ''/'' ([], 0))))))"

definition FilterUsingReference ::
    "(directory_entry \<Rightarrow> generic_inode \<Rightarrow> bool) \<Rightarrow> nat \<Rightarrow> file_system option \<Rightarrow> file_system
       \<Rightarrow> (panic + file_system) option" where
  "FilterUsingReference stale fuel reference fs =
     (case reference of
        None \<Rightarrow> Some (Inr fs)
      | Some rf \<Rightarrow>
          (case rebuildInodePointers stale fuel fs of
             None \<Rightarrow> None
           | Some (Inl err) \<Rightarrow> Some (Inl (ExplicitPanic ''RebuildInodePointers''))
           | Some (Inr fs) \<Rightarrow>
               Some (Inr (newFileSystem
                 (filterUsingList (FilenameToInodeTable rf) (fs_root fs) ''/'' ([], 0))))))"

text \<open>
  The specification: each path with its trail (the path itself and every directory above
  it). A path survives exactly if nothing on its trail is skipped. Inodes are compared
  without the entries of a directory, which the copy filters.
\<close>

fun trailsDirectory :: "string list \<Rightarrow> directory_inode \<Rightarrow> string \<Rightarrow> (string list \<times> string \<times> u64 \<times> generic_inode option) list"
and trailsEntries :: "string list \<Rightarrow> directory_entry list \<Rightarrow> string \<Rightarrow> (string list \<times> string \<times> u64 \<times> generic_inode option) list"
and trailsInode :: "string list \<Rightarrow> generic_inode option \<Rightarrow> string \<Rightarrow> (string list \<times> string \<times> u64 \<times> generic_inode option) list"
where
  "trailsDirectory tr (Directory es _ _ _) name = trailsEntries tr es name"
| "trailsEntries tr [] name = []"
| "trailsEntries tr (DirectoryEntry n i ino # es) name =
     (pathJoin name n # tr, pathJoin name n, i, ino)
       # trailsInode (pathJoin name n # tr) ino (pathJoin name n) @ trailsEntries tr es name"
| "trailsInode tr (Some (DirectoryInode d)) name = trailsDirectory tr d name"
| "trailsInode tr _ name = []"

fun shallow :: "generic_inode option \<Rightarrow> generic_inode option" where
  "shallow (Some (DirectoryInode (Directory es m u g))) = Some (DirectoryInode (Directory [] m u g))"
| "shallow ino = ino"

definition shallowPath :: "string \<times> u64 \<times> generic_inode option \<Rightarrow> string \<times> u64 \<times> generic_inode option" where
  "shallowPath p = (fst p, fst (snd p), shallow (snd (snd p)))"

lemma trails_paths:
  "map snd (trailsDirectory tr d name) = pathsOfDirectory d name"
  "map snd (trailsEntries tr es name) = pathsOfEntries es name"
  "map snd (trailsInode tr ino name) = pathsOfInode ino name"
  by (induction tr d name and tr es name and tr ino name
      rule: trailsDirectory_trailsEntries_trailsInode.induct) auto

definition keptTrails ::
    "(string \<Rightarrow> bool) \<Rightarrow> (string list \<times> string \<times> u64 \<times> generic_inode option) list
       \<Rightarrow> (string list \<times> string \<times> u64 \<times> generic_inode option) list" where
  "keptTrails skip ts = filter (\<lambda>t. \<forall>p \<in> set (fst t). \<not> skip p) ts"

lemma keptTrails_simps [simp]:
  "keptTrails skip [] = []"
  "keptTrails skip (t # ts) =
     (if \<forall>p \<in> set (fst t). \<not> skip p then t # keptTrails skip ts else keptTrails skip ts)"
  "keptTrails skip (ts @ us) = keptTrails skip ts @ keptTrails skip us"
  by (simp_all add: keptTrails_def)

lemma trails_suffix:
  "t \<in> set (trailsDirectory tr d name) \<Longrightarrow> set tr \<subseteq> set (fst t)"
  "t \<in> set (trailsEntries tr es name) \<Longrightarrow> set tr \<subseteq> set (fst t)"
  "t \<in> set (trailsInode tr ino name) \<Longrightarrow> set tr \<subseteq> set (fst t)"
  by (induction tr d name and tr es name and tr ino name
      rule: trailsDirectory_trailsEntries_trailsInode.induct) auto

lemma keptTrails_skipped:
  "p \<in> set tr \<Longrightarrow> skip p \<Longrightarrow> keptTrails skip (trailsInode tr ino name) = []"
  unfolding keptTrails_def filter_empty_conv using trails_suffix(3) by blast

lemma filter_paths:
  "\<forall>p \<in> set tr. \<not> skip p \<Longrightarrow>
     map shallowPath (pathsOfDirectory (fst (filterDirectory skip d name st)) name) =
     map (shallowPath \<circ> snd) (keptTrails skip (trailsDirectory tr d name))"
  "\<forall>p \<in> set tr. \<not> skip p \<Longrightarrow>
     map shallowPath (pathsOfEntries (fst (filterEntries skip es name st)) name) =
     map (shallowPath \<circ> snd) (keptTrails skip (trailsEntries tr es name))"
  "\<forall>p \<in> set tr. \<not> skip p \<Longrightarrow>
     map shallowPath (pathsOfInode (fst (filterInode skip ino name st)) name) =
     map (shallowPath \<circ> snd) (keptTrails skip (trailsInode tr ino name))
     \<and> shallow (fst (filterInode skip ino name st)) = shallow ino"
proof (induction skip d name st and skip es name st and skip ino name st arbitrary: tr and tr and tr
    rule: filterDirectory_filterEntries_filterInode.induct)
  case (3 skip n i ino es name st)
  let ?p = "pathJoin name n"
  show ?case
  proof (cases "skip ?p")
    case True
    then show ?thesis using "3.IH"(1) [OF True "3.prems"] keptTrails_skipped [of ?p "?p # tr" skip]
      by simp
  next
    case False
    obtain ino' table cnt where f: "filterInode skip ino ?p st = (ino', table, cnt)"
      by (metis prod_cases3)
    have "\<forall>q \<in> set (?p # tr). \<not> skip q" using False "3.prems" by simp
    note i = "3.IH"(2) [OF False this]
    note r = "3.IH"(3) [OF False f [symmetric] refl "3.prems"]
    show ?thesis using False "3.prems" f i r
      by (auto simp: shallowPath_def split: prod.splits)
  qed
next
  case (4 skip d name st)
  then show ?case by (cases d) (auto split: prod.splits)
qed (auto split: prod.splits)

section \<open>Properties\<close>

text \<open>
  C29. Rebuilding the inode pointers of an image ends whenever the directories of the
  inode table can be ranked (a fuel above the rank of the root is enough), and if it ends
  without an error then no inode pointer of the tree is nil.
\<close>

theorem rebuild_total_and_resolved:
  assumes "rankedTable rank (InodeTable fs)"
    and "rankedEntries rank (InodeTable fs) k (EntryList (fs_root fs))" and "k < fuel"
  shows "\<exists>r. rebuildInodePointers stale fuel fs = Some r
           \<and> (\<forall>fs'. r = Inr fs' \<longrightarrow> resolvedDirectory (fs_root fs') \<and> InodeTable fs' = InodeTable fs)"
proof -
  obtain r where r: "rebuildDirectory (InodeTable fs) stale fuel (fs_root fs) = Some r"
    using rebuild_enough_fuel(1) [OF assms] by auto
  then show ?thesis
    using rebuild_resolved(1) [of "InodeTable fs" stale fuel "fs_root fs"]
    by (auto simp: rebuildInodePointers_def)
qed

definition exampleImage :: file_system where
  "exampleImage =
     \<lparr>InodeTable =
        [(7, Some (SymlinkInode \<lparr>si_Uid = 0, si_Gid = 0, si_Symlink = ''x''\<rparr>)),
         (8, Some (DirectoryInode (Directory [DirectoryEntry ''n'' 7 None] 0 0 0)))],
      NumRegularInodes = 0, TotalDataBytes = 0, DirectoryCount = 2,
      fs_root = Directory [DirectoryEntry ''d'' 8 None, DirectoryEntry ''m'' 7 None] 0 0 0\<rparr>"

theorem rebuild_total_and_resolved_witness:
  "\<exists>r. rebuildInodePointers (\<lambda>_ _. True) 2 exampleImage = Some r"
proof -
  have ranked: "rankedTable (\<lambda>_. 0) (InodeTable exampleImage)"
    by (auto simp: rankedTable_def rankedEntries_def exampleImage_def split: if_splits)
  have "rankedEntries (\<lambda>_. 0) (InodeTable exampleImage) 1 (EntryList (fs_root exampleImage))"
    by (simp add: rankedEntries_def)
  from rebuild_total_and_resolved [OF ranked this, of 2 "\<lambda>_ _. True"] show ?thesis by auto
qed





end
