(* ===== verification/Path_Regexp.thy ===== *)
theory Path_Regexp
  imports Dom_Prelude
begin

text \<open>
  Regular expressions with pathname optimisations (\<^verbatim>\<open>lib/pathregexp\<close>).

  An expression that has one of five simple shapes is compiled to a string matcher, every
  other one is handed to Go's \<^verbatim>\<open>regexp\<close> package. That package is not part of the
  repository: \<open>reCompile\<close> and \<open>reMatch\<close> are arguments of the model. What the optimisation
  relies on is \<open>regexp_documented\<close>: on the constructs the optimiser looks for, the
  package matches as its documentation says (\<open>itemsMatch\<close>, a backtracking matcher).
\<close>

section \<open>The matchers\<close>

text \<open>
  \<open>RegexpMatcher None\<close> is the interface value that holds a nil \<^verbatim>\<open>*regexp.Regexp\<close>. It is
  what \<^verbatim>\<open>return regexp.Compile(...)\<close> yields for a bad expression; it differs from the nil
  interface, and calling it dereferences a nil pointer.
\<close>

datatype 're path_matcher =
    ContainsMatcher string
  | ExactMatcher string
  | PrefixMatcher string
  | PrefixRegexpMatcher string 're
  | TreeMatcher string
  | RegexpMatcher "'re option"

datatype compile_error = EmptyExpression | RegexpError

definition charBetween :: "char \<Rightarrow> char \<Rightarrow> char \<Rightarrow> bool" where
  "charBetween l c h \<longleftrightarrow> (of_char l :: nat) \<le> of_char c \<and> (of_char c :: nat) \<le> of_char h"

definition isPlain :: "char \<Rightarrow> bool" where
  "isPlain ch \<longleftrightarrow>
     (if charBetween (CHR ''0'') ch (CHR ''9'') then True
      else if charBetween (CHR ''A'') ch (CHR ''Z'') then True
      else if charBetween (CHR ''a'') ch (CHR ''z'') then True
      else ch = CHR ''-'' \<or> ch = CHR ''/'' \<or> ch = CHR ''_'')"

text \<open>
  \<open>rest\<close> is the part of the expression from \<^verbatim>\<open>index\<close> on: up to \<^verbatim>\<open>len(expression) - 2\<close> for the
  loop of \<^verbatim>\<open>compileContainsMatcher\<close>, to the end of the expression for \<^verbatim>\<open>compile\<close>.
\<close>

function containsLoop :: "string \<Rightarrow> string \<Rightarrow> string" where
  "containsLoop rest builder =
     (case rest of
        [] \<Rightarrow> builder
      | ch # cs \<Rightarrow>
          if isPlain ch then containsLoop cs (builder @ [ch])
          else if ch = CHR ''['' \<and> 2 < length rest \<and> rest ! 2 = CHR '']'' \<and> rest ! 1 \<noteq> CHR ''^''
          then containsLoop (drop 3 rest) (builder @ [rest ! 1])
          else [])"
  by pat_completeness auto
termination by (relation "measure (\<lambda>(rest, builder). length rest)") auto

definition compileContainsMatcher :: "string \<Rightarrow> string" where
  "compileContainsMatcher expression =
     (if length expression < 7 then []
      else if take 3 expression \<noteq> ''/.*'' \<and> take 3 expression \<noteq> ''.*/'' then []
      else if drop (length expression - 2) expression \<noteq> ''.*'' then []
      else
        containsLoop
          (drop (if take 3 expression = ''/.*'' then 3 else 2)
             (take (length expression - 2) expression)) [])"

function compileLoop ::
    "(string \<Rightarrow> 're option) \<Rightarrow> string \<Rightarrow> string \<Rightarrow> string
       \<Rightarrow> 're path_matcher option \<times> compile_error option" where
  "compileLoop reCompile expression rest builder =
     (case rest of
        [] \<Rightarrow> (Some (PrefixMatcher builder), None)
      | ch # cs \<Rightarrow>
          if isPlain ch then compileLoop reCompile expression cs (builder @ [ch])
          else if ch = CHR ''['' \<and> 2 < length rest \<and> rest ! 2 = CHR '']'' \<and> rest ! 1 \<noteq> CHR ''^''
          then compileLoop reCompile expression (drop 3 rest) (builder @ [rest ! 1])
          else if ch = CHR ''$'' \<and> length rest = 1 then (Some (ExactMatcher builder), None)
          else if ch = CHR ''.'' \<and> length rest = 2 \<and> rest ! 1 = CHR ''*''
          then (Some (PrefixMatcher builder), None)
          else if ch = CHR ''.'' \<and> 1 < length builder \<and> 2 < length rest \<and> rest ! 1 = CHR ''*''
          then (case reCompile (CHR ''^'' # rest) of
                  None \<Rightarrow> (None, Some RegexpError)
                | Some re \<Rightarrow> (Some (PrefixRegexpMatcher builder re), None))
          else if rest = ''(|/.*)$'' \<and> 0 < length builder then (Some (TreeMatcher builder), None)
          else (case reCompile (CHR ''^'' # expression) of
                  None \<Rightarrow> (Some (RegexpMatcher None), Some RegexpError)
                | Some re \<Rightarrow> (Some (RegexpMatcher (Some re)), None)))"
  by pat_completeness auto
termination by (relation "measure (\<lambda>(re, expression, rest, builder). length rest)") auto

declare containsLoop.simps [simp del] compileLoop.simps [simp del]

definition compile ::
    "(string \<Rightarrow> 're option) \<Rightarrow> string \<Rightarrow> 're path_matcher option \<times> compile_error option" where
  "compile reCompile expression =
     (if expression = [] then (None, Some EmptyExpression)
      else if compileContainsMatcher expression \<noteq> []
      then (Some (ContainsMatcher (compileContainsMatcher expression)), None)
      else compileLoop reCompile expression expression [])"

fun isOptimised :: "'re path_matcher option \<Rightarrow> bool" where
  "isOptimised (Some (RegexpMatcher r)) = False"
| "isOptimised _ = True"

fun contains :: "string \<Rightarrow> string \<Rightarrow> bool" where
  "contains s m = (take (length m) s = m \<or> (case s of [] \<Rightarrow> False | _ # s' \<Rightarrow> contains s' m))"

declare contains.simps [simp del]

fun MatchString :: "('re \<Rightarrow> string \<Rightarrow> bool) \<Rightarrow> 're path_matcher \<Rightarrow> string \<Rightarrow> panic + bool" where
  "MatchString reMatch (ContainsMatcher m) s =
     Inr (if length s < 1 then False
          else if s ! 0 \<noteq> CHR ''/'' then False
          else contains s m)"
| "MatchString reMatch (ExactMatcher m) s = Inr (m = s)"
| "MatchString reMatch (PrefixMatcher m) s = Inr (take (length m) s = m)"
| "MatchString reMatch (PrefixRegexpMatcher m re) s =
     Inr (if take (length m) s \<noteq> m then False else reMatch re (drop (length m) s))"
| "MatchString reMatch (TreeMatcher m) s =
     Inr (if length s < length m then False
          else if m = s then True
          else length m < length s \<and> 0 < length s \<and> s ! length m = CHR ''/''
               \<and> take (length m) s = m)"
| "MatchString reMatch (RegexpMatcher None) s = Inl NilDereference"
| "MatchString reMatch (RegexpMatcher (Some re)) s = Inr (reMatch re s)"

section \<open>The constructs the optimiser knows\<close>

datatype item =
    PlainChar char     \<comment> \<open>a plain character\<close>
  | ClassChar char     \<comment> \<open>a class of one character, e.g. \<^verbatim>\<open>[.]\<close>\<close>
  | AnyStar            \<comment> \<open>\<^verbatim>\<open>.*\<close>\<close>
  | TreeTail           \<comment> \<open>\<^verbatim>\<open>(|/.*)\<close>\<close>
  | EndOfText          \<comment> \<open>\<^verbatim>\<open>$\<close>\<close>

fun itemOk :: "item \<Rightarrow> bool" where
  "itemOk (PlainChar c) = isPlain c"
| "itemOk (ClassChar c) = (c \<noteq> CHR ''^'' \<and> c \<noteq> CHR 0x5C \<and> (of_char c :: nat) < 128)"
| "itemOk _ = True"

fun showItem :: "item \<Rightarrow> string" where
  "showItem (PlainChar c) = [c]"
| "showItem (ClassChar c) = [CHR ''['', c, CHR '']'']"
| "showItem AnyStar = ''.*''"
| "showItem TreeTail = ''(|/.*)''"
| "showItem EndOfText = ''$''"

definition showItems :: "item list \<Rightarrow> string" where
  "showItems its = concat (map showItem its)"

text \<open>
  Whether some prefix of the text matches, as the documentation of the package defines
  it: a dot matches every character but a newline, \<^verbatim>\<open>$\<close> matches at the end of the text.
\<close>

function itemsMatch :: "item list \<Rightarrow> string \<Rightarrow> bool" where
  "itemsMatch [] s = True"
| "itemsMatch (PlainChar c # its) s = (case s of [] \<Rightarrow> False | x # s' \<Rightarrow> x = c \<and> itemsMatch its s')"
| "itemsMatch (ClassChar c # its) s = (case s of [] \<Rightarrow> False | x # s' \<Rightarrow> x = c \<and> itemsMatch its s')"
| "itemsMatch (AnyStar # its) s =
     (itemsMatch its s
      \<or> (case s of [] \<Rightarrow> False | x # s' \<Rightarrow> x \<noteq> CHR 0x0A \<and> itemsMatch (AnyStar # its) s'))"
| "itemsMatch (TreeTail # its) s =
     (itemsMatch its s
      \<or> (case s of [] \<Rightarrow> False | x # s' \<Rightarrow> x = CHR ''/'' \<and> itemsMatch (AnyStar # its) s'))"
| "itemsMatch (EndOfText # its) s = (s = [] \<and> itemsMatch its s)"
  by pat_completeness auto
termination by (relation "measures [\<lambda>(its, s). length s, \<lambda>(its, s). length its]") auto

declare itemsMatch.simps(4,5) [simp del]

definition regexp_documented :: "(string \<Rightarrow> 're option) \<Rightarrow> ('re \<Rightarrow> string \<Rightarrow> bool) \<Rightarrow> bool" where
  "regexp_documented reCompile reMatch \<longleftrightarrow>
     (\<forall>its. list_all itemOk its \<longrightarrow>
        (\<exists>re. reCompile (CHR ''^'' # showItems its) = Some re
            \<and> (\<forall>s. reMatch re s = itemsMatch its s)))"

section \<open>The optimised matchers agree with the expressions they replace\<close>

fun litOf :: "item \<Rightarrow> string" where
  "litOf (PlainChar c) = [c]"
| "litOf (ClassChar c) = [c]"
| "litOf _ = []"

fun isLit :: "item \<Rightarrow> bool" where
  "isLit (PlainChar c) = True"
| "isLit (ClassChar c) = True"
| "isLit _ = False"

definition lits :: "item list \<Rightarrow> string" where
  "lits its = concat (map litOf its)"

lemma lits_simps [simp]:
  "lits [] = []"
  "lits (i # its) = litOf i @ lits its"
  "lits (its @ its') = lits its @ lits its'"
  by (simp_all add: lits_def)

lemma showItems_simps [simp]:
  "showItems [] = []"
  "showItems (i # its) = showItem i @ showItems its"
  "showItems (its @ its') = showItems its @ showItems its'"
  by (simp_all add: showItems_def)

lemma not_isPlain [simp]:
  "\<not> isPlain (CHR ''['')" "\<not> isPlain (CHR ''.'')" "\<not> isPlain (CHR ''('')"
  "\<not> isPlain (CHR ''$'')" "\<not> isPlain (CHR ''*'')"
  by (simp_all add: isPlain_def charBetween_def)

lemma showItem_nonempty [simp]: "showItem i \<noteq> []"
  by (cases i) auto

lemma showItems_eq_Nil [simp]: "showItems its = [] \<longleftrightarrow> its = []"
  by (cases its) auto

lemma itemsMatch_lits:
  "list_all isLit pre \<Longrightarrow>
     itemsMatch (pre @ its) s \<longleftrightarrow> take (length (lits pre)) s = lits pre \<and> itemsMatch its (drop (length (lits pre)) s)"
proof (induction pre arbitrary: s)
  case (Cons i pre)
  then show ?case by (cases i; cases s) auto
qed simp

lemma itemsMatch_AnyStar:
  "CHR 0x0A \<notin> set s \<Longrightarrow> itemsMatch (AnyStar # its) s \<longleftrightarrow> (\<exists>u v. s = u @ v \<and> itemsMatch its v)"
proof (induction s)
  case Nil
  then show ?case by (simp add: itemsMatch.simps(4))
next
  case (Cons x s)
  then have "itemsMatch (AnyStar # its) (x # s) \<longleftrightarrow>
      itemsMatch its (x # s) \<or> (\<exists>u v. s = u @ v \<and> itemsMatch its v)"
    by (subst itemsMatch.simps(4)) auto
  also have "\<dots> \<longleftrightarrow> (\<exists>u v. x # s = u @ v \<and> itemsMatch its v)"
    by (metis append_Cons append_Nil Cons_eq_append_conv)
  finally show ?case .
qed

lemma itemsMatch_tree:
  "CHR 0x0A \<notin> set s \<Longrightarrow>
     itemsMatch [TreeTail, EndOfText] s \<longleftrightarrow> s = [] \<or> (\<exists>t. s = CHR ''/'' # t)"
  by (cases s) (auto simp: itemsMatch.simps(5) itemsMatch_AnyStar)

lemma contains_iff: "contains s m \<longleftrightarrow> (\<exists>u v. s = u @ m @ v)"
proof (induction s)
  case Nil
  then show ?case by (auto simp: contains.simps [of "[]"])
next
  case (Cons x s)
  have t: "take (length m) (x # s) = m \<longleftrightarrow> (\<exists>v. x # s = m @ v)"
    by (metis append_eq_conv_conj append_take_drop_id)
  show ?case
    unfolding contains.simps [of "x # s"] t using Cons.IH
    by (auto simp: Cons_eq_append_conv)
qed

lemma containsLoop_items:
  "list_all itemOk its \<Longrightarrow>
     containsLoop (showItems its) b = (if list_all isLit its then b @ lits its else [])"
proof (induction its arbitrary: b)
  case Nil
  then show ?case by (simp add: containsLoop.simps)
next
  case (Cons i its)
  then show ?case by (cases i) (subst containsLoop.simps; simp)+
qed


lemma regexp_documentedD:
  assumes "regexp_documented rc rm" and "list_all itemOk its"
  obtains re where "rc (CHR ''^'' # showItems its) = Some re" and "\<And>s. rm re s = itemsMatch its s"
  using assms unfolding regexp_documented_def by blast

lemma showItems_dollar [simp]: "list_all itemOk its \<Longrightarrow> showItems its = ''$'' \<longleftrightarrow> its = [EndOfText]"
proof (cases its)
  case (Cons i its')
  then show "list_all itemOk its \<Longrightarrow> ?thesis" by (cases i) auto
qed simp

definition general ::
    "(string \<Rightarrow> 're option) \<Rightarrow> string \<Rightarrow> 're path_matcher option \<times> compile_error option" where
  "general rc e =
     (case rc (CHR ''^'' # e) of
        None \<Rightarrow> (Some (RegexpMatcher None), Some RegexpError)
      | Some re \<Rightarrow> (Some (RegexpMatcher (Some re)), None))"

lemma compileLoop_items:
  "compileLoop rc e [] b = (Some (PrefixMatcher b), None)"
  "isPlain c \<Longrightarrow> compileLoop rc e (c # r) b = compileLoop rc e r (b @ [c])"
  "c \<noteq> CHR ''^'' \<Longrightarrow>
     compileLoop rc e (CHR ''['' # c # CHR '']'' # r) b = compileLoop rc e r (b @ [c])"
  "compileLoop rc e (CHR ''$'' # r) b =
     (if r = [] then (Some (ExactMatcher b), None) else general rc e)"
  "compileLoop rc e (CHR ''.'' # CHR ''*'' # r) b =
     (if r = [] then (Some (PrefixMatcher b), None)
      else if 1 < length b
      then (case rc (CHR ''^'' # CHR ''.'' # CHR ''*'' # r) of
              None \<Rightarrow> (None, Some RegexpError)
            | Some re \<Rightarrow> (Some (PrefixRegexpMatcher b re), None))
      else general rc e)"
  "compileLoop rc e (''(|/.*)'' @ r) b =
     (if r = ''$'' \<and> b \<noteq> [] then (Some (TreeMatcher b), None) else general rc e)"
  by (subst compileLoop.simps; simp add: general_def numeral_eq_Suc)+

lemmas compileLoop_tree = compileLoop_items(6) [simplified]

lemma lits_empty: "list_all isLit pre \<Longrightarrow> lits pre = [] \<longleftrightarrow> pre = []"
proof (cases pre)
  case (Cons i pre')
  then show "list_all isLit pre \<Longrightarrow> ?thesis" by (cases i) auto
qed simp

lemma compileLoop_correct:
  assumes "regexp_documented rc rm" and "CHR 0x0A \<notin> set s"
  shows "list_all itemOk (pre @ its) \<Longrightarrow> list_all isLit pre \<Longrightarrow>
     \<exists>m. compileLoop rc (showItems (pre @ its)) (showItems its) (lits pre) = (Some m, None)
       \<and> MatchString rm m s = Inr (itemsMatch (pre @ its) s)"
proof (induction its arbitrary: pre)
  case Nil
  then show ?case by (simp add: compileLoop_items itemsMatch_lits [of pre "[]", simplified])
next
  case (Cons i its)
  let ?e = "showItems (pre @ i # its)" and ?n = "length (lits pre)"
  note lit = itemsMatch_lits [OF Cons.prems(2), of "i # its" s]
  have nl: "CHR 0x0A \<notin> set (drop ?n s)" using assms(2) by (auto dest: in_set_dropD)
  have step: ?case if "isLit i"
  proof -
    have "compileLoop rc ?e (showItems (i # its)) (lits pre) =
        compileLoop rc ?e (showItems its) (lits (pre @ [i]))"
      using that Cons.prems by (cases i) (simp_all add: compileLoop_items)
    then show ?thesis using Cons.IH [of "pre @ [i]"] Cons.prems that by simp
  qed
  obtain re where re: "rc (CHR ''^'' # ?e) = Some re" "\<And>s. rm re s = itemsMatch (pre @ i # its) s"
    using regexp_documentedD [OF assms(1) Cons.prems(1)] by metis
  have general: ?case if "compileLoop rc ?e (showItems (i # its)) (lits pre) = general rc ?e"
    unfolding that using re by (simp add: general_def)
  show ?case
  proof (cases i)
    case AnyStar
    consider "its = []" | "its \<noteq> []" "1 < ?n" | "its \<noteq> []" "\<not> 1 < ?n" by auto
    then show ?thesis
    proof cases
      case 1
      then show ?thesis using lit
        by (simp add: AnyStar compileLoop_items itemsMatch.simps(4) [of "[]"])
    next
      case 2
      obtain re where "rc (CHR ''^'' # showItems (i # its)) = Some re"
        and "\<And>s. rm re s = itemsMatch (i # its) s"
        using regexp_documentedD [OF assms(1), of "i # its"] Cons.prems(1) by auto
      then show ?thesis using 2 lit by (simp add: AnyStar compileLoop_items)
    next
      case 3
      then show ?thesis by (intro general) (simp add: AnyStar compileLoop_items)
    qed
  next
    case TreeTail
    show ?thesis
    proof (cases "its = [EndOfText] \<and> pre \<noteq> []")
      case True
      have "length (lits pre) < length s \<and> s ! length (lits pre) = CHR ''/'' \<longleftrightarrow>
          (\<exists>t. drop ?n s = CHR ''/'' # t)"
        by (metis Cons_nth_drop_Suc drop_eq_Nil2 linorder_not_le list.discI list.sel(1) hd_drop_conv_nth)
      moreover have "lits pre = s \<longleftrightarrow> take ?n s = lits pre \<and> drop ?n s = []"
        by auto
      ultimately show ?thesis using True lit itemsMatch_tree [OF nl] lits_empty [OF Cons.prems(2)]
        by (auto simp: TreeTail compileLoop_tree)
    next
      case False
      with Cons.prems(1) lits_empty [OF Cons.prems(2)] show ?thesis
        by (intro general) (auto simp: TreeTail compileLoop_tree)
    qed
  next
    case EndOfText
    show ?thesis
    proof (cases "its = []")
      case True
      then show ?thesis using lit by (auto simp: EndOfText compileLoop_items)
    next
      case False
      then show ?thesis by (intro general) (auto simp: EndOfText compileLoop_items)
    qed
  qed (use step in simp_all)
qed

lemma compileContainsMatcher_shape:
  assumes ok: "list_all itemOk its" and m: "compileContainsMatcher (showItems its) \<noteq> []"
  obtains mid where "list_all isLit mid" "its = PlainChar (CHR ''/'') # AnyStar # mid @ [AnyStar]"
      "compileContainsMatcher (showItems its) = lits mid"
    | mid where "list_all isLit mid" "its = AnyStar # PlainChar (CHR ''/'') # mid @ [AnyStar]"
      "compileContainsMatcher (showItems its) = CHR ''/'' # lits mid"
proof -
  let ?e = "showItems its"
  have len: "7 \<le> length ?e" and suf: "drop (length ?e - 2) ?e = ''.*''"
    and pre: "take 3 ?e = ''/.*'' \<or> take 3 ?e = ''.*/''"
    and cm: "compileContainsMatcher ?e =
      containsLoop (drop (if take 3 ?e = ''/.*'' then 3 else 2) (take (length ?e - 2) ?e)) []"
    using m by (auto simp: compileContainsMatcher_def split: if_splits)
  have "last ?e = CHR ''*''"
    by (metis suf append_take_drop_id last_appendR last_ConsR last_ConsL list.distinct(1))
  moreover obtain its' i where its: "its = its' @ [i]"
    using len by (cases its rule: rev_cases) auto
  ultimately have i: "i = AnyStar" using ok by (cases i) auto
  have take: "take (length ?e - 2) ?e = showItems its'" by (simp add: its i)
  show thesis
  proof (cases "take 3 ?e = ''/.*''")
    case True
    obtain j k mid where its': "its' = j # k # mid" and jk: "j = PlainChar (CHR ''/'')" "k = AnyStar"
    proof (cases its')
      case Nil
      then show ?thesis using len by (simp add: its i)
    next
      case (Cons j r)
      then have j: "j = PlainChar (CHR ''/'')" using True ok by (cases j) (auto simp: its numeral_eq_Suc)
      show ?thesis
      proof (cases r)
        case Nil
        then show ?thesis using len Cons j by (simp add: its i)
      next
        case Cons': (Cons k mid)
        have "k = AnyStar" using True ok Cons Cons' j by (cases k) (auto simp: its numeral_eq_Suc)
        with Cons Cons' j that show ?thesis by simp
      qed
    qed
    have c: "compileContainsMatcher ?e = (if list_all isLit mid then lits mid else [])"
      using cm True ok containsLoop_items [of mid "[]"] unfolding take
      by (simp add: its its' jk numeral_eq_Suc)
    with m have "list_all isLit mid" by (auto split: if_splits)
    with c that(1) [of mid] show ?thesis by (simp add: its its' jk i)
  next
    case False
    with pre have dot: "take 3 ?e = ''.*/''" by simp
    obtain j k mid where its': "its' = j # k # mid" and jk: "j = AnyStar" "k = PlainChar (CHR ''/'')"
    proof (cases its')
      case Nil
      then show ?thesis using len by (simp add: its i)
    next
      case (Cons j r)
      then have j: "j = AnyStar" using dot ok by (cases j) (auto simp: its numeral_eq_Suc)
      show ?thesis
      proof (cases r)
        case Nil
        then show ?thesis using len Cons j by (simp add: its i)
      next
        case Cons': (Cons k mid)
        have "k = PlainChar (CHR ''/'')"
          using dot ok Cons Cons' j by (cases k) (auto simp: its numeral_eq_Suc)
        with Cons Cons' j that show ?thesis by simp
      qed
    qed
    have "compileContainsMatcher ?e = containsLoop (showItems (k # mid)) []"
      using cm False by (simp only: take if_False) (simp add: its' jk)
    also have "\<dots> = (if list_all isLit mid then CHR ''/'' # lits mid else [])"
      using ok by (subst containsLoop_items) (simp_all add: its its' jk)
    finally have c: "compileContainsMatcher ?e = (if list_all isLit mid then CHR ''/'' # lits mid else [])" .
    with m have "list_all isLit mid" by (auto split: if_splits)
    with c that(2) [of mid] show ?thesis by (simp add: its its' jk i)
  qed
qed

lemma itemsMatch_contains:
  assumes "list_all isLit mid" and "CHR 0x0A \<notin> set s"
  shows "itemsMatch (AnyStar # mid @ [AnyStar]) s \<longleftrightarrow> contains s (lits mid)"
proof -
  have "itemsMatch (mid @ [AnyStar]) v \<longleftrightarrow> (\<exists>w. v = lits mid @ w)" for v
    using itemsMatch_lits [OF assms(1), of "[AnyStar]" v]
    by (auto simp: itemsMatch.simps(4) [of "[]"]) (metis append_take_drop_id)
  then show ?thesis by (auto simp: itemsMatch_AnyStar [OF assms(2)] contains_iff)
qed

text \<open>A package that behaves as documented on these constructs exists: a parser for them.\<close>

function parseItems :: "string \<Rightarrow> item list option" where
  "parseItems s =
     (case s of
        [] \<Rightarrow> Some []
      | c # r \<Rightarrow>
          if isPlain c then map_option (Cons (PlainChar c)) (parseItems r)
          else if c = CHR ''['' then map_option (Cons (ClassChar (s ! 1))) (parseItems (drop 3 s))
          else if c = CHR ''.'' then map_option (Cons AnyStar) (parseItems (drop 2 s))
          else if c = CHR ''('' then map_option (Cons TreeTail) (parseItems (drop 6 s))
          else if c = CHR ''$'' then map_option (Cons EndOfText) (parseItems r)
          else None)"
  by pat_completeness auto
termination by (relation "measure length") auto

declare parseItems.simps [simp del]

lemma parseItems_showItems: "list_all itemOk its \<Longrightarrow> parseItems (showItems its) = Some its"
proof (induction its)
  case Nil
  then show ?case by (simp add: parseItems.simps)
next
  case (Cons i its)
  then show ?case by (cases i) (subst parseItems.simps; simp add: numeral_eq_Suc)+
qed

lemma parser_documented: "regexp_documented (\<lambda>e. parseItems (tl e)) itemsMatch"
  by (simp add: regexp_documented_def parseItems_showItems)

section \<open>Properties\<close>

text \<open>
  C33. Wherever the optimiser replaces a regular expression by a string matcher, the
  matcher gives the answer the expression would give: for every expression built from the
  constructs the optimiser looks for and every absolute pathname without a newline. The
  one exception is an expression that starts with \<^verbatim>\<open>/.*/\<close> and is turned into a
  "contains" matcher.
\<close>

theorem optimised_matchers_agree:
  assumes doc: "regexp_documented reCompile reMatch"
    and ok: "list_all itemOk its" "its \<noteq> []"
    and s: "s = CHR ''/'' # t" "CHR 0x0A \<notin> set s"
    and overlap: "compileContainsMatcher (showItems its) \<noteq> [] \<Longrightarrow>
      hd its = PlainChar (CHR ''/'') \<Longrightarrow> hd (compileContainsMatcher (showItems its)) \<noteq> CHR ''/''"
  shows "\<exists>m. compile reCompile (showItems its) = (Some m, None)
           \<and> MatchString reMatch m s = Inr (itemsMatch its s)"
proof (cases "compileContainsMatcher (showItems its) = []")
  case True
  then show ?thesis
    using compileLoop_correct [OF doc s(2), of "[]" its] ok by (simp add: compile_def)
next
  case False
  let ?m = "compileContainsMatcher (showItems its)"
  have c: "compile reCompile (showItems its) = (Some (ContainsMatcher ?m), None)"
    using False ok by (simp add: compile_def)
  from ok(1) False have "contains s ?m \<longleftrightarrow> itemsMatch its s"
  proof (cases rule: compileContainsMatcher_shape)
    case (1 mid)
    have "lits mid \<noteq> []" and "hd (lits mid) \<noteq> CHR ''/''" using overlap False 1 by auto
    then have "contains s (lits mid) \<longleftrightarrow> contains t (lits mid)"
      by (subst contains.simps) (cases "lits mid"; simp add: s(1))
    then show ?thesis using 1 s itemsMatch_contains [of mid t] by simp
  next
    case (2 mid)
    then show ?thesis using s(2) itemsMatch_contains [of "PlainChar (CHR ''/'') # mid" s] by simp
  qed
  then show ?thesis using c s by simp
qed

theorem optimised_matchers_agree_witness:
  "\<exists>m. compile (\<lambda>e. parseItems (tl e)) ''/tmp(|/.*)$'' = (Some m, None)
     \<and> MatchString itemsMatch m ''/tmp/x'' = Inr True"
proof -
  let ?its = "[PlainChar (CHR ''/''), PlainChar (CHR ''t''), PlainChar (CHR ''m''),
    PlainChar (CHR ''p''), TreeTail, EndOfText]"
  have "list_all itemOk ?its" by (simp add: isPlain_def charBetween_def)
  then show ?thesis
    using optimised_matchers_agree [OF parser_documented, of ?its "''/tmp/x''" "''tmp/x''"]
      itemsMatch_lits [of "take 4 ?its" "[TreeTail, EndOfText]" "''/tmp/x''"]
      itemsMatch_tree [of "''/x''"]
    by (simp add: compileContainsMatcher_def)
qed

text \<open>
  The exception is real: \<^verbatim>\<open>/.*/foo.*\<close> is compiled to a matcher that accepts \<^verbatim>\<open>/foo\<close>,
  which the expression, anchored at the start as documented, does not match.
\<close>

theorem contains_matcher_overlap:
  "compile reCompile ''/.*/foo.*'' = (Some (ContainsMatcher ''/foo''), None)
   \<and> MatchString reMatch (ContainsMatcher ''/foo'') ''/foo'' = Inr True
   \<and> \<not> itemsMatch [PlainChar (CHR ''/''), AnyStar, PlainChar (CHR ''/''), PlainChar (CHR ''f''),
         PlainChar (CHR ''o''), PlainChar (CHR ''o''), AnyStar] ''/foo''"
  by (simp add: compile_def compileContainsMatcher_def containsLoop.simps isPlain_def
      charBetween_def contains.simps itemsMatch.simps(4))

end
