(* ===== verification/Path_Filter.thy ===== *)
theory Path_Filter
  imports Path_Regexp
begin

text \<open>
  Filters (\<^verbatim>\<open>lib/filter\<close>): lists of regular expressions for pathnames that are excluded.
  A filter that was decoded from the wire has lines but no matchers; \<open>matchFilter\<close> compiles
  it on first use. A nil \<^verbatim>\<open>*Filter\<close>, the sparse filter, is \<open>None\<close>.
\<close>

record 're path_filter =
  FilterLines :: "string list"
  matchers :: "'re path_matcher option list"
  invertMatches :: bool

section \<open>Compiling and matching\<close>

text \<open>
  The loop of \<^verbatim>\<open>compile\<close>: the slice of matchers has one cell per line from the start, and an
  error leaves the cells behind it nil.
\<close>

fun compileLines ::
    "(string \<Rightarrow> 're option) \<Rightarrow> string list \<Rightarrow> bool
       \<Rightarrow> 're path_matcher option list \<times> bool \<times> compile_error option" where
  "compileLines rc [] invert = ([], invert, None)"
| "compileLines rc (l # ls) invert =
     (if l = ''!'' then
        (case compileLines rc ls True of (ms, invert', err) \<Rightarrow> (None # ms, invert', err))
      else
        (case compile rc l of
           (m, Some err) \<Rightarrow> (m # replicate (length ls) None, invert, Some err)
         | (m, None) \<Rightarrow>
             (case compileLines rc ls invert of (ms, invert', err) \<Rightarrow> (m # ms, invert', err))))"

definition compileFilter ::
    "(string \<Rightarrow> 're option) \<Rightarrow> 're path_filter \<Rightarrow> 're path_filter \<times> compile_error option" where
  "compileFilter rc f =
     (case compileLines rc (FilterLines f) (invertMatches f) of
        (ms, invert, err) \<Rightarrow> (f\<lparr>matchers := ms, invertMatches := invert\<rparr>, err))"

definition newFilter ::
    "(string \<Rightarrow> 're option) \<Rightarrow> string list \<Rightarrow> compile_error + 're path_filter" where
  "newFilter rc filterLines =
     (case compileFilter rc \<lparr>FilterLines = filter (\<lambda>line. line \<noteq> '''') filterLines,
                             matchers = [], invertMatches = False\<rparr> of
        (f, Some err) \<Rightarrow> Inl err
      | (f, None) \<Rightarrow> Inr f)"

text \<open>A filter whose matchers were not built, or were built for other lines, is compiled first.\<close>

definition compiled :: "(string \<Rightarrow> 're option) \<Rightarrow> 're path_filter \<Rightarrow> 're path_filter" where
  "compiled rc f =
     (if length (matchers f) \<noteq> length (FilterLines f) then fst (compileFilter rc f) else f)"

fun anyMatch ::
    "('re \<Rightarrow> string \<Rightarrow> bool) \<Rightarrow> 're path_matcher option list \<Rightarrow> string \<Rightarrow> panic + bool" where
  "anyMatch rm [] pathname = Inr False"
| "anyMatch rm (None # ms) pathname = anyMatch rm ms pathname"
| "anyMatch rm (Some m # ms) pathname =
     bindP (MatchString rm m pathname)
       (\<lambda>matched. if matched then Inr True else anyMatch rm ms pathname)"

definition matchFilter ::
    "(string \<Rightarrow> 're option) \<Rightarrow> ('re \<Rightarrow> string \<Rightarrow> bool) \<Rightarrow> 're path_filter \<Rightarrow> string
       \<Rightarrow> panic + (bool \<times> 're path_filter)" where
  "matchFilter rc rm f pathname =
     bindP (anyMatch rm (matchers (compiled rc f)) pathname)
       (\<lambda>matched.
          Inr (if matched then \<not> invertMatches (compiled rc f) else invertMatches (compiled rc f),
               compiled rc f))"

definition listUnoptimised ::
    "(string \<Rightarrow> 're option) \<Rightarrow> 're path_filter \<Rightarrow> string list \<times> 're path_filter" where
  "listUnoptimised rc f =
     (map fst (filter (\<lambda>(line, m). \<not> isOptimised m)
        (zip (FilterLines (compiled rc f)) (matchers (compiled rc f)))),
      compiled rc f)"

definition replaceStrings :: "(string \<Rightarrow> string) \<Rightarrow> 're path_filter option \<Rightarrow> 're path_filter option" where
  "replaceStrings replaceFunc f =
     map_option (\<lambda>f. f\<lparr>FilterLines := map replaceFunc (FilterLines f)\<rparr>) f"

section \<open>Comparing and merging\<close>

text \<open>\<open>same\<close> is the outcome of the pointer comparison \<^verbatim>\<open>left == right\<close> of two filters that are not nil.\<close>

fun equalFilter :: "bool \<Rightarrow> 're path_filter option \<Rightarrow> 're path_filter option \<Rightarrow> bool" where
  "equalFilter same None None = True"
| "equalFilter same (Some l) (Some r) =
     (if same then True
      else if length (FilterLines l) \<noteq> length (FilterLines r) then False
      else list_all (\<lambda>line. line \<in> set (FilterLines r)) (FilterLines l))"
| "equalFilter same _ _ = False"

text \<open>The set of lines of a \<^verbatim>\<open>MergeableFilter\<close>: \<open>None\<close> is the nil map.\<close>

type_synonym mergeable_filter = "string list option"

definition mergeFilter :: "mergeable_filter \<Rightarrow> 're path_filter option \<Rightarrow> mergeable_filter" where
  "mergeFilter mf f =
     (case f of
        None \<Rightarrow> mf
      | Some f \<Rightarrow>
          Some (foldl (\<lambda>lines line. List.insert line lines)
                  (case mf of None \<Rightarrow> [] | Some lines \<Rightarrow> lines) (FilterLines f)))"

definition exportFilter :: "mergeable_filter \<Rightarrow> 're path_filter option" where
  "exportFilter mf =
     (case mf of
        None \<Rightarrow> None
      | Some lines \<Rightarrow> Some \<lparr>FilterLines = sort lines, matchers = [], invertMatches = False\<rparr>)"

section \<open>Lemmas\<close>

lemma compileLoop_ok:
  "compileLoop rc e rest b = (m, None) \<Longrightarrow> \<exists>m'. m = Some m' \<and> m' \<noteq> RegexpMatcher None"
proof (induction rc e rest b rule: compileLoop.induct)
  case (1 rc e rest b)
  show ?case
  proof (cases rest)
    case Nil
    with 1 show ?thesis by (subst (asm) compileLoop.simps) auto
  next
    case (Cons ch cs)
    from 1(3) show ?thesis
      using 1(1) [OF Cons] 1(2) [OF Cons]
      by (subst (asm) compileLoop.simps) (simp add: Cons split: if_splits option.splits, auto)
  qed
qed

lemma compile_ok:
  "compile rc e = (m, None) \<Longrightarrow> \<exists>m'. m = Some m' \<and> m' \<noteq> RegexpMatcher None"
  by (auto simp: compile_def compileLoop_ok split: if_splits)

lemma MatchString_safe: "m \<noteq> RegexpMatcher None \<Longrightarrow> \<exists>b. MatchString rm m s = Inr b"
  by (cases "(rm, m, s)" rule: MatchString.cases) auto

definition lineMatches ::
    "(string \<Rightarrow> 're option) \<Rightarrow> ('re \<Rightarrow> string \<Rightarrow> bool) \<Rightarrow> string \<Rightarrow> string \<Rightarrow> bool" where
  "lineMatches rc rm pathname line \<longleftrightarrow>
     line \<noteq> ''!'' \<and> (\<exists>m. compile rc line = (Some m, None) \<and> MatchString rm m pathname = Inr True)"

lemma compileLines_ok:
  "compileLines rc ls invert = (ms, invert', None) \<Longrightarrow>
     length ms = length ls \<and> invert' = (invert \<or> ''!'' \<in> set ls)
     \<and> anyMatch rm ms s = Inr (\<exists>l \<in> set ls. lineMatches rc rm s l)"
proof (induction ls arbitrary: invert ms invert')
  case (Cons l ls)
  show ?case
  proof (cases "l = ''!''")
    case True
    then show ?thesis using Cons.prems Cons.IH [of True]
      by (auto simp: lineMatches_def split: prod.splits)
  next
    case False
    then obtain m ms' where m: "compile rc l = (m, None)" and ms: "ms = m # ms'"
      and rec: "compileLines rc ls invert = (ms', invert', None)"
      using Cons.prems by (auto split: prod.splits option.splits)
    obtain m' where m': "m = Some m'" "m' \<noteq> RegexpMatcher None" using compile_ok [OF m] by auto
    obtain b where b: "MatchString rm m' s = Inr b" using MatchString_safe [OF m'(2)] by auto
    have "lineMatches rc rm s l \<longleftrightarrow> b" using False m m' b by (auto simp: lineMatches_def)
    with Cons.IH [OF rec] False b show ?thesis by (auto simp: ms m')
  qed
qed simp

lemma newFilter_shape:
  assumes "newFilter rc lines = Inr f"
  shows "compileLines rc (filter (\<lambda>l. l \<noteq> '''') lines) False = (matchers f, invertMatches f, None)"
    and "FilterLines f = filter (\<lambda>l. l \<noteq> '''') lines"
  using assms by (auto simp: newFilter_def compileFilter_def split: prod.splits option.splits)

lemma set_foldl_insert: "set (foldl (\<lambda>ls l. List.insert l ls) acc xs) = set acc \<union> set xs"
  by (induction xs arbitrary: acc) auto

lemma distinct_foldl_insert: "distinct acc \<Longrightarrow> distinct (foldl (\<lambda>ls l. List.insert l ls) acc xs)"
  by (induction xs arbitrary: acc) auto

lemma foldl_mergeFilter:
  "foldl mergeFilter mf fs =
     (if mf = None \<and> list_all (\<lambda>f. f = None) fs then None
      else Some (foldl (\<lambda>ls l. List.insert l ls) (case mf of None \<Rightarrow> [] | Some ls \<Rightarrow> ls)
                   (concat (map (\<lambda>f. case f of None \<Rightarrow> [] | Some f \<Rightarrow> FilterLines f) fs))))"
  by (induction fs arbitrary: mf) (auto simp: mergeFilter_def split: option.splits)

section \<open>Properties\<close>

text \<open>
  C34. A filter that was made from lines never panics when it is matched, and a pathname
  matches it exactly if one of its expressions matches, or, when a line \<^verbatim>\<open>!\<close> inverts the
  filter, exactly if none does.
\<close>

theorem newFilter_match:
  assumes "newFilter rc lines = Inr f"
  shows "matchFilter rc rm f pathname =
    Inr ((''!'' \<in> set lines) \<noteq> (\<exists>line \<in> set lines. line \<noteq> '''' \<and> lineMatches rc rm pathname line), f)"
proof -
  note c = compileLines_ok [OF newFilter_shape(1) [OF assms], of rm pathname]
  have "compiled rc f = f" using c newFilter_shape(2) [OF assms] by (simp add: compiled_def)
  then show ?thesis using c by (auto simp: matchFilter_def)
qed

theorem newFilter_match_witness:
  "\<exists>f. newFilter (\<lambda>_. None :: unit option) [''!'', '''', ''/bin''] = Inr f
     \<and> matchFilter (\<lambda>_. None) (\<lambda>_ _. False) f ''/bin/ls'' = Inr (False, f)"
proof -
  have c: "compile (\<lambda>_. None :: unit option) ''/bin'' = (Some (PrefixMatcher ''/bin''), None)"
    by (simp add: compile_def compileContainsMatcher_def compileLoop.simps isPlain_def charBetween_def)
  then obtain f where f: "newFilter (\<lambda>_. None :: unit option) [''!'', '''', ''/bin''] = Inr f"
    by (simp add: newFilter_def compileFilter_def)
  show ?thesis using newFilter_match [OF f, of "\<lambda>_ _. False" "''/bin/ls''"] f
    by (simp add: lineMatches_def c)
qed

text \<open>
  A filter that was decoded is compiled by its first match, which ignores the error of
  a bad expression: the cell of a bad expression then holds a nil \<^verbatim>\<open>*regexp.Regexp\<close>, and the
  match panics.
\<close>

theorem decoded_bad_filter_panics:
  assumes "rc ''^('' = None"
  shows "newFilter rc [''('' ] = Inl RegexpError
       \<and> matchFilter rc rm \<lparr>FilterLines = [''(''], matchers = [], invertMatches = False\<rparr> pathname
           = Inl NilDereference"
proof -
  have "compile rc ''('' = (Some (RegexpMatcher None), Some RegexpError)"
    using assms by (simp add: compile_def compileContainsMatcher_def compileLoop.simps)
  then show ?thesis
    by (simp add: newFilter_def matchFilter_def compiled_def compileFilter_def)
qed

theorem decoded_bad_filter_panics_witness:
  "matchFilter (\<lambda>_. None) (\<lambda>(_ :: unit) _. False)
     \<lparr>FilterLines = [''(''], matchers = [], invertMatches = False\<rparr> ''/etc'' = Inl NilDereference"
  using decoded_bad_filter_panics [of "\<lambda>_. None :: unit option" "\<lambda>_ _. False" "''/etc''"] by simp

text \<open>
  Two filters without repeated lines are equal exactly if they have the same lines, in
  any order. With repeated lines the comparison is not symmetric.
\<close>

theorem equalFilter_same_lines:
  "(distinct (FilterLines l) \<and> distinct (FilterLines r) \<longrightarrow>
      equalFilter False (Some l) (Some r) = (set (FilterLines l) = set (FilterLines r)))
   \<and> equalFilter False (Some (l\<lparr>FilterLines := [a, a]\<rparr>)) (Some (r\<lparr>FilterLines := [a, b]\<rparr>))
   \<and> equalFilter False (Some (l\<lparr>FilterLines := [a, b]\<rparr>)) (Some (r\<lparr>FilterLines := [a, a]\<rparr>)) = (a = b)"
  using card_subset_eq [of "set (FilterLines r)" "set (FilterLines l)"]
    distinct_card [of "FilterLines l"] distinct_card [of "FilterLines r"]
  by (auto simp: list_all_iff subset_iff)

theorem equalFilter_same_lines_witness:
  "equalFilter False
     (Some \<lparr>FilterLines = [''/a'', ''/b''], matchers = [], invertMatches = False\<rparr>)
     (Some \<lparr>FilterLines = [''/b'', ''/a''], matchers = [], invertMatches = False\<rparr>)"
  using equalFilter_same_lines [of
      "\<lparr>FilterLines = [''/a'', ''/b''], matchers = [], invertMatches = False\<rparr>"
      "\<lparr>FilterLines = [''/b'', ''/a''], matchers = [], invertMatches = False\<rparr>"]
  by auto

text \<open>
  C39. Merging filters and exporting the result gives the sorted lines of all of them
  without repetition, whatever the order of merging; the result is the sparse filter
  exactly if every merged filter was.
\<close>

theorem merged_filter:
  "(exportFilter (foldl mergeFilter None fs) = (None :: 're path_filter option)
      \<longleftrightarrow> list_all (\<lambda>f. f = None) fs)
   \<and> (case exportFilter (foldl mergeFilter None fs) of None \<Rightarrow> True
      | Some f \<Rightarrow> FilterLines f =
          sorted_list_of_set (\<Union>g \<in> set fs. case g of None \<Rightarrow> {} | Some g \<Rightarrow> set (FilterLines g)))"
proof -
  let ?ls = "concat (map (\<lambda>f. case f of None \<Rightarrow> [] | Some f \<Rightarrow> FilterLines f) fs)"
  let ?u = "\<Union>g \<in> set fs. case g of None \<Rightarrow> {} | Some g \<Rightarrow> set (FilterLines g)"
  let ?acc = "foldl (\<lambda>ls l. List.insert l ls) [] ?ls"
  have "set ?ls = ?u" by (auto split: option.splits)
  then have "set ?acc = ?u" by (simp only: set_foldl_insert) simp
  moreover have "distinct ?acc" by (rule distinct_foldl_insert) simp
  ultimately have "sort ?acc = sorted_list_of_set ?u"
    using sorted_list_of_set_sort_remdups [of ?acc] by (simp add: distinct_remdups_id)
  then show ?thesis by (simp add: foldl_mergeFilter exportFilter_def)
qed

end
