(* ===== verification/Version_Strings.thy ===== *)
theory Version_Strings
  imports Dom_Prelude "HOL-Library.Product_Lexorder"
begin

text \<open>
  The ordering of version strings (\<^verbatim>\<open>lib/verstr\<close>): runs of digits compare as numbers,
  everything else byte by byte. Numbers are accumulated in an \<^verbatim>\<open>int64\<close>, a 64-bit word whose
  sign is read with \<open>sint\<close>. A string index is the suffix that starts there.
\<close>

definition isDigit :: "char \<Rightarrow> bool" where
  "isDigit c \<longleftrightarrow> 48 \<le> (of_char c :: nat) \<and> (of_char c :: nat) \<le> 57"

fun numLoop :: "64 word \<Rightarrow> string \<Rightarrow> 64 word \<times> string" where
  "numLoop v [] = (v, [])"
| "numLoop v (c # s) =
     (if isDigit c then numLoop (v * 10 + of_nat (of_char c) - 48) s else (v, c # s))"

definition compareNumstr :: "string \<Rightarrow> string \<Rightarrow> 64 word \<times> string \<times> string" where
  "compareNumstr left right =
     (case numLoop 0 left of (leftVal, left') \<Rightarrow>
      case numLoop 0 right of (rightVal, right') \<Rightarrow> (leftVal - rightVal, left', right'))"

lemma numLoop_dropWhile: "snd (numLoop v s) = dropWhile isDigit s"
  by (induction v s rule: numLoop.induct) auto

function verstrLess :: "string \<Rightarrow> string \<Rightarrow> bool" where
  "verstrLess left [] = False"
| "verstrLess [] (r # right) = True"
| "verstrLess (l # left) (r # right) =
     (if isDigit l \<and> isDigit r then
        (case compareNumstr (l # left) (r # right) of (diff, left', right') \<Rightarrow>
           if sint diff < 0 then True
           else if sint diff > 0 then False
           else verstrLess left' right')
      else if (of_char l :: nat) < of_char r then True
      else if (of_char l :: nat) > of_char r then False
      else verstrLess left right)"
  by pat_completeness auto
termination
proof (relation "measure (\<lambda>(left, right). length left)", goal_cases)
  case (2 l left r right x y left' right')
  then have "left' = dropWhile isDigit (l # left)"
    using numLoop_dropWhile [of 0 "l # left"]
    by (auto simp: compareNumstr_def split: prod.splits)
  then show ?case using 2 by (auto simp: le_imp_less_Suc length_dropWhile_le)
qed auto

section \<open>The ordering as a lexicographic one\<close>

text \<open>
  The specification: a string is read as a list of keys, a run of digits as \<open>(48, n)\<close> with
  its value \<open>n\<close>, any other byte \<open>c\<close> as \<open>(c, 0)\<close>. No other byte lies between the digits,
  so 48 places a number where every digit would stand.
\<close>

definition value_of :: "nat \<Rightarrow> string \<Rightarrow> nat" where
  "value_of a ds = foldl (\<lambda>a c. a * 10 + (of_char c - 48)) a ds"

function keys_of :: "string \<Rightarrow> (nat \<times> nat) list" where
  "keys_of [] = []"
| "keys_of (c # s) =
     (if isDigit c
      then (48, value_of 0 (takeWhile isDigit (c # s))) # keys_of (dropWhile isDigit (c # s))
      else (of_char c, 0) # keys_of s)"
  by pat_completeness auto
termination
  by (relation "measure length") (auto simp: le_imp_less_Suc length_dropWhile_le)

declare keys_of.simps(2) [simp del]

definition fitsInt64 :: "string \<Rightarrow> bool" where
  "fitsInt64 s \<longleftrightarrow> list_all (\<lambda>k. snd k < 2 ^ 63) (keys_of s)"

lemma numLoop_value:
  "numLoop (of_nat a) s = (of_nat (value_of a (takeWhile isDigit s)), dropWhile isDigit s)"
proof (induction s arbitrary: a)
  case (Cons c s)
  have "(of_nat a * 10 + of_nat (of_char c) - 48 :: 64 word) = of_nat (a * 10 + (of_char c - 48))" if "isDigit c"
    using that by (simp add: isDigit_def)
  then show ?case using Cons.IH [of "a * 10 + (of_char c - 48)"]
    by (cases "isDigit c") (simp_all add: value_of_def del: of_nat_add of_nat_mult)
qed (simp add: value_of_def)

lemma sint_diff:
  assumes "m < 2 ^ 63" "n < 2 ^ 63"
  shows "sint (of_nat m - of_nat n :: 64 word) = int m - int n"
proof -
  have "(of_nat m - of_nat n :: 64 word) = word_of_int (int m - int n)" by simp
  moreover have "- (2 ^ 63) \<le> int m - int n" "int m - int n < 2 ^ 63" using assms by auto
  ultimately show ?thesis by (simp only: sint_sbintrunc') (simp add: signed_take_bit_int_eq_self)
qed

lemma verstrLess_keys:
  "fitsInt64 left \<Longrightarrow> fitsInt64 right \<Longrightarrow> verstrLess left right \<longleftrightarrow> keys_of left < keys_of right"
proof (induction left right rule: verstrLess.induct)
  case (1 left)
  then show ?case by simp
next
  case (2 r right)
  then show ?case by (simp add: keys_of.simps(2))
next
  case (3 l left r right)
  show ?case
  proof (cases "isDigit l \<and> isDigit r")
    case True
    let ?m = "value_of 0 (takeWhile isDigit (l # left))" and ?n = "value_of 0 (takeWhile isDigit (r # right))"
    have c: "compareNumstr (l # left) (r # right) =
        (of_nat ?m - of_nat ?n, dropWhile isDigit (l # left), dropWhile isDigit (r # right))"
      unfolding compareNumstr_def using numLoop_value [of 0 "l # left"] numLoop_value [of 0 "r # right"]
      by simp
    have k: "keys_of (l # left) = (48, ?m) # keys_of (dropWhile isDigit (l # left))"
      "keys_of (r # right) = (48, ?n) # keys_of (dropWhile isDigit (r # right))"
      using True by (simp_all add: keys_of.simps(2))
    have fit: "?m < 2 ^ 63" "?n < 2 ^ 63"
      "fitsInt64 (dropWhile isDigit (l # left))" "fitsInt64 (dropWhile isDigit (r # right))"
      using 3(3,4) unfolding fitsInt64_def k by simp_all
    note s = sint_diff [OF fit(1,2)]
    note IH = 3(1) [OF True c [symmetric] refl]
    show ?thesis
    proof (cases "?m = ?n")
      case True
      show ?thesis using IH s True fit(3,4) \<open>isDigit l \<and> isDigit r\<close>
        by (subst verstrLess.simps(3), subst c, subst k, subst k(2)) simp
    next
      case False
      show ?thesis using s False \<open>isDigit l \<and> isDigit r\<close>
        by (subst verstrLess.simps(3), subst c, subst k, subst k(2)) auto
    qed
  next
    case False
    show ?thesis
      using 3(2) [OF False] 3(3,4) False
      by (cases "isDigit l"; cases "isDigit r")
         (auto simp: keys_of.simps(2) isDigit_def fitsInt64_def)
  qed
qed

section \<open>Sorting\<close>

text \<open>
  \<^verbatim>\<open>sort.SliceStable\<close> of the Go library, as its insertion sort: every element moves left
  past the elements it is less than. The sorted prefix is kept in reverse.
\<close>

fun moveLeft :: "('a \<Rightarrow> 'a \<Rightarrow> bool) \<Rightarrow> 'a \<Rightarrow> 'a list \<Rightarrow> 'a list" where
  "moveLeft lt x [] = [x]"
| "moveLeft lt x (y # ys) = (if lt x y then y # moveLeft lt x ys else x # y # ys)"

definition sliceStable :: "('a \<Rightarrow> 'a \<Rightarrow> bool) \<Rightarrow> 'a list \<Rightarrow> 'a list" where
  "sliceStable lt xs = rev (foldl (\<lambda>ys x. moveLeft lt x ys) [] xs)"

lemma mset_moveLeft [simp]: "mset (moveLeft lt x ys) = add_mset x (mset ys)"
  by (induction lt x ys rule: moveLeft.induct) auto

lemma mset_foldl_moveLeft: "mset (foldl (\<lambda>ys x. moveLeft lt x ys) ys xs) = mset ys + mset xs"
  by (induction xs arbitrary: ys) auto

lemma set_moveLeft [simp]: "set (moveLeft lt x ys) = insert x (set ys)"
  by (metis mset_moveLeft set_mset_add_mset_insert set_mset_mset)

lemma filter_moveLeft:
  fixes f :: "'a \<Rightarrow> 'k :: linorder"
  assumes "\<And>y. y \<in> set ys \<Longrightarrow> lt x y \<longleftrightarrow> f x < f y"
  shows "filter (\<lambda>y. f y = k) (moveLeft lt x ys) =
     (if f x = k then x # filter (\<lambda>y. f y = k) ys else filter (\<lambda>y. f y = k) ys)
   \<or> \<not> sorted_wrt (\<lambda>a b. f b \<le> f a) ys"
  using assms
proof (induction ys)
  case (Cons y ys)
  then show ?case by (cases "f x < f y") (auto simp: filter_empty_conv)
qed simp

lemma sorted_moveLeft:
  fixes f :: "'a \<Rightarrow> 'k :: linorder"
  assumes "\<And>y. y \<in> set ys \<Longrightarrow> lt x y \<longleftrightarrow> f x < f y" and "sorted_wrt (\<lambda>a b. f b \<le> f a) ys"
  shows "sorted_wrt (\<lambda>a b. f b \<le> f a) (moveLeft lt x ys)"
  using assms by (induction ys) (auto simp: not_less intro: order_trans)

lemma foldl_moveLeft:
  fixes f :: "'a \<Rightarrow> 'k :: linorder"
  assumes "\<And>x y. x \<in> set xs \<union> set ys \<Longrightarrow> y \<in> set xs \<union> set ys \<Longrightarrow> lt x y \<longleftrightarrow> f x < f y"
    and "sorted_wrt (\<lambda>a b. f b \<le> f a) ys"
  shows "sorted_wrt (\<lambda>a b. f b \<le> f a) (foldl (\<lambda>ys x. moveLeft lt x ys) ys xs)
     \<and> filter (\<lambda>y. f y = k) (foldl (\<lambda>ys x. moveLeft lt x ys) ys xs) =
         rev (filter (\<lambda>y. f y = k) xs) @ filter (\<lambda>y. f y = k) ys"
  using assms
proof (induction xs arbitrary: ys)
  case (Cons x xs)
  have l: "\<And>y. y \<in> set ys \<Longrightarrow> lt x y \<longleftrightarrow> f x < f y" using Cons.prems(1) by auto
  have "lt u v \<longleftrightarrow> f u < f v" if "u \<in> set xs \<union> set (moveLeft lt x ys)"
    "v \<in> set xs \<union> set (moveLeft lt x ys)" for u v
    using that Cons.prems(1) by auto
  from Cons.IH [OF this sorted_moveLeft [of ys lt x f, OF l Cons.prems(2)]] show ?case
    using filter_moveLeft [of ys lt x f k, OF l] Cons.prems(2) by auto
qed simp

text \<open>If \<open>lt\<close> compares a key, the result is the stable sort by that key.\<close>

lemma sliceStable_sort_key:
  fixes f :: "'a \<Rightarrow> 'k :: linorder"
  assumes "\<And>x y. x \<in> set xs \<Longrightarrow> y \<in> set xs \<Longrightarrow> lt x y \<longleftrightarrow> f x < f y"
  shows "sliceStable lt xs = sort_key f xs"
proof (rule sym, rule properties_for_sort_key)
  let ?ys = "foldl (\<lambda>ys x. moveLeft lt x ys) [] xs"
  have f: "sorted_wrt (\<lambda>a b. f b \<le> f a) ?ys"
    "filter (\<lambda>y. f y = k) ?ys = rev (filter (\<lambda>y. f y = k) xs)" for k
    using foldl_moveLeft [of xs "[]" lt f] assms by auto
  show "mset (sliceStable lt xs) = mset xs"
    by (simp add: sliceStable_def mset_foldl_moveLeft)
  show "sorted (map f (sliceStable lt xs))"
    using f(1) by (simp add: sliceStable_def rev_map sorted_wrt_rev sorted_wrt_map)
  show "filter (\<lambda>x. f k = f x) (sliceStable lt xs) = filter (\<lambda>x. f k = f x) xs" for k
    using arg_cong [OF f(2) [of "f k"], of rev]
    by (simp add: sliceStable_def eq_commute [of "f k"] rev_filter)
qed

lemma mset_sliceStable [simp]: "mset (sliceStable lt xs) = mset xs"
  by (simp add: sliceStable_def mset_foldl_moveLeft)

lemma set_sliceStable [simp]: "set (sliceStable lt xs) = set xs"
  by (metis mset_sliceStable set_mset_mset)

text \<open>An element is never compared with itself.\<close>

lemma moveLeft_irrefl: "x \<notin> set ys \<Longrightarrow> moveLeft lt x ys = moveLeft (\<lambda>x y. x \<noteq> y \<and> lt x y) x ys"
  by (induction ys) auto

lemma foldl_moveLeft_irrefl:
  "distinct (ys @ xs) \<Longrightarrow>
     foldl (\<lambda>ys x. moveLeft lt x ys) ys xs = foldl (\<lambda>ys x. moveLeft (\<lambda>x y. x \<noteq> y \<and> lt x y) x ys) ys xs"
proof (induction xs arbitrary: ys)
  case (Cons x xs)
  have m: "mset (moveLeft lt x ys @ xs) = mset (ys @ x # xs)" by simp
  have "distinct (moveLeft lt x ys @ xs)"
    using Cons.prems mset_eq_imp_distinct_iff [OF m] by blast
  from Cons.IH [OF this] show ?case using Cons.prems moveLeft_irrefl [of x ys lt] by simp
qed simp

lemma sliceStable_distinct:
  fixes f :: "'a \<Rightarrow> 'k :: linorder"
  assumes "distinct xs"
    and "\<And>x y. x \<in> set xs \<Longrightarrow> y \<in> set xs \<Longrightarrow> x \<noteq> y \<Longrightarrow> lt x y \<longleftrightarrow> f x < f y"
  shows "sliceStable lt xs = sort_key f xs"
proof -
  have "sliceStable lt xs = sliceStable (\<lambda>x y. x \<noteq> y \<and> lt x y) xs"
    unfolding sliceStable_def using foldl_moveLeft_irrefl [of "[]" xs lt] assms(1) by simp
  also have "\<dots> = sort_key f xs" by (rule sliceStable_sort_key) (use assms(2) in auto)
  finally show ?thesis .
qed

section \<open>Properties\<close>

text \<open>
  On strings whose numbers fit into an \<^verbatim>\<open>int64\<close>, the ordering of version strings is the
  lexicographic ordering of their keys (so it is a strict weak ordering, as sorting
  needs), and sorting by it is the stable sort by these keys.
\<close>

theorem verstr_ordering:
  assumes "\<forall>s \<in> set xs. fitsInt64 s"
  shows "sliceStable verstrLess xs = sort_key keys_of xs
    \<and> (\<forall>a \<in> set xs. \<forall>b \<in> set xs. verstrLess a b \<longleftrightarrow> keys_of a < keys_of b)"
  using assms by (auto intro: sliceStable_sort_key simp: verstrLess_keys)

theorem verstr_ordering_witness:
  "verstrLess ''v9'' ''v10'' \<and> sliceStable verstrLess [''v10'', ''v9''] = sort_key keys_of [''v10'', ''v9'']"
proof -
  have k: "keys_of ''v9'' = [(118, 0), (48, 9)]" "keys_of ''v10'' = [(118, 0), (48, 10)]"
    by (simp_all add: keys_of.simps(2) isDigit_def value_of_def)
  have "\<forall>s \<in> set [''v10'', ''v9'']. fitsInt64 s" by (simp add: fitsInt64_def k)
  from verstr_ordering [OF this] have "verstrLess ''v9'' ''v10'' \<longleftrightarrow> keys_of ''v9'' < keys_of ''v10''"
    and "sliceStable verstrLess [''v10'', ''v9''] = sort_key keys_of [''v10'', ''v9'']"
    by (metis list.set_intros)+
  then show ?thesis by (simp only: k) simp
qed

text \<open>
  Beyond \<^verbatim>\<open>int64\<close> the ordering breaks: the difference wraps, and two such strings are
  each less than the other.
\<close>

theorem verstr_overflow:
  "verstrLess ''9223372036854775808'' ''0'' \<and> verstrLess ''0'' ''9223372036854775808''"
  by (simp add: compareNumstr_def isDigit_def)

end
