(* ===== verification/Trigger_Sets.thy ===== *)
theory Trigger_Sets
  imports Path_Filter Version_Strings
begin

text \<open>
  Triggers (\<^verbatim>\<open>lib/triggers\<close>): services to start or reload when a matching pathname changes.

  The Go code keys its match state by \<^verbatim>\<open>*Trigger\<close> pointers; the model uses the index of the
  trigger in the list. The two maps are ranged over, so they are lists; \<open>None\<close> is a nil
  map. The compiled expressions belong to the trigger object.
\<close>

record 're trigger =
  MatchLines :: "string list"
  matchRegexes :: "'re path_matcher option list"
  Service :: string
  SortName :: string
  DoReboot :: bool
  DoReload :: bool
  HighImpact :: bool

record 're triggers =
  Triggers :: "'re trigger list"
  trig_compiled :: bool
  matchedTriggers :: "nat list option"
  unmatchedTriggers :: "nat list option"

section \<open>Compiling and matching\<close>

fun compileMatchLines ::
    "(string \<Rightarrow> 're option) \<Rightarrow> string list \<Rightarrow> 're path_matcher option list \<times> compile_error option" where
  "compileMatchLines rc [] = ([], None)"
| "compileMatchLines rc (l # ls) =
     (case compile rc l of
        (m, Some err) \<Rightarrow> (m # replicate (length ls) None, Some err)
      | (m, None) \<Rightarrow> (case compileMatchLines rc ls of (ms, err) \<Rightarrow> (m # ms, err)))"

fun compileTriggerList ::
    "(string \<Rightarrow> 're option) \<Rightarrow> 're trigger list \<Rightarrow> 're trigger list \<times> compile_error option" where
  "compileTriggerList rc [] = ([], None)"
| "compileTriggerList rc (t # ts) =
     (case compileMatchLines rc (MatchLines t) of
        (ms, Some err) \<Rightarrow> (t\<lparr>matchRegexes := ms\<rparr> # ts, Some err)
      | (ms, None) \<Rightarrow>
          (case compileTriggerList rc ts of (ts', err) \<Rightarrow> (t\<lparr>matchRegexes := ms\<rparr> # ts', err)))"

definition compileTriggers ::
    "(string \<Rightarrow> 're option) \<Rightarrow> 're triggers \<Rightarrow> 're triggers \<times> compile_error option" where
  "compileTriggers rc trs =
     (if trig_compiled trs then (trs, None)
      else case compileTriggerList rc (Triggers trs) of
        (ts, Some err) \<Rightarrow> (trs\<lparr>Triggers := ts\<rparr>, Some err)
      | (ts, None) \<Rightarrow> (trs\<lparr>Triggers := ts, trig_compiled := True\<rparr>, None))"

text \<open>Unlike a filter, a trigger calls every cell: a nil one is a nil dereference.\<close>

fun regexesMatch ::
    "('re \<Rightarrow> string \<Rightarrow> bool) \<Rightarrow> 're path_matcher option list \<Rightarrow> string \<Rightarrow> panic + bool" where
  "regexesMatch rm [] line = Inr False"
| "regexesMatch rm (None # ms) line = Inl NilDereference"
| "regexesMatch rm (Some m # ms) line =
     bindP (MatchString rm m line)
       (\<lambda>matched. if matched then Inr True else regexesMatch rm ms line)"

text \<open>The loop over the unmatched triggers; the result is \<open>(matched, still unmatched)\<close>.\<close>

fun matchLoop ::
    "('re \<Rightarrow> string \<Rightarrow> bool) \<Rightarrow> 're trigger list \<Rightarrow> string \<Rightarrow> nat list \<Rightarrow> nat list
       \<Rightarrow> panic + (nat list \<times> nat list)" where
  "matchLoop rm ts line [] matched = Inr (matched, [])"
| "matchLoop rm ts line (i # js) matched =
     bindP (regexesMatch rm (matchRegexes (ts ! i)) line)
       (\<lambda>b. if b then matchLoop rm ts line js (matched @ [i])
             else bindP (matchLoop rm ts line js matched) (\<lambda>(mt, um). Inr (mt, i # um)))"

definition initMatch :: "'re triggers \<Rightarrow> 're triggers" where
  "initMatch trs =
     (if matchedTriggers trs = None
      then trs\<lparr>matchedTriggers := Some [], unmatchedTriggers := Some [0..<length (Triggers trs)]\<rparr>
      else trs)"

definition matchTriggers ::
    "(string \<Rightarrow> 're option) \<Rightarrow> ('re \<Rightarrow> string \<Rightarrow> bool) \<Rightarrow> string \<Rightarrow> 're triggers \<Rightarrow> panic + 're triggers" where
  "matchTriggers rc rm line trs =
     (let trs = initMatch (fst (compileTriggers rc trs))
      in bindP (matchLoop rm (Triggers trs) line (the (unmatchedTriggers trs)) (the (matchedTriggers trs)))
           (\<lambda>(mt, um). Inr (trs\<lparr>matchedTriggers := Some mt, unmatchedTriggers := Some um\<rparr>)))"

definition getMatchedTriggers :: "'re triggers \<Rightarrow> 're trigger list \<times> 're triggers" where
  "getMatchedTriggers trs =
     (sliceStable (\<lambda>l r. verstrLess (SortName l) (SortName r))
        (map ((!) (Triggers trs)) (case matchedTriggers trs of None \<Rightarrow> [] | Some mt \<Rightarrow> mt)),
      trs\<lparr>matchedTriggers := None, unmatchedTriggers := None\<rparr>)"

definition getMatchStatistics :: "'re triggers \<Rightarrow> nat \<times> nat" where
  "getMatchStatistics trs =
     (length (case matchedTriggers trs of None \<Rightarrow> [] | Some mt \<Rightarrow> mt),
      if matchedTriggers trs = None then length (Triggers trs)
      else length (case unmatchedTriggers trs of None \<Rightarrow> [] | Some um \<Rightarrow> um))"

section \<open>Merging\<close>

record mergeable_trigger =
  mt_matchLines :: "string list"
  mt_doReboot :: bool
  mt_highImpact :: bool

type_synonym mergeable_triggers = "((bool \<times> string) \<times> mergeable_trigger) list"

definition mergeTrigger :: "mergeable_triggers \<Rightarrow> 're trigger \<Rightarrow> mergeable_triggers" where
  "mergeTrigger mt trigger =
     (let key = (DoReload trigger, Service trigger);
          trig = (case map_of mt key of
                    None \<Rightarrow> \<lparr>mt_matchLines = [], mt_doReboot = False, mt_highImpact = False\<rparr>
                  | Some trig \<Rightarrow> trig)
      in putTable key
           (trig\<lparr>mt_matchLines := foldl (\<lambda>ls l. List.insert l ls) (mt_matchLines trig) (MatchLines trigger),
                 mt_doReboot := (if DoReboot trigger then True else mt_doReboot trig),
                 mt_highImpact := (if HighImpact trigger then True else mt_highImpact trig)\<rparr>)
           mt)"

definition mergeTriggers :: "mergeable_triggers \<Rightarrow> 're triggers option \<Rightarrow> mergeable_triggers" where
  "mergeTriggers mt trs =
     (case trs of
        None \<Rightarrow> mt
      | Some trs \<Rightarrow> if length (Triggers trs) < 1 then mt else foldl mergeTrigger mt (Triggers trs))"

definition exportTrigger :: "(bool \<times> string) \<times> mergeable_trigger \<Rightarrow> 're trigger" where
  "exportTrigger e =
     \<lparr>MatchLines = sort (mt_matchLines (snd e)), matchRegexes = [], Service = snd (fst e),
      SortName = '''', DoReboot = mt_doReboot (snd e), DoReload = fst (fst e),
      HighImpact = mt_highImpact (snd e)\<rparr>"

definition triggerLess :: "'re trigger \<Rightarrow> 're trigger \<Rightarrow> bool" where
  "triggerLess left right \<longleftrightarrow>
     (if Service left = Service right then DoReload left else Service left < Service right)"

text \<open>
  \<^verbatim>\<open>sort.Sort\<close> promises no stability, but no two exported triggers have the same service
  and reload flag, so the sorted list is unique and the stable sort finds it.
\<close>

definition exportTriggers :: "mergeable_triggers \<Rightarrow> 're triggers option" where
  "exportTriggers mt =
     (if length mt < 1 then None
      else Some \<lparr>Triggers = sliceStable triggerLess (map exportTrigger mt), trig_compiled = False,
                 matchedTriggers = None, unmatchedTriggers = None\<rparr>)"

section \<open>Lemmas on matching\<close>

definition exprMatches :: "(string \<Rightarrow> 're option) \<Rightarrow> ('re \<Rightarrow> string \<Rightarrow> bool) \<Rightarrow> string \<Rightarrow> string \<Rightarrow> bool" where
  "exprMatches rc rm line expr \<longleftrightarrow>
     (\<exists>m. compile rc expr = (Some m, None) \<and> MatchString rm m line = Inr True)"

definition triggered :: "(string \<Rightarrow> 're option) \<Rightarrow> ('re \<Rightarrow> string \<Rightarrow> bool) \<Rightarrow> string list \<Rightarrow> 're trigger \<Rightarrow> bool" where
  "triggered rc rm lines t \<longleftrightarrow> (\<exists>line \<in> set lines. \<exists>expr \<in> set (MatchLines t). exprMatches rc rm line expr)"

definition wellCompiled :: "(string \<Rightarrow> 're option) \<Rightarrow> 're trigger \<Rightarrow> bool" where
  "wellCompiled rc t \<longleftrightarrow> compileMatchLines rc (MatchLines t) = (matchRegexes t, None)"

lemma compileMatchLines_ok:
  "compileMatchLines rc ls = (ms, None) \<Longrightarrow>
     regexesMatch rm ms s = Inr (\<exists>l \<in> set ls. exprMatches rc rm s l)"
proof (induction ls arbitrary: ms)
  case (Cons l ls)
  then obtain m ms' where m: "compile rc l = (m, None)" and ms: "ms = m # ms'"
    and rec: "compileMatchLines rc ls = (ms', None)"
    by (auto split: prod.splits option.splits)
  obtain m' where m': "m = Some m'" "m' \<noteq> RegexpMatcher None" using compile_ok [OF m] by auto
  obtain b where b: "MatchString rm m' s = Inr b" using MatchString_safe [OF m'(2)] by auto
  have "exprMatches rc rm s l \<longleftrightarrow> b" using m m' b by (auto simp: exprMatches_def)
  with Cons.IH [OF rec] b show ?case by (auto simp: ms m')
qed simp

definition recompiled :: "(string \<Rightarrow> 're option) \<Rightarrow> 're trigger \<Rightarrow> 're trigger" where
  "recompiled rc t = t\<lparr>matchRegexes := fst (compileMatchLines rc (MatchLines t))\<rparr>"

lemma compileTriggerList_ok:
  "compileTriggerList rc ts = (ts', None) \<Longrightarrow>
     ts' = map (recompiled rc) ts \<and> list_all (wellCompiled rc) ts'"
proof (induction ts arbitrary: ts')
  case (Cons t ts)
  then show ?case
    by (auto simp: recompiled_def wellCompiled_def split: prod.splits option.splits)
qed simp

lemma matchLoop_ok:
  assumes "list_all (wellCompiled rc) ts"
  shows "\<forall>i \<in> set um. i < length ts \<Longrightarrow>
     matchLoop rm ts line um mt =
       Inr (mt @ filter (\<lambda>i. triggered rc rm [line] (ts ! i)) um,
            filter (\<lambda>i. \<not> triggered rc rm [line] (ts ! i)) um)"
proof (induction um arbitrary: mt)
  case (Cons i um)
  have "wellCompiled rc (ts ! i)" using assms Cons.prems by (simp add: list_all_length)
  then have "regexesMatch rm (matchRegexes (ts ! i)) line = Inr (triggered rc rm [line] (ts ! i))"
    unfolding wellCompiled_def triggered_def using compileMatchLines_ok by fastforce
  with Cons show ?case by simp
qed simp

lemma matchTriggers_ok:
  assumes "trig_compiled trs" "list_all (wellCompiled rc) (Triggers trs)"
    and "matchedTriggers trs = Some mt" "unmatchedTriggers trs = Some um"
    and "\<forall>i \<in> set um. i < length (Triggers trs)"
  shows "matchTriggers rc rm line trs =
    Inr (trs\<lparr>matchedTriggers := Some (mt @ filter (\<lambda>i. triggered rc rm [line] (Triggers trs ! i)) um),
              unmatchedTriggers := Some (filter (\<lambda>i. \<not> triggered rc rm [line] (Triggers trs ! i)) um)\<rparr>)"
  using assms matchLoop_ok [OF assms(2,5)]
  by (simp add: matchTriggers_def compileTriggers_def initMatch_def)

lemma foldE_matchTriggers:
  assumes "trig_compiled trs" "list_all (wellCompiled rc) (Triggers trs)"
    and "matchedTriggers trs = Some mt" "unmatchedTriggers trs = Some um"
    and "\<forall>i \<in> set um. i < length (Triggers trs)"
  shows "\<exists>mt'. foldE (matchTriggers rc rm) lines trs =
      Inr (trs\<lparr>matchedTriggers := Some mt',
               unmatchedTriggers := Some (filter (\<lambda>i. \<not> triggered rc rm lines (Triggers trs ! i)) um)\<rparr>)
    \<and> mset mt' = mset mt + mset (filter (\<lambda>i. triggered rc rm lines (Triggers trs ! i)) um)"
  using assms
proof (induction lines arbitrary: trs mt um)
  case Nil
  then show ?case by (intro exI [of _ mt]) (simp add: triggered_def)
next
  case (Cons line lines)
  let ?hit = "\<lambda>i. triggered rc rm [line] (Triggers trs ! i)"
  let ?trs = "trs\<lparr>matchedTriggers := Some (mt @ filter ?hit um),
                  unmatchedTriggers := Some (filter (\<lambda>i. \<not> ?hit i) um)\<rparr>"
  have split: "triggered rc rm (line # lines) t \<longleftrightarrow> triggered rc rm [line] t \<or> triggered rc rm lines t" for t
    by (auto simp: triggered_def)
  have "mset (filter ?hit um) + mset (filter (\<lambda>i. \<not> ?hit i \<and> triggered rc rm lines (Triggers trs ! i)) um)
      = mset (filter (\<lambda>i. triggered rc rm (line # lines) (Triggers trs ! i)) um)"
    by (induction um) (auto simp: split)
  moreover have "foldE (matchTriggers rc rm) (line # lines) trs = foldE (matchTriggers rc rm) lines ?trs"
    using matchTriggers_ok [OF Cons.prems] by simp
  ultimately show ?case
    using Cons.IH [of ?trs "mt @ filter ?hit um" "filter (\<lambda>i. \<not> ?hit i) um"] Cons.prems
    by (auto simp: split add.assoc filter_filter conj_commute)
qed

definition freshTriggers :: "'re trigger list \<Rightarrow> 're triggers" where
  "freshTriggers ts =
     \<lparr>Triggers = ts, trig_compiled = False, matchedTriggers = None, unmatchedTriggers = None\<rparr>"

lemma foldE_fresh:
  assumes "compileTriggerList rc ts = (ts', None)" and "lines \<noteq> []"
  shows "foldE (matchTriggers rc rm) lines (freshTriggers ts) =
    foldE (matchTriggers rc rm) lines
      \<lparr>Triggers = ts', trig_compiled = True, matchedTriggers = Some [],
       unmatchedTriggers = Some [0..<length ts']\<rparr>"
  using assms
  by (cases lines) (simp_all add: matchTriggers_def compileTriggers_def freshTriggers_def initMatch_def)

lemma filter_nth_upt: "map ((!) xs) (filter (\<lambda>i. P (xs ! i)) [0..<length xs]) = filter P xs"
  by (metis (mono_tags, lifting) comp_apply filter_cong filter_map map_nth)

lemma triggered_recompiled [simp]: "triggered rc rm lines (recompiled rc t) = triggered rc rm lines t"
  by (simp add: triggered_def recompiled_def)

lemma matched_multiset:
  assumes ok: "compileTriggerList rc ts = (ts', None)"
  shows "\<exists>trs. foldE (matchTriggers rc rm) lines (freshTriggers ts) = Inr trs
    \<and> mset (fst (getMatchedTriggers trs)) =
        mset (map (recompiled rc) (filter (triggered rc rm lines) ts))"
proof (cases "lines = []")
  case True
  then show ?thesis
    by (simp add: freshTriggers_def getMatchedTriggers_def triggered_def)
next
  case False
  have ts': "ts' = map (recompiled rc) ts" "list_all (wellCompiled rc) ts'"
    using compileTriggerList_ok [OF ok] by auto
  let ?trs = "\<lparr>Triggers = ts', trig_compiled = True, matchedTriggers = Some [],
       unmatchedTriggers = Some [0..<length ts']\<rparr>"
  obtain mt um where r: "foldE (matchTriggers rc rm) lines ?trs =
      Inr (?trs\<lparr>matchedTriggers := Some mt, unmatchedTriggers := Some um\<rparr>)"
    and mt: "mset mt = mset (filter (\<lambda>i. triggered rc rm lines (ts' ! i)) [0..<length ts'])"
    using foldE_matchTriggers [of ?trs rc "[]" "[0..<length ts']" rm lines] ts'(2) by auto
  have "image_mset ((!) ts') (mset mt) = mset (filter (triggered rc rm lines) ts')"
    unfolding mt by (simp only: mset_map [symmetric] filter_nth_upt)
  also have "\<dots> = mset (map (recompiled rc) (filter (triggered rc rm lines) ts))"
    by (simp add: ts'(1) filter_map o_def)
  finally show ?thesis using foldE_fresh [OF ok False, of rm] r
    by (simp add: getMatchedTriggers_def)
qed

section \<open>Lemmas on merging\<close>

definition keyOf :: "'re trigger \<Rightarrow> bool \<times> string" where
  "keyOf t = (DoReload t, Service t)"

definition mergedWith :: "mergeable_trigger option \<Rightarrow> 're trigger list \<Rightarrow> mergeable_trigger option \<Rightarrow> bool" where
  "mergedWith old ts new \<longleftrightarrow>
     (case new of
        None \<Rightarrow> old = None \<and> ts = []
      | Some n \<Rightarrow>
          (old \<noteq> None \<or> ts \<noteq> [])
          \<and> set (mt_matchLines n) =
              (case old of None \<Rightarrow> {} | Some x \<Rightarrow> set (mt_matchLines x)) \<union> (\<Union>t \<in> set ts. set (MatchLines t))
          \<and> (mt_doReboot n \<longleftrightarrow> (case old of None \<Rightarrow> False | Some x \<Rightarrow> mt_doReboot x) \<or> (\<exists>t \<in> set ts. DoReboot t))
          \<and> (mt_highImpact n \<longleftrightarrow> (case old of None \<Rightarrow> False | Some x \<Rightarrow> mt_highImpact x) \<or> (\<exists>t \<in> set ts. HighImpact t))
          \<and> ((case old of None \<Rightarrow> True | Some x \<Rightarrow> distinct (mt_matchLines x)) \<longrightarrow> distinct (mt_matchLines n)))"

lemma map_of_mergeTrigger_other: "keyOf t \<noteq> k \<Longrightarrow> map_of (mergeTrigger mt t) k = map_of mt k"
  by (simp add: mergeTrigger_def Let_def map_of_putTable keyOf_def)

lemma mergeTrigger_step:
  "mergedWith (map_of mt k) (if keyOf t = k then [t] else []) (map_of (mergeTrigger mt t) k)"
proof (cases "keyOf t = k")
  case True
  then show ?thesis
    by (cases "map_of mt k")
       (simp_all add: mergedWith_def mergeTrigger_def Let_def map_of_putTable keyOf_def
          set_foldl_insert distinct_foldl_insert)
next
  case False
  then show ?thesis
    by (cases "map_of mt k") (simp_all add: map_of_mergeTrigger_other mergedWith_def)
qed

lemma mergedWith_trans:
  "mergedWith a ts b \<Longrightarrow> mergedWith b us c \<Longrightarrow> mergedWith a (ts @ us) c"
  by (cases a; cases b; cases c) (auto simp: mergedWith_def)

lemma foldl_mergeTrigger:
  "mergedWith (map_of mt k) (filter (\<lambda>t. keyOf t = k) ts) (map_of (foldl mergeTrigger mt ts) k)"
proof (induction ts arbitrary: mt)
  case Nil
  then show ?case by (simp add: mergedWith_def split: option.splits)
next
  case (Cons t ts)
  from mergedWith_trans [OF mergeTrigger_step [of mt k t] Cons.IH [of "mergeTrigger mt t"]]
  show ?case by (cases "keyOf t = k") simp_all
qed

lemma distinct_foldl_mergeTrigger:
  "distinct (map fst mt) \<Longrightarrow> distinct (map fst (foldl mergeTrigger mt ts))"
  by (induction ts arbitrary: mt) (simp_all add: mergeTrigger_def Let_def)

definition allTriggers :: "'re triggers option list \<Rightarrow> 're trigger list" where
  "allTriggers trss = concat (map (\<lambda>trs. case trs of None \<Rightarrow> [] | Some trs \<Rightarrow> Triggers trs) trss)"

lemma foldl_mergeTriggers: "foldl mergeTriggers mt trss = foldl mergeTrigger mt (allTriggers trss)"
  by (induction trss arbitrary: mt)
    (auto simp: allTriggers_def mergeTriggers_def split: option.splits)

definition orderKey :: "'re trigger \<Rightarrow> string \<times> bool" where
  "orderKey t = (Service t, \<not> DoReload t)"

definition swapKey :: "bool \<times> string \<Rightarrow> string \<times> bool" where
  "swapKey k = (snd k, \<not> fst k)"

lemma inj_swapKey: "inj swapKey"
  by (auto simp: inj_def swapKey_def)

lemma orderKey_keyOf: "orderKey t = swapKey (keyOf t)"
  by (simp add: orderKey_def swapKey_def keyOf_def)

lemma orderKey_exportTrigger: "orderKey (exportTrigger x) = swapKey (fst x)"
  by (simp add: orderKey_def exportTrigger_def swapKey_def)

lemma map_orderKey_exportTrigger: "map orderKey (map exportTrigger mt) = map swapKey (map fst mt)"
  by (simp add: orderKey_exportTrigger)

lemma distinct_orderKey_exported:
  assumes "distinct (map fst mt)"
  shows "distinct (map orderKey (map exportTrigger mt))"
  unfolding map_orderKey_exportTrigger
  using assms inj_on_subset [OF inj_swapKey subset_UNIV] by (simp only: distinct_map [of swapKey])

lemma sorted_exported:
  assumes "distinct (map fst mt)"
  shows "sliceStable triggerLess (map exportTrigger mt :: 're trigger list) = sort_key orderKey (map exportTrigger mt)"
proof (rule sliceStable_distinct)
  have d: "distinct (map orderKey (map exportTrigger mt :: 're trigger list))"
    by (rule distinct_orderKey_exported [OF assms])
  then show "distinct (map exportTrigger mt :: 're trigger list)" by (simp only: distinct_map [of orderKey])
  fix l r
  assume "l \<in> set (map exportTrigger mt :: 're trigger list)" "r \<in> set (map exportTrigger mt)" "l \<noteq> r"
  then have "orderKey l \<noteq> orderKey r" using d unfolding distinct_map [of orderKey] inj_on_def by blast
  then show "triggerLess l r \<longleftrightarrow> orderKey l < orderKey r"
    by (auto simp: triggerLess_def orderKey_def)
qed

lemma mergedWith_all:
  "mergedWith None (filter (\<lambda>t. keyOf t = k) ts) (map_of (foldl mergeTrigger [] ts) k)"
  using foldl_mergeTrigger [of "[]" k ts] by simp

lemma merged_keys: "fst ` set (foldl mergeTrigger [] ts) = keyOf ` set ts"
proof -
  have "k \<in> fst ` set (foldl mergeTrigger [] ts) \<longleftrightarrow> k \<in> keyOf ` set ts" for k
  proof -
    have "map_of (foldl mergeTrigger [] ts) k = None \<longleftrightarrow> filter (\<lambda>t. keyOf t = k) ts = []"
      using mergedWith_all [of k ts]
      by (cases "map_of (foldl mergeTrigger [] ts) k") (simp_all add: mergedWith_def)
    then show ?thesis unfolding map_of_eq_None_iff filter_empty_conv image_iff by metis
  qed
  then show ?thesis by blast
qed

definition mergedFrom :: "'re trigger set \<Rightarrow> 're trigger \<Rightarrow> bool" where
  "mergedFrom us t \<longleftrightarrow>
     MatchLines t = sorted_list_of_set (\<Union>u \<in> us. set (MatchLines u))
     \<and> (DoReboot t \<longleftrightarrow> (\<exists>u \<in> us. DoReboot u))
     \<and> (HighImpact t \<longleftrightarrow> (\<exists>u \<in> us. HighImpact u))
     \<and> SortName t = ''''"

lemma exported_merged:
  assumes "(k, m) \<in> set (foldl mergeTrigger [] ts)"
  shows "mergedFrom {u \<in> set ts. keyOf u = k} (exportTrigger (k, m))"
proof -
  have "distinct (map fst (foldl mergeTrigger [] ts))" by (rule distinct_foldl_mergeTrigger) simp
  then have "map_of (foldl mergeTrigger [] ts) k = Some m" using assms by simp
  then have w: "mergedWith None (filter (\<lambda>t. keyOf t = k) ts) (Some m)"
    using mergedWith_all [of k ts] by simp
  then have "distinct (mt_matchLines m)" by (simp add: mergedWith_def)
  then have "sorted_list_of_set (set (mt_matchLines m)) = sort (mt_matchLines m)"
    by (simp add: sorted_list_of_set_sort_remdups distinct_remdups_id)
  with w show ?thesis by (simp add: mergedFrom_def exportTrigger_def mergedWith_def)
qed

section \<open>Properties\<close>

text \<open>
  C35. Triggers whose expressions all compile never panic while they are matched against
  any sequence of pathnames, and afterwards the matched triggers are, each once, exactly
  those with an expression that matches one of the pathnames, ordered by sort name.
  Fetching them resets the match state.
\<close>

theorem matched_triggers:
  assumes "compileTriggerList rc ts = (ts', None)" and "\<forall>t \<in> set ts. fitsInt64 (SortName t)"
  shows "\<exists>trs. foldE (matchTriggers rc rm) lines (freshTriggers ts) = Inr trs
    \<and> mset (fst (getMatchedTriggers trs)) =
        mset (map (recompiled rc) (filter (triggered rc rm lines) ts))
    \<and> sorted (map (\<lambda>t. keys_of (SortName t)) (fst (getMatchedTriggers trs)))
    \<and> getMatchedTriggers (snd (getMatchedTriggers trs)) = ([], snd (getMatchedTriggers trs))"
proof -
  obtain trs where trs: "foldE (matchTriggers rc rm) lines (freshTriggers ts) = Inr trs"
    and m: "mset (fst (getMatchedTriggers trs)) =
        mset (map (recompiled rc) (filter (triggered rc rm lines) ts))"
    using matched_multiset [OF assms(1), of rm lines] by auto
  let ?lt = "\<lambda>l r. verstrLess (SortName l) (SortName r)"
  let ?xs = "map ((!) (Triggers trs)) (case matchedTriggers trs of None \<Rightarrow> [] | Some mt \<Rightarrow> mt)"
  have "set ?xs = set (map (recompiled rc) (filter (triggered rc rm lines) ts))"
    using mset_eq_setD [OF m] by (simp add: getMatchedTriggers_def)
  then have "fitsInt64 (SortName t)" if "t \<in> set ?xs" for t
    using that assms(2) by (auto simp: recompiled_def)
  then have "sliceStable ?lt ?xs = sort_key (\<lambda>t. keys_of (SortName t)) ?xs"
    by (intro sliceStable_sort_key verstrLess_keys)
  then have "sorted (map (\<lambda>t. keys_of (SortName t)) (fst (getMatchedTriggers trs)))"
    by (simp add: getMatchedTriggers_def)
  moreover have "getMatchedTriggers (snd (getMatchedTriggers trs)) = ([], snd (getMatchedTriggers trs))"
    by (simp add: getMatchedTriggers_def sliceStable_def)
  ultimately show ?thesis using trs m by blast
qed

definition exampleTrigger :: "unit trigger" where
  "exampleTrigger =
     \<lparr>MatchLines = [''/etc/ssh''], matchRegexes = [], Service = ''sshd'', SortName = ''5'',
      DoReboot = False, DoReload = True, HighImpact = False\<rparr>"

theorem matched_triggers_witness:
  "\<exists>trs. foldE (matchTriggers (\<lambda>_. None) (\<lambda>_ _. False)) [''/etc/ssh/config'']
           (freshTriggers [exampleTrigger]) = Inr trs
     \<and> map Service (fst (getMatchedTriggers trs)) = [''sshd'']"
proof -
  have c: "compile (\<lambda>_. None :: unit option) ''/etc/ssh'' = (Some (PrefixMatcher ''/etc/ssh''), None)"
    by (simp add: compile_def compileContainsMatcher_def compileLoop.simps isPlain_def charBetween_def)
  obtain ts' where ok: "compileTriggerList (\<lambda>_. None) [exampleTrigger] = (ts', None)"
    by (simp add: exampleTrigger_def c)
  have fits: "\<forall>t \<in> set [exampleTrigger]. fitsInt64 (SortName t)"
    by (simp add: exampleTrigger_def fitsInt64_def keys_of.simps(2) isDigit_def value_of_def)
  have "triggered (\<lambda>_. None) (\<lambda>_ _. False) [''/etc/ssh/config''] exampleTrigger"
    by (simp add: triggered_def exprMatches_def exampleTrigger_def c)
  then show ?thesis
    using matched_triggers [OF ok fits, of "\<lambda>_ _. False" "[''/etc/ssh/config'']"]
    by (auto simp: recompiled_def exampleTrigger_def)
qed

text \<open>
  C40. Merging trigger lists and exporting the result gives one trigger per service and
  reload flag, sorted by service with reloads first. It has the union of the expressions,
  sorted, and reboots (or is of high impact) if one of the merged ones does. Every sort
  name is dropped, so the order in which merged triggers run is no longer controlled.
\<close>

theorem merged_triggers:
  fixes e :: "'re triggers"
  assumes "exportTriggers (foldl mergeTriggers [] trss) = Some e"
  shows "sorted_wrt (<) (map orderKey (Triggers e))
    \<and> orderKey ` set (Triggers e) = orderKey ` set (allTriggers trss)
    \<and> (\<forall>t \<in> set (Triggers e). mergedFrom {u \<in> set (allTriggers trss). orderKey u = orderKey t} t)"
proof -
  define mt where "mt = foldl mergeTrigger [] (allTriggers trss)"
  have d: "distinct (map fst mt)" unfolding mt_def by (rule distinct_foldl_mergeTrigger) simp
  have e: "Triggers e = sort_key orderKey (map exportTrigger mt)"
    using assms sorted_exported [OF d]
    by (auto simp: exportTriggers_def foldl_mergeTriggers mt_def split: if_splits)
  have "mset (map orderKey (Triggers e)) = mset (map orderKey (map exportTrigger mt :: 're trigger list))"
    by (simp only: mset_map e mset_sort)
  then have "distinct (map orderKey (Triggers e))"
    using distinct_orderKey_exported [OF d] mset_eq_imp_distinct_iff by blast
  then have 1: "sorted_wrt (<) (map orderKey (Triggers e))"
    by (simp add: strict_sorted_iff e)
  have "swapKey ` fst ` set mt = swapKey ` keyOf ` set (allTriggers trss)"
    by (simp only: mt_def merged_keys)
  then have 2: "orderKey ` set (Triggers e) = orderKey ` set (allTriggers trss)"
    by (simp only: e set_sort set_map image_image orderKey_exportTrigger) (simp add: orderKey_keyOf)
  have 3: "mergedFrom {u \<in> set (allTriggers trss). orderKey u = orderKey t} t"
    if "t \<in> set (Triggers e)" for t
  proof -
    have "t \<in> exportTrigger ` set mt" using that by (simp only: e set_sort set_map)
    then obtain k m where "(k, m) \<in> set mt" and t: "t = exportTrigger (k, m)" by auto
    moreover have "orderKey u = orderKey t \<longleftrightarrow> keyOf u = k" for u :: "'re trigger"
      by (simp add: t orderKey_exportTrigger) (simp add: orderKey_keyOf inj_eq [OF inj_swapKey])
    ultimately show ?thesis using exported_merged [of k m "allTriggers trss"] by (simp add: mt_def)
  qed
  show ?thesis using 1 2 3 by blast
qed

theorem merged_triggers_witness:
  "\<exists>e :: unit triggers. exportTriggers (foldl mergeTriggers [] [Some (freshTriggers [exampleTrigger]), None]) = Some e
     \<and> orderKey ` set (Triggers e) = {(''sshd'', False)}"
proof -
  obtain e :: "unit triggers" where
    "exportTriggers (foldl mergeTriggers [] [Some (freshTriggers [exampleTrigger]), None]) = Some e"
    by (simp add: exportTriggers_def mergeTriggers_def freshTriggers_def mergeTrigger_def Let_def)
  with merged_triggers [OF this] show ?thesis
    by (simp add: allTriggers_def freshTriggers_def orderKey_def exampleTrigger_def)
qed

end
