(* ===== verification/Update_Request.thy ===== *)
theory Update_Request
  imports File_Walks Trigger_Sets
begin

text \<open>
  The computations of the dominator (\<^verbatim>\<open>dom/lib\<close>): which objects a sub is missing, and the
  request that turns the file system of a sub into the required image.

  The filter of an image is the predicate \<^verbatim>\<open>Filter.Match\<close> (total and without effect for a
  compiled filter, see \<open>Path_Filter\<close>); \<open>None\<close> is the nil filter of a sparse image. The
  private maps of \<^verbatim>\<open>Sub\<close> and the request under construction are one \<open>builder\<close> record, which
  the functions thread. The inodes in \<^verbatim>\<open>ComputedInodes\<close> are changed in place by
  \<^verbatim>\<open>setComputedFileMtime\<close>; distinct pathnames are taken to hold distinct inode objects.
  \<open>now\<close> is \<^verbatim>\<open>time.Now().Unix()\<close>.
\<close>

section \<open>Messages\<close>

record file_to_copy =
  fc_Name :: string
  fc_Hash :: hash
  fc_DoHardlink :: bool

record hardlink =
  NewLink :: string
  Target :: string

record named_inode =
  ni_Name :: string
  ni_Inode :: generic_inode

record 're update_request =
  ForceDisruption :: bool
  ImageName :: string
  SparseImage :: bool
  Wait :: bool
  FilesToCopyToCache :: "file_to_copy list"
  DirectoriesToMake :: "named_inode list"
  InodesToMake :: "named_inode list"
  HardlinksToMake :: "hardlink list"
  PathsToDelete :: "string list"
  InodesToChange :: "named_inode list"
  MultiplyUsedObjects :: "(hash \<times> u64) list"
  request_Triggers :: "'re triggers option"

record 're image =
  img_Filter :: "(string \<Rightarrow> bool) option"
  img_FileSystem :: file_system
  img_Triggers :: "'re triggers option"

record sub =
  sub_FileSystem :: file_system
  sub_ObjectCache :: "hash list"
  sub_ComputedInodes :: "string \<rightharpoonup> regular_inode"

section \<open>Missing objects\<close>

type_synonym missing_lists = "(hash \<times> u64) list \<times> (hash \<times> unit) list"

fun updateMissingLoop ::
    "(string \<rightharpoonup> regular_inode) \<Rightarrow> (u64 \<times> string list) list \<Rightarrow> bool \<Rightarrow> bool \<Rightarrow> inode_table
       \<Rightarrow> missing_lists \<Rightarrow> panic + (bool \<times> missing_lists)" where
  "updateMissingLoop computed names push ignore [] ls = Inr (True, ls)"
| "updateMissingLoop computed names push ignore ((inum, ino) # t) (fetch, pushes) =
     (case ino of
        Some (RegularInode r) \<Rightarrow>
          updateMissingLoop computed names push ignore t
            (if ri_Size r > 0 then putTable (ri_Hash r) (ri_Size r) fetch else fetch, pushes)
      | Some (ComputedRegularInode c) \<Rightarrow>
          if push then
            bindP (first_index (indexTable names inum)) (\<lambda>pathname.
              case computed pathname of
                None \<Rightarrow>
                  if ignore then updateMissingLoop computed names push ignore t (fetch, pushes)
                  else Inr (False, (fetch, pushes))
              | Some r \<Rightarrow>
                  updateMissingLoop computed names push ignore t
                    (fetch, putTable (ri_Hash r) () pushes))
          else updateMissingLoop computed names push ignore t (fetch, pushes)
      | _ \<Rightarrow> updateMissingLoop computed names push ignore t (fetch, pushes))"

definition updateMissingLists ::
    "sub \<Rightarrow> 're image option \<Rightarrow> bool \<Rightarrow> bool \<Rightarrow> missing_lists \<Rightarrow> panic + (bool \<times> missing_lists)" where
  "updateMissingLists s img push ignore ls =
     (case img of
        None \<Rightarrow> Inr (True, ls)
      | Some img \<Rightarrow>
          updateMissingLoop (sub_ComputedInodes s) (InodeToFilenamesTable (img_FileSystem img))
            push ignore (InodeTable (img_FileSystem img)) ls)"

definition deletePresent :: "missing_lists \<Rightarrow> hash \<Rightarrow> missing_lists" where
  "deletePresent ls h = (deleteKey h (fst ls), deleteKey h (snd ls))"

fun deleteInode :: "missing_lists \<Rightarrow> u64 \<times> generic_inode option \<Rightarrow> missing_lists" where
  "deleteInode ls (_, Some (RegularInode r)) =
     (if ri_Size r > 0 then deletePresent ls (ri_Hash r) else ls)"
| "deleteInode ls _ = ls"

definition buildMissingLists ::
    "sub \<Rightarrow> 're image option \<Rightarrow> 're image option \<Rightarrow> bool \<Rightarrow> bool \<Rightarrow> panic + missing_lists option" where
  "buildMissingLists s requiredImage plannedImage push ignore =
     bindP (updateMissingLists s requiredImage push ignore ([], [])) (\<lambda>(ok, ls).
       if \<not> ok then Inr None
       else bindP (updateMissingLists s plannedImage False False ls) (\<lambda>(ok, ls).
         if \<not> ok then Inr None
         else Inr (Some (foldl deleteInode (foldl deletePresent ls (sub_ObjectCache s))
                           (InodeTable (sub_FileSystem s))))))"

section \<open>Building the request\<close>

record 're builder =
  requiredInodeToSubInode :: "u64 \<rightharpoonup> u64"
  inodesMapped :: "u64 set"
  inodesChanged :: "u64 set"
  inodesCreated :: "u64 \<rightharpoonup> string"
  subObjectCacheUsage :: "(hash \<times> u64) list"
  ComputedInodes :: "string \<rightharpoonup> regular_inode"
  request :: "'re update_request"

text \<open>What does not change while a request is built.\<close>

record build_env =
  subFS :: file_system
  requiredFS :: file_system
  be_filter :: "(string \<Rightarrow> bool) option"
  deleteMissingComputedFiles :: bool
  ignoreMissingComputedFiles :: bool
  now :: int

definition entriesByName :: "directory_entry list \<Rightarrow> (string \<times> directory_entry) list" where
  "entriesByName es = foldl (\<lambda>m e. putTable (Name e) e m) [] es"

definition makeDirectory :: "directory_inode \<Rightarrow> string \<Rightarrow> bool \<Rightarrow> 're builder \<Rightarrow> 're builder" where
  "makeDirectory d pathName create st =
     (let newInode = \<lparr>ni_Name = pathName,
                      ni_Inode = DirectoryInode (Directory [] (di_Mode d) (di_Uid d) (di_Gid d))\<rparr>
      in if create
         then st\<lparr>request := (request st)\<lparr>DirectoriesToMake := DirectoriesToMake (request st) @ [newInode]\<rparr>\<rparr>
         else st\<lparr>request := (request st)\<lparr>InodesToChange := InodesToChange (request st) @ [newInode]\<rparr>\<rparr>)"

definition makeHardlink :: "string \<Rightarrow> string \<Rightarrow> 're builder \<Rightarrow> 're builder" where
  "makeHardlink newLink target st =
     st\<lparr>request := (request st)\<lparr>HardlinksToMake :=
          HardlinksToMake (request st) @ [\<lparr>NewLink = newLink, Target = target\<rparr>]\<rparr>\<rparr>"

definition deletePath :: "string \<Rightarrow> 're builder \<Rightarrow> 're builder" where
  "deletePath pathname st =
     st\<lparr>request := (request st)\<lparr>PathsToDelete := PathsToDelete (request st) @ [pathname]\<rparr>\<rparr>"

definition setComputedFileMtime :: "int \<Rightarrow> regular_inode \<Rightarrow> directory_entry option \<Rightarrow> regular_inode" where
  "setComputedFileMtime nowSeconds r subEntry =
     (if ri_MtimeSeconds r \<ge> 0 then r
      else case subEntry of
        Some (DirectoryEntry _ _ (Some (RegularInode s))) \<Rightarrow>
          if ri_Hash r = ri_Hash s
          then r\<lparr>ri_MtimeNanoSeconds := ri_MtimeNanoSeconds s, ri_MtimeSeconds := ri_MtimeSeconds s\<rparr>
          else r\<lparr>ri_MtimeSeconds := nowSeconds\<rparr>
      | _ \<Rightarrow> r\<lparr>ri_MtimeSeconds := nowSeconds\<rparr>)"

text \<open>\<open>compareInodes\<close> on interface values, of which a nil pointer in the tree gives a nil one.\<close>

fun compareInodePointers :: "generic_inode option \<Rightarrow> generic_inode option \<Rightarrow> bool \<times> bool \<times> bool" where
  "compareInodePointers (Some l) (Some r) = compareInodes False l r"
| "compareInodePointers None None = (True, True, True)"
| "compareInodePointers _ _ = (False, False, False)"

fun keepLinked :: "(string \<rightharpoonup> u64) \<Rightarrow> (string \<Rightarrow> bool) option \<Rightarrow> string list \<Rightarrow> bool" where
  "keepLinked required flt [] = False"
| "keepLinked required flt (filename # filenames) =
     (if required filename \<noteq> None then True
      else if (case flt of None \<Rightarrow> True | Some match \<Rightarrow> match filename) then True
      else keepLinked required flt filenames)"

definition getFileToCopy :: "build_env \<Rightarrow> string \<Rightarrow> hash \<Rightarrow> panic + file_to_copy" where
  "getFileToCopy env myPathName hashVal =
     (case map_of (HashToInodesTable (subFS env)) hashVal of
        None \<Rightarrow> Inl (ExplicitPanic (''No object in cache for: '' @ myPathName))
      | Some inos \<Rightarrow>
          bindP (first_index inos) (\<lambda>ino.
          bindP (first_index (indexTable (InodeToFilenamesTable (subFS env)) ino)) (\<lambda>name.
            Inr \<lparr>fc_Name = name, fc_Hash = hashVal,
                 fc_DoHardlink =
                   list_ex (\<lambda>iNum.
                       indexTable (InodeToFilenamesTable (subFS env)) iNum \<noteq> []
                       \<and> \<not> keepLinked (FilenameToInodeTable (requiredFS env)) (be_filter env)
                           (indexTable (InodeToFilenamesTable (subFS env)) iNum))
                     inos\<rparr>)))"

text \<open>
  The search for a sibling: the first other name of the required inode under which the sub
  already has an inode with the same metadata and data.
\<close>

fun findSibling :: "build_env \<Rightarrow> generic_inode \<Rightarrow> string \<Rightarrow> string list \<Rightarrow> string option" where
  "findSibling env required myPathName [] = None"
| "findSibling env required myPathName (name # names) =
     (if name = myPathName then findSibling env required myPathName names
      else case FilenameToInodeTable (subFS env) name of
        None \<Rightarrow> findSibling env required myPathName names
      | Some inum \<Rightarrow>
          (case compareInodePointers (Option.bind (map_of (InodeTable (subFS env)) inum) id) (Some required) of
             (_, sameMetadata, sameData) \<Rightarrow>
               if sameMetadata \<and> sameData then Some name
               else findSibling env required myPathName names))"

definition useObject :: "build_env \<Rightarrow> generic_inode \<Rightarrow> string \<Rightarrow> 're builder \<Rightarrow> panic + 're builder" where
  "useObject env ino myPathName st =
     (case ino of
        RegularInode r \<Rightarrow>
          if ri_Size r > 0 then
            (case map_of (subObjectCacheUsage st) (ri_Hash r) of
               Some old \<Rightarrow>
                 Inr (st\<lparr>subObjectCacheUsage := putTable (ri_Hash r) (old + 1) (subObjectCacheUsage st)\<rparr>)
             | None \<Rightarrow>
                 bindP (getFileToCopy env myPathName (ri_Hash r)) (\<lambda>file.
                   Inr (st\<lparr>request := (request st)\<lparr>FilesToCopyToCache :=
                              FilesToCopyToCache (request st) @ [file]\<rparr>,
                           subObjectCacheUsage := putTable (ri_Hash r) 1 (subObjectCacheUsage st)\<rparr>)))
          else Inr st
      | _ \<Rightarrow> Inr st)"

definition addInode :: "build_env \<Rightarrow> directory_entry \<Rightarrow> string \<Rightarrow> 're builder \<Rightarrow> panic + 're builder" where
  "addInode env requiredEntry myPathName st =
     (case inode requiredEntry of
        None \<Rightarrow> Inl NilDereference
      | Some requiredInode \<Rightarrow>
          (case inodesCreated st (InodeNumber requiredEntry) of
             Some name \<Rightarrow> Inr (makeHardlink myPathName name st)
           | None \<Rightarrow>
               (let names = indexTable (InodeToFilenamesTable (requiredFS env)) (InodeNumber requiredEntry)
                in case (if length names > 1 then findSibling env requiredInode myPathName names else None) of
                     Some name \<Rightarrow> Inr (makeHardlink myPathName name st)
                   | None \<Rightarrow>
                       bindP (useObject env requiredInode myPathName st) (\<lambda>st.
                         Inr (st\<lparr>request := (request st)\<lparr>InodesToMake :=
                                    InodesToMake (request st)
                                      @ [\<lparr>ni_Name = myPathName, ni_Inode = requiredInode\<rparr>]\<rparr>,
                                 inodesCreated := (inodesCreated st)(InodeNumber requiredEntry \<mapsto> myPathName)\<rparr>)))))"

definition addEntry :: "build_env \<Rightarrow> directory_entry \<Rightarrow> string \<Rightarrow> 're builder \<Rightarrow> panic + 're builder" where
  "addEntry env requiredEntry myPathName st =
     (case inode requiredEntry of
        Some (DirectoryInode d) \<Rightarrow> Inr (makeDirectory d myPathName True st)
      | _ \<Rightarrow> addInode env requiredEntry myPathName st)"

definition relink ::
    "build_env \<Rightarrow> directory_entry \<Rightarrow> directory_entry \<Rightarrow> string \<Rightarrow> 're builder \<Rightarrow> panic + (bool \<times> 're builder)" where
  "relink env subEntry requiredEntry myPathName st =
     (case requiredInodeToSubInode st (InodeNumber requiredEntry) of
        None \<Rightarrow>
          if InodeNumber subEntry \<in> inodesMapped st then Inr (False, st)
          else Inr (True, st\<lparr>requiredInodeToSubInode :=
                              (requiredInodeToSubInode st)(InodeNumber requiredEntry \<mapsto> InodeNumber subEntry),
                            inodesMapped := insert (InodeNumber subEntry) (inodesMapped st)\<rparr>)
      | Some subInum \<Rightarrow>
          if subInum = InodeNumber subEntry then Inr (True, st)
          else bindP (first_index (indexTable (InodeToFilenamesTable (subFS env)) subInum)) (\<lambda>name.
                 Inr (True, makeHardlink myPathName name st)))"

definition compareInodeLinks :: "build_env \<Rightarrow> u64 \<Rightarrow> u64 \<Rightarrow> bool" where
  "compareInodeLinks env requiredInum subInum =
     (let requiredNames = indexTable (InodeToFilenamesTable (requiredFS env)) requiredInum;
          subNames = indexTable (InodeToFilenamesTable (subFS env)) subInum
      in if length subNames > length requiredNames then False
         else list_all (\<lambda>name. name \<in> set requiredNames) subNames)"

definition updateMetadata :: "directory_entry \<Rightarrow> string \<Rightarrow> 're builder \<Rightarrow> panic + 're builder" where
  "updateMetadata requiredEntry myPathName st =
     (if InodeNumber requiredEntry \<in> inodesChanged st then Inr st
      else case inode requiredEntry of
        None \<Rightarrow> Inl NilDereference
      | Some ino \<Rightarrow>
          Inr (st\<lparr>request := (request st)\<lparr>InodesToChange :=
                     InodesToChange (request st) @ [\<lparr>ni_Name = myPathName, ni_Inode = ino\<rparr>]\<rparr>,
                  inodesChanged := insert (InodeNumber requiredEntry) (inodesChanged st)\<rparr>))"

definition compareEntries ::
    "build_env \<Rightarrow> directory_entry \<Rightarrow> directory_entry \<Rightarrow> string \<Rightarrow> 're builder \<Rightarrow> panic + 're builder" where
  "compareEntries env subEntry requiredEntry myPathName st =
     (case compareInodePointers (inode subEntry) (inode requiredEntry) of
        (sameType, sameMetadata, sameData) \<Rightarrow>
          (case inode requiredEntry of
             Some (DirectoryInode d) \<Rightarrow>
               if sameMetadata then Inr st
               else if sameType then Inr (makeDirectory d myPathName False st)
               else Inr (makeDirectory d myPathName True st)
           | _ \<Rightarrow>
               if sameType \<and> sameData \<and> sameMetadata then
                 bindP (relink env subEntry requiredEntry myPathName st) (\<lambda>(linked, st).
                   if linked then Inr st else addInode env requiredEntry myPathName st)
               else if sameType \<and> sameData
                    \<and> compareInodeLinks env (InodeNumber requiredEntry) (InodeNumber subEntry) then
                 bindP (relink env subEntry requiredEntry myPathName st) (\<lambda>(linked, st).
                   if linked then updateMetadata requiredEntry myPathName st
                   else addInode env requiredEntry myPathName st)
               else addInode env requiredEntry myPathName st))"

definition addOrCompare ::
    "build_env \<Rightarrow> directory_entry option \<Rightarrow> directory_entry \<Rightarrow> string \<Rightarrow> 're builder \<Rightarrow> panic + 're builder" where
  "addOrCompare env subEntry requiredEntry pathname st =
     (case subEntry of
        None \<Rightarrow> addEntry env requiredEntry pathname st
      | Some subEntry \<Rightarrow> compareEntries env subEntry requiredEntry pathname st)"

definition filtered :: "build_env \<Rightarrow> string \<Rightarrow> bool" where
  "filtered env pathname = (case be_filter env of None \<Rightarrow> False | Some match \<Rightarrow> match pathname)"

text \<open>The first loop of \<^verbatim>\<open>compareDirectories\<close>: entries of the sub that the image does not have.\<close>

definition deletions :: "build_env \<Rightarrow> directory_inode option \<Rightarrow> directory_inode \<Rightarrow> string \<Rightarrow> string list" where
  "deletions env subDirectory requiredDirectory myPathName =
     (case subDirectory of
        Some d \<Rightarrow>
          if be_filter env = None then []
          else map (\<lambda>(name, _). pathJoin myPathName name)
                 (filter (\<lambda>(name, _).
                     \<not> filtered env (pathJoin myPathName name)
                     \<and> map_of (entriesByName (EntryList requiredDirectory)) name = None)
                   (entriesByName (EntryList d)))
      | None \<Rightarrow> [])"

definition sortedEntries :: "directory_inode \<Rightarrow> directory_entry list" where
  "sortedEntries d = map snd (sort_key fst (entriesByName (EntryList d)))"

fun subDirectoryOf :: "directory_entry option \<Rightarrow> directory_inode option" where
  "subDirectoryOf (Some (DirectoryEntry _ _ (Some (DirectoryInode d)))) = Some d"
| "subDirectoryOf _ = None"

definition lookupEntry :: "directory_inode option \<Rightarrow> string \<Rightarrow> directory_entry option" where
  "lookupEntry d name = Option.bind d (\<lambda>d. map_of (entriesByName (EntryList d)) name)"

lemma set_entriesByName: "snd ` set (entriesByName es) \<subseteq> set es"
proof -
  have put: "snd ` set (putTable k v t) \<subseteq> insert v (snd ` set t)" for k :: string and v :: directory_entry and t
    by (induction k v t rule: putTable.induct) auto
  have "snd ` set (foldl (\<lambda>m e. putTable (Name e) e m) t es) \<subseteq> snd ` set t \<union> set es" for t
  proof (induction es arbitrary: t)
    case (Cons e es)
    then have "snd ` set (foldl (\<lambda>m e. putTable (Name e) e m) (putTable (Name e) e t) es) \<subseteq>
        snd ` set (putTable (Name e) e t) \<union> set es" by blast
    then show ?case using put [of "Name e" e t] by auto
  qed simp
  from this [of "[]"] show ?thesis by (simp add: entriesByName_def)
qed

lemma set_sortedEntries: "set (sortedEntries d) \<subseteq> set (EntryList d)"
  using set_entriesByName [of "EntryList d"] by (simp add: sortedEntries_def)

lemma sum_putTable:
  "sum_list (map (\<lambda>e. f (snd e)) (putTable k v t)) \<le> f v + sum_list (map (\<lambda>e. f (snd e)) t)"
  for f :: "'v \<Rightarrow> nat"
  by (induction k v t rule: putTable.induct) auto

lemma sum_entriesByName:
  "sum_list (map (\<lambda>e. f (snd e)) (entriesByName es)) \<le> sum_list (map f es)"
  for f :: "directory_entry \<Rightarrow> nat"
proof -
  have "sum_list (map (\<lambda>e. f (snd e)) (foldl (\<lambda>m e. putTable (Name e) e m) t es)) \<le>
      sum_list (map (\<lambda>e. f (snd e)) t) + sum_list (map f es)" for t
  proof (induction es arbitrary: t)
    case (Cons e es)
    show ?case
      using Cons.IH [of "putTable (Name e) e t"] sum_putTable [of f "Name e" e t] by simp
  qed simp
  from this [of "[]"] show ?thesis by (simp add: entriesByName_def)
qed

lemma sum_sortedEntries:
  "sum_list (map f (sortedEntries d)) \<le> sum_list (map f (EntryList d))"
  for f :: "directory_entry \<Rightarrow> nat"
  using sum_entriesByName [of f "EntryList d"]
  by (simp add: sortedEntries_def o_def sum_list_map_sort_key)

fun entryWeight :: "directory_entry \<Rightarrow> nat"
and entriesWeight :: "directory_entry list \<Rightarrow> nat" where
  "entryWeight (DirectoryEntry n i ino) =
     (case ino of Some (DirectoryInode (Directory es m u g)) \<Rightarrow> 3 + entriesWeight es | _ \<Rightarrow> 1)"
| "entriesWeight [] = 0"
| "entriesWeight (e # es) = entryWeight e + entriesWeight es"

lemma entriesWeight_sum: "entriesWeight es = sum_list (map entryWeight es)"
  by (induction es) auto

text \<open>
  One round of the second loop, up to the recursive call: \<open>Return\<close> is \<^verbatim>\<open>return true\<close>, \<open>Next\<close>
  goes on with the next name, \<open>Descend d\<close> first descends into the required directory \<open>d\<close>.
\<close>

datatype step = Return | Next | Descend directory_inode

definition compareComputed ::
    "build_env \<Rightarrow> directory_entry option \<Rightarrow> directory_entry \<Rightarrow> string \<Rightarrow> 're builder
       \<Rightarrow> panic + (step \<times> 're builder)" where
  "compareComputed env subEntry requiredEntry pathname st =
     (case ComputedInodes st pathname of
        None \<Rightarrow>
          if deleteMissingComputedFiles env
          then Inr (Next, if subEntry \<noteq> None then deletePath pathname st else st)
          else if ignoreMissingComputedFiles env then Inr (Next, st)
          else Inr (Return, st)
      | Some r \<Rightarrow>
          (let r = setComputedFileMtime (now env) r subEntry
           in bindP (addOrCompare env subEntry
                       (DirectoryEntry (Name requiredEntry) (InodeNumber requiredEntry) (Some (RegularInode r)))
                       pathname
                       (st\<lparr>ComputedInodes := (ComputedInodes st)(pathname \<mapsto> r)\<rparr>))
                (\<lambda>st. Inr (Next, st))))"

definition compareName ::
    "build_env \<Rightarrow> directory_inode option \<Rightarrow> directory_entry \<Rightarrow> string \<Rightarrow> 're builder
       \<Rightarrow> panic + (step \<times> 're builder)" where
  "compareName env subDirectory requiredEntry myPathName st =
     (let pathname = pathJoin myPathName (Name requiredEntry);
          subEntry = lookupEntry subDirectory (Name requiredEntry)
      in if filtered env pathname then Inr (Next, st)
         else case inode requiredEntry of
           Some (ComputedRegularInode c) \<Rightarrow> compareComputed env subEntry requiredEntry pathname st
         | Some (DirectoryInode d) \<Rightarrow>
             bindP (addOrCompare env subEntry requiredEntry pathname st) (\<lambda>st. Inr (Descend d, st))
         | _ \<Rightarrow> bindP (addOrCompare env subEntry requiredEntry pathname st) (\<lambda>st. Inr (Next, st)))"

lemma compareName_Descend:
  "compareName env subDirectory e p st = Inr (Descend d, st') \<Longrightarrow> inode e = Some (DirectoryInode d)"
  by (auto simp: compareName_def compareComputed_def Let_def split: if_splits option.splits generic_inode.splits)

fun weightOf ::
    "(build_env \<times> directory_inode option \<times> directory_inode \<times> string \<times> 're builder)
       + (build_env \<times> directory_inode option \<times> directory_entry list \<times> string \<times> 're builder) \<Rightarrow> nat" where
  "weightOf (Inl (_, _, d, _, _)) = 1 + entriesWeight (EntryList d)"
| "weightOf (Inr (_, _, es, _, _)) = entriesWeight es"

lemma entryWeight_positive: "0 < entryWeight e"
  by (cases e) (auto split: option.splits generic_inode.splits directory_inode.splits)

text \<open>The result of the recursive call is not used: the loop goes on whatever it was.\<close>

function compareDirectories ::
    "build_env \<Rightarrow> directory_inode option \<Rightarrow> directory_inode \<Rightarrow> string \<Rightarrow> 're builder
       \<Rightarrow> panic + (bool \<times> 're builder)"
and compareNames ::
    "build_env \<Rightarrow> directory_inode option \<Rightarrow> directory_entry list \<Rightarrow> string \<Rightarrow> 're builder
       \<Rightarrow> panic + (bool \<times> 're builder)"
where
  "compareDirectories env subDirectory requiredDirectory myPathName st =
     compareNames env subDirectory (sortedEntries requiredDirectory) myPathName
       (foldl (\<lambda>st p. deletePath p st) st (deletions env subDirectory requiredDirectory myPathName))"
| "compareNames env subDirectory [] myPathName st = Inr (False, st)"
| "compareNames env subDirectory (requiredEntry # entries) myPathName st =
     bindP (compareName env subDirectory requiredEntry myPathName st) (\<lambda>(step, st).
       case step of
         Return \<Rightarrow> Inr (True, st)
       | Next \<Rightarrow> compareNames env subDirectory entries myPathName st
       | Descend d \<Rightarrow>
           bindP (compareDirectories env (subDirectoryOf (lookupEntry subDirectory (Name requiredEntry))) d
                    (pathJoin myPathName (Name requiredEntry)) st) (\<lambda>(failed, st).
             compareNames env subDirectory entries myPathName st))"
  by pat_completeness auto

termination
proof (relation "measure weightOf", goal_cases)
  case 1
  then show ?case by simp
next
  case (2 env subDirectory d p st)
  then show ?case using sum_sortedEntries [of entryWeight d] by (simp add: entriesWeight_sum)
next
  case (3 env subDirectory e es p st x step st')
  then show ?case using entryWeight_positive [of e] by simp
next
  case (4 env subDirectory e es p st x step st' d)
  then have "inode e = Some (DirectoryInode d)" using compareName_Descend by blast
  then show ?case by (cases e; cases d) simp
next
  case (5 env subDirectory e es p st x step st' d y failed st'')
  then show ?case using entryWeight_positive [of e] by simp
qed

definition noteMultiplyUsed :: "(hash \<times> u64) list \<Rightarrow> (hash \<times> u64) list \<Rightarrow> (hash \<times> u64) list" where
  "noteMultiplyUsed usage m =
     foldl (\<lambda>m e. if snd e > 1 then putTable (fst e) (snd e) m else m) m usage"

definition buildEnv :: "int \<Rightarrow> sub \<Rightarrow> 're image \<Rightarrow> bool \<Rightarrow> bool \<Rightarrow> build_env" where
  "buildEnv nowSeconds s img deleteMissing ignoreMissing =
     \<lparr>subFS = sub_FileSystem s, requiredFS = img_FileSystem img, be_filter = img_Filter img,
      deleteMissingComputedFiles = deleteMissing, ignoreMissingComputedFiles = ignoreMissing,
      now = nowSeconds\<rparr>"

definition startBuilder :: "sub \<Rightarrow> 're image \<Rightarrow> 're update_request \<Rightarrow> 're builder" where
  "startBuilder s img req =
     \<lparr>requiredInodeToSubInode = Map.empty, inodesMapped = {}, inodesChanged = {},
      inodesCreated = Map.empty,
      subObjectCacheUsage = foldl (\<lambda>t h. putTable h 0 t) [] (sub_ObjectCache s),
      ComputedInodes = sub_ComputedInodes s,
      request = req\<lparr>SparseImage := (img_Filter img = None), request_Triggers := img_Triggers img\<rparr>\<rparr>"

text \<open>The result is whether computed files are missing, and the request.\<close>

definition buildUpdateRequest ::
    "int \<Rightarrow> sub \<Rightarrow> 're image \<Rightarrow> 're update_request \<Rightarrow> bool \<Rightarrow> bool
       \<Rightarrow> panic + (bool \<times> 're update_request)" where
  "buildUpdateRequest nowSeconds s img req deleteMissing ignoreMissing =
     (let env = buildEnv nowSeconds s img deleteMissing ignoreMissing;
          subRoot = fs_root (sub_FileSystem s);
          requiredRoot = fs_root (img_FileSystem img);
          st = startBuilder s img req;
          st = (if \<not> compareDirectoriesMetadata subRoot requiredRoot
                then makeDirectory requiredRoot ''/'' False st else st)
      in bindP (compareDirectories env (Some subRoot) requiredRoot ''/'' st) (\<lambda>(failed, st).
           if failed then Inr (True, request st)
           else Inr (False, (request st)\<lparr>MultiplyUsedObjects :=
                   noteMultiplyUsed (subObjectCacheUsage st) (MultiplyUsedObjects (request st))\<rparr>)))"

declare compareDirectories.simps [simp del] compareNames.simps(2) [simp del]

section \<open>Invariants of the construction\<close>

text \<open>
  What every round of the construction keeps. \<open>At sd rd p\<close> describes the directories that
  are visited together: the one of the sub, the required one, and their pathname. \<open>I\<close> is
  the invariant of the builder and \<open>E\<close> holds of the panics that may happen. The client
  lemma is that the whole comparison keeps the invariant.
\<close>

definition anyMtime :: "regular_inode \<Rightarrow> regular_inode" where
  "anyMtime r = r\<lparr>ri_MtimeNanoSeconds := 0, ri_MtimeSeconds := 0\<rparr>"

lemma anyMtime_setComputedFileMtime [simp]: "anyMtime (setComputedFileMtime n r se) = anyMtime r"
  by (simp add: setComputedFileMtime_def anyMtime_def split: option.splits directory_entry.splits generic_inode.splits)

lemma anyMtime_contents: "anyMtime r' = anyMtime r \<Longrightarrow> ri_Hash r' = ri_Hash r \<and> ri_Size r' = ri_Size r"
  by (cases r; cases r') (simp add: anyMtime_def)

definition replacedBy :: "'re builder \<Rightarrow> string \<Rightarrow> directory_entry \<Rightarrow> directory_entry \<Rightarrow> bool" where
  "replacedBy st pathname e e' \<longleftrightarrow>
     (case inode e of
        Some (ComputedRegularInode c) \<Rightarrow>
          \<exists>r. ComputedInodes st pathname = Some r
            \<and> e' = DirectoryEntry (Name e) (InodeNumber e) (Some (RegularInode r))
      | _ \<Rightarrow> e' = e)"

locale builder_steps =
  fixes env :: build_env
    and At :: "directory_inode option \<Rightarrow> directory_inode \<Rightarrow> string \<Rightarrow> bool"
    and I :: "'re builder \<Rightarrow> bool"
    and E :: "panic \<Rightarrow> bool"
  assumes At_descend:
      "At sd rd p \<Longrightarrow> e \<in> set (sortedEntries rd) \<Longrightarrow> inode e = Some (DirectoryInode d)
        \<Longrightarrow> \<not> filtered env (pathJoin p (Name e))
        \<Longrightarrow> At (subDirectoryOf (lookupEntry sd (Name e))) d (pathJoin p (Name e))"
    and I_delete: "At sd rd p \<Longrightarrow> I st \<Longrightarrow> q \<in> set (deletions env sd rd p) \<Longrightarrow> I (deletePath q st)"
    and I_missing:
      "At sd rd p \<Longrightarrow> I st \<Longrightarrow> e \<in> set (sortedEntries rd) \<Longrightarrow> \<not> filtered env (pathJoin p (Name e))
        \<Longrightarrow> inode e = Some (ComputedRegularInode c) \<Longrightarrow> deleteMissingComputedFiles env
        \<Longrightarrow> lookupEntry sd (Name e) \<noteq> None \<Longrightarrow> I (deletePath (pathJoin p (Name e)) st)"
    and I_mtime:
      "I st \<Longrightarrow> ComputedInodes st q = Some r \<Longrightarrow> anyMtime r' = anyMtime r
        \<Longrightarrow> I (st\<lparr>ComputedInodes := (ComputedInodes st)(q \<mapsto> r')\<rparr>)"
    and I_add:
      "At sd rd p \<Longrightarrow> I st \<Longrightarrow> e \<in> set (sortedEntries rd) \<Longrightarrow> \<not> filtered env (pathJoin p (Name e))
        \<Longrightarrow> replacedBy st (pathJoin p (Name e)) e e'
        \<Longrightarrow> (case addOrCompare env (lookupEntry sd (Name e)) e' (pathJoin p (Name e)) st of
              Inl err \<Rightarrow> E err | Inr st' \<Rightarrow> I st')"
begin


lemma compareComputed_inv:
  assumes "At sd rd p" "I st" "e \<in> set (sortedEntries rd)" "\<not> filtered env (pathJoin p (Name e))"
    and c: "inode e = Some (ComputedRegularInode c)"
  shows "case compareComputed env (lookupEntry sd (Name e)) e (pathJoin p (Name e)) st of
     Inl err \<Rightarrow> E err | Inr (stp, st') \<Rightarrow> I st'"
proof (cases "ComputedInodes st (pathJoin p (Name e))")
  case None
  then show ?thesis using assms I_missing [OF assms(1-5)] by (simp add: compareComputed_def)
next
  case (Some r)
  let ?q = "pathJoin p (Name e)" and ?se = "lookupEntry sd (Name e)"
  let ?r = "setComputedFileMtime (now env) r ?se"
  let ?st = "st\<lparr>ComputedInodes := (ComputedInodes st)(?q \<mapsto> ?r)\<rparr>"
  let ?e = "DirectoryEntry (Name e) (InodeNumber e) (Some (RegularInode ?r))"
  have "I ?st" using I_mtime [OF assms(2) Some, of ?r] by simp
  moreover have "replacedBy ?st ?q e ?e" using c by (simp add: replacedBy_def)
  ultimately have "case addOrCompare env ?se ?e ?q ?st of Inl err \<Rightarrow> E err | Inr st' \<Rightarrow> I st'"
    using I_add assms by blast
  then show ?thesis by (simp add: compareComputed_def Some Let_def bindP_def split: sum.splits)
qed

lemma compareName_inv:
  assumes "At sd rd p" "I st" "e \<in> set (sortedEntries rd)"
  shows "case compareName env sd e p st of Inl err \<Rightarrow> E err | Inr (stp, st') \<Rightarrow> I st'"
proof (cases "filtered env (pathJoin p (Name e))")
  case True
  then show ?thesis using assms by (simp add: compareName_def)
next
  case False
  show ?thesis
  proof (cases "\<exists>c. inode e = Some (ComputedRegularInode c)")
    case True
    then show ?thesis using compareComputed_inv [OF assms False] False
      by (auto simp: compareName_def)
  next
    case no: False
    then have "replacedBy st (pathJoin p (Name e)) e e"
      by (auto simp: replacedBy_def split: option.splits generic_inode.splits)
    from I_add [OF assms False this] show ?thesis using False no
      by (auto simp: compareName_def Let_def bindP_def split: sum.splits option.splits generic_inode.splits)
  qed
qed

lemma compareName_Descend_unfiltered:
  "compareName env sd e p st = Inr (Descend d, st') \<Longrightarrow> \<not> filtered env (pathJoin p (Name e))"
  by (auto simp: compareName_def Let_def)

lemma foldl_deletePath_inv:
  "At sd rd p \<Longrightarrow> I st \<Longrightarrow> set qs \<subseteq> set (deletions env sd rd p)
     \<Longrightarrow> I (foldl (\<lambda>st q. deletePath q st) st qs)"
  by (induction qs arbitrary: st) (simp_all add: I_delete)

lemma compare_inv:
  "At sd rd p \<Longrightarrow> I st \<Longrightarrow> env' = env \<Longrightarrow>
     case compareDirectories env' sd rd p st of Inl err \<Rightarrow> E err | Inr (b, st') \<Rightarrow> I st'"
  "At sd rd' p \<Longrightarrow> set es \<subseteq> set (sortedEntries rd') \<Longrightarrow> I st \<Longrightarrow> env' = env \<Longrightarrow>
     case compareNames env' sd es p st of Inl err \<Rightarrow> E err | Inr (b, st') \<Rightarrow> I st'"
proof (induction env' sd rd p st and env' sd es p st arbitrary: and rd'
    rule: compareDirectories_compareNames.induct)
  case (1 env' sd rd p st)
  then show ?case
    using foldl_deletePath_inv [OF 1(2,3) subset_refl]
    by (simp add: compareDirectories.simps)
next
  case (2 env' sd p st)
  then show ?case by simp
next
  case (3 env' sd e es p st)
  have e: "e \<in> set (sortedEntries rd')" and es: "set es \<subseteq> set (sortedEntries rd')" using 3 by auto
  note cn = compareName_inv [OF 3(4) 3(6) e]
  show ?case
  proof (cases "compareName env sd e p st")
    case (Inl err)
    then show ?thesis using cn 3(7) by (simp add: compareNames.simps(2))
  next
    case (Inr r)
    obtain stp st' where r: "r = (stp, st')" by (cases r)
    have I': "I st'" using cn Inr r by simp
    show ?thesis
    proof (cases stp)
      case Return
      then show ?thesis using Inr r I' 3(7) by (simp add: compareNames.simps(2))
    next
      case Next
      then show ?thesis using Inr r I' 3(7) 3(1) [OF _ _ Next 3(4) es I'] by (simp add: compareNames.simps(2))
    next
      case (Descend d)
      have d: "inode e = Some (DirectoryInode d)" and nf: "\<not> filtered env (pathJoin p (Name e))"
        using Inr r Descend compareName_Descend compareName_Descend_unfiltered by blast+
      note at = At_descend [OF 3(4) e d nf]
      let ?cd = "compareDirectories env (subDirectoryOf (lookupEntry sd (Name e))) d (pathJoin p (Name e)) st'"
      have cd: "case ?cd of Inl err \<Rightarrow> E err | Inr (b, st') \<Rightarrow> I st'"
        using 3(2) [OF _ _ Descend at I' 3(7)] Inr r 3(7) by simp
      show ?thesis
      proof (cases ?cd)
        case (Inl err)
        then show ?thesis using cd \<open>compareName env sd e p st = Inr r\<close> r Descend 3(7)
          by (simp add: compareNames.simps(2))
      next
        case Inr': (Inr q)
        obtain b st'' where q: "q = (b, st'')" by (cases q)
        have I'': "I st''" using cd Inr' q by simp
        show ?thesis using 3(3) [OF _ _ Descend _ _ 3(4) es I''] Inr r Inr' q Descend 3(7)
          by (simp add: compareNames.simps(2))
      qed
    qed
  qed
qed
end

end
