(* ===== verification/Update_Safety.thy ===== *)
theory Update_Safety
  imports Update_Request
begin

text \<open>
  What an update request may contain: which pathnames it names, what it deletes, and how
  often it uses an object. Each property is an invariant of the construction, an
  interpretation of \<open>builder_steps\<close>.
\<close>

section \<open>What comparing one entry adds to the request\<close>

definition extends :: "string \<Rightarrow> 're builder \<Rightarrow> 're builder \<Rightarrow> bool" where
  "extends q st st' \<longleftrightarrow>
     (\<exists>files dirs makes links changes.
        request st' = (request st)
          \<lparr>FilesToCopyToCache := FilesToCopyToCache (request st) @ files,
           DirectoriesToMake := DirectoriesToMake (request st) @ dirs,
           InodesToMake := InodesToMake (request st) @ makes,
           HardlinksToMake := HardlinksToMake (request st) @ links,
           InodesToChange := InodesToChange (request st) @ changes\<rparr>
        \<and> (\<forall>n \<in> set (dirs @ makes @ changes). ni_Name n = q) \<and> (\<forall>l \<in> set links. NewLink l = q))
     \<and> ComputedInodes st' = ComputedInodes st"

lemma extendsI:
  "request st' = (request st)
          \<lparr>FilesToCopyToCache := FilesToCopyToCache (request st) @ files,
           DirectoriesToMake := DirectoriesToMake (request st) @ dirs,
           InodesToMake := InodesToMake (request st) @ makes,
           HardlinksToMake := HardlinksToMake (request st) @ links,
           InodesToChange := InodesToChange (request st) @ changes\<rparr>
   \<Longrightarrow> \<forall>n \<in> set (dirs @ makes @ changes). ni_Name n = q \<Longrightarrow> \<forall>l \<in> set links. NewLink l = q
   \<Longrightarrow> ComputedInodes st' = ComputedInodes st \<Longrightarrow> extends q st st'"
  unfolding extends_def by blast

lemma extends_none: "request st' = request st \<Longrightarrow> ComputedInodes st' = ComputedInodes st \<Longrightarrow> extends q st st'"
  by (rule extendsI [where files = "[]" and dirs = "[]" and makes = "[]" and links = "[]" and changes = "[]"])
     simp_all

lemma extends_refl [simp]: "extends q st st"
  by (rule extends_none) simp_all

lemma extends_one:
  "request st' = (request st)\<lparr>FilesToCopyToCache := FilesToCopyToCache (request st) @ [f]\<rparr>
     \<Longrightarrow> ComputedInodes st' = ComputedInodes st \<Longrightarrow> extends q st st'"
  "request st' = (request st)\<lparr>DirectoriesToMake := DirectoriesToMake (request st) @ [n]\<rparr> \<Longrightarrow> ni_Name n = q
     \<Longrightarrow> ComputedInodes st' = ComputedInodes st \<Longrightarrow> extends q st st'"
  "request st' = (request st)\<lparr>InodesToMake := InodesToMake (request st) @ [n]\<rparr> \<Longrightarrow> ni_Name n = q
     \<Longrightarrow> ComputedInodes st' = ComputedInodes st \<Longrightarrow> extends q st st'"
  "request st' = (request st)\<lparr>InodesToChange := InodesToChange (request st) @ [n]\<rparr> \<Longrightarrow> ni_Name n = q
     \<Longrightarrow> ComputedInodes st' = ComputedInodes st \<Longrightarrow> extends q st st'"
  "request st' = (request st)\<lparr>HardlinksToMake := HardlinksToMake (request st) @ [l]\<rparr> \<Longrightarrow> NewLink l = q
     \<Longrightarrow> ComputedInodes st' = ComputedInodes st \<Longrightarrow> extends q st st'"
  subgoal
    by (rule extendsI [where files = "[f]" and dirs = "[]" and makes = "[]" and links = "[]" and changes = "[]"])
       simp_all
  subgoal
    by (rule extendsI [where files = "[]" and dirs = "[n]" and makes = "[]" and links = "[]" and changes = "[]"])
       simp_all
  subgoal
    by (rule extendsI [where files = "[]" and dirs = "[]" and makes = "[n]" and links = "[]" and changes = "[]"])
       simp_all
  subgoal
    by (rule extendsI [where files = "[]" and dirs = "[]" and makes = "[]" and links = "[]" and changes = "[n]"])
       simp_all
  subgoal
    by (rule extendsI [where files = "[]" and dirs = "[]" and makes = "[]" and links = "[l]" and changes = "[]"])
       simp_all
  done

lemma extends_trans:
  assumes "extends q a b" "extends q b c"
  shows "extends q a c"
proof -
  from assms obtain f1 d1 m1 l1 c1 f2 d2 m2 l2 c2 where
    "request b = (request a)
       \<lparr>FilesToCopyToCache := FilesToCopyToCache (request a) @ f1,
        DirectoriesToMake := DirectoriesToMake (request a) @ d1,
        InodesToMake := InodesToMake (request a) @ m1,
        HardlinksToMake := HardlinksToMake (request a) @ l1,
        InodesToChange := InodesToChange (request a) @ c1\<rparr>"
    "request c = (request b)
       \<lparr>FilesToCopyToCache := FilesToCopyToCache (request b) @ f2,
        DirectoriesToMake := DirectoriesToMake (request b) @ d2,
        InodesToMake := InodesToMake (request b) @ m2,
        HardlinksToMake := HardlinksToMake (request b) @ l2,
        InodesToChange := InodesToChange (request b) @ c2\<rparr>"
    "\<forall>n \<in> set (d1 @ m1 @ c1). ni_Name n = q" "\<forall>l \<in> set l1. NewLink l = q"
    "\<forall>n \<in> set (d2 @ m2 @ c2). ni_Name n = q" "\<forall>l \<in> set l2. NewLink l = q"
    "ComputedInodes b = ComputedInodes a" "ComputedInodes c = ComputedInodes b"
    unfolding extends_def by blast
  then show ?thesis
    by (intro extendsI [where files = "f1 @ f2" and dirs = "d1 @ d2" and makes = "m1 @ m2" and links = "l1 @ l2" and changes = "c1 @ c2"]) auto
qed

lemma extends_makeDirectory: "extends q st (makeDirectory d q create st)"
  by (cases create) (auto simp: makeDirectory_def Let_def intro: extends_one(2,4))

lemma extends_makeHardlink: "extends q st (makeHardlink q t st)"
  by (rule extends_one(5)) (simp add: makeHardlink_def)+

lemma extends_useObject: "useObject env ino q st = Inr st' \<Longrightarrow> extends q st st'"
  by (auto simp: useObject_def intro: extends_none extends_one(1)
      split: generic_inode.splits if_splits option.splits)

lemma extends_make:
  "extends q st (st\<lparr>request := (request st)\<lparr>InodesToMake := InodesToMake (request st) @ [\<lparr>ni_Name = q, ni_Inode = ino\<rparr>]\<rparr>,
      inodesCreated := m\<rparr>)"
  by (rule extends_one(3)) simp+

lemma extends_addInode: "addInode env e q st = Inr st' \<Longrightarrow> extends q st st'"
  by (auto simp: addInode_def Let_def extends_makeHardlink
      intro: extends_trans [OF extends_useObject extends_make]
      split: option.splits)

lemma extends_addEntry: "addEntry env e q st = Inr st' \<Longrightarrow> extends q st st'"
  by (auto simp: addEntry_def extends_makeDirectory extends_addInode split: option.splits generic_inode.splits)

lemma extends_relink: "relink env se e q st = Inr (b, st') \<Longrightarrow> extends q st st'"
  by (auto simp: relink_def extends_makeHardlink split: option.splits if_splits intro: extends_none)

lemma extends_updateMetadata: "updateMetadata e q st = Inr st' \<Longrightarrow> extends q st st'"
  by (auto simp: updateMetadata_def split: option.splits if_splits intro: extends_one(4))

lemma extends_compareEntries: "compareEntries env se e q st = Inr st' \<Longrightarrow> extends q st st'"
  by (auto simp: compareEntries_def extends_makeDirectory
      intro: extends_addInode extends_relink extends_trans [OF extends_relink extends_updateMetadata]
        extends_trans [OF extends_relink extends_addInode]
      split: prod.splits option.splits generic_inode.splits if_splits)

lemma extends_addOrCompare: "addOrCompare env se e q st = Inr st' \<Longrightarrow> extends q st st'"
  by (auto simp: addOrCompare_def extends_addEntry extends_compareEntries split: option.splits)

section \<open>The directories that are compared\<close>

inductive visited :: "build_env \<Rightarrow> directory_inode option \<Rightarrow> directory_inode \<Rightarrow> string \<Rightarrow> bool"
  for env :: build_env where
  root: "visited env (Some (fs_root (subFS env))) (fs_root (requiredFS env)) ''/''"
| descend: "visited env sd rd p \<Longrightarrow> e \<in> set (sortedEntries rd) \<Longrightarrow> inode e = Some (DirectoryInode d)
    \<Longrightarrow> \<not> filtered env (pathJoin p (Name e))
    \<Longrightarrow> visited env (subDirectoryOf (lookupEntry sd (Name e))) d (pathJoin p (Name e))"

definition namesIn :: "'re update_request \<Rightarrow> string set" where
  "namesIn r = ni_Name ` set (DirectoriesToMake r @ InodesToMake r @ InodesToChange r)
     \<union> NewLink ` set (HardlinksToMake r) \<union> set (PathsToDelete r)"

definition noActions :: "'re update_request \<Rightarrow> bool" where
  "noActions r \<longleftrightarrow> FilesToCopyToCache r = [] \<and> DirectoriesToMake r = [] \<and> InodesToMake r = []
     \<and> HardlinksToMake r = [] \<and> PathsToDelete r = [] \<and> InodesToChange r = []
     \<and> MultiplyUsedObjects r = []"

lemma extends_namesIn: "extends q st st' \<Longrightarrow> namesIn (request st') \<subseteq> insert q (namesIn (request st))"
  by (auto simp: extends_def namesIn_def)

lemma extends_keeps:
  "extends q st st' \<Longrightarrow> PathsToDelete (request st') = PathsToDelete (request st)"
  "extends q st st' \<Longrightarrow> MultiplyUsedObjects (request st') = MultiplyUsedObjects (request st)"
  by (auto simp: extends_def)

lemma namesIn_simps [simp]:
  "namesIn (request (deletePath q st)) = insert q (namesIn (request st))"
  "namesIn (request (st\<lparr>ComputedInodes := m\<rparr>)) = namesIn (request st)"
  "namesIn (r\<lparr>MultiplyUsedObjects := u\<rparr>) = namesIn r"
  by (auto simp: namesIn_def deletePath_def)

section \<open>The pathnames of a request\<close>

definition namesVisited :: "build_env \<Rightarrow> 're builder \<Rightarrow> bool" where
  "namesVisited env st \<longleftrightarrow>
     (\<forall>q \<in> namesIn (request st). q = ''/''
        \<or> (\<exists>sd rd p name. visited env sd rd p \<and> q = pathJoin p name \<and> \<not> filtered env q))"

lemma deletions_iff:
  "q \<in> set (deletions env sd rd p) \<longleftrightarrow>
     be_filter env \<noteq> None
     \<and> (\<exists>d name. sd = Some d \<and> q = pathJoin p name \<and> name \<in> fst ` set (entriesByName (EntryList d))
          \<and> \<not> filtered env q \<and> map_of (entriesByName (EntryList rd)) name = None)"
proof (cases sd)
  case (Some d)
  then show ?thesis by (auto simp: deletions_def image_iff Bex_def)
qed (simp add: deletions_def)

lemma namesVisited_add:
  assumes "namesVisited env st" "visited env sd rd p" "\<not> filtered env (pathJoin p name)"
    and sub: "namesIn (request st') \<subseteq> insert (pathJoin p name) (namesIn (request st))"
  shows "namesVisited env st'"
  unfolding namesVisited_def
proof
  fix q
  assume "q \<in> namesIn (request st')"
  with sub consider "q = pathJoin p name" | "q \<in> namesIn (request st)" by auto
  then show "q = ''/'' \<or> (\<exists>sd rd p name. visited env sd rd p \<and> q = pathJoin p name \<and> \<not> filtered env q)"
  proof cases
    case 1
    with assms(2,3) show ?thesis by (intro disjI2 exI [of _ sd] exI [of _ rd] exI [of _ p] exI [of _ name]) simp
  next
    case 2
    with assms(1) show ?thesis unfolding namesVisited_def by (rule bspec)
  qed
qed

interpretation names: builder_steps env "visited env" "namesVisited env" "\<lambda>_. True" for env
proof (unfold_locales, goal_cases)
  case (1 sd rd p e d)
  then show ?case by (rule visited.descend)
next
  case (2 sd rd p st q)
  then obtain name where "q = pathJoin p name" "\<not> filtered env q" by (auto simp: deletions_iff)
  then show ?case using 2(1,2) by (auto intro: namesVisited_add [of env st sd rd p name])
next
  case (3 sd rd p st e c)
  then show ?case by (auto intro: namesVisited_add [of env st sd rd p "Name e"])
next
  case (4 st q r r')
  then show ?case by (simp add: namesVisited_def)
next
  case (5 sd rd p st e e')
  show ?case
  proof (cases "addOrCompare env (lookupEntry sd (Name e)) e' (pathJoin p (Name e)) st")
    case (Inr st')
    then show ?thesis
      using namesVisited_add [OF 5(2,1,4) extends_namesIn [OF extends_addOrCompare [OF Inr]]] by simp
  qed simp
qed

section \<open>Deletions\<close>

definition deletionsJustified :: "build_env \<Rightarrow> 're builder \<Rightarrow> bool" where
  "deletionsJustified env st \<longleftrightarrow>
     (\<forall>q \<in> set (PathsToDelete (request st)).
        \<exists>d rd p name. visited env (Some d) rd p \<and> q = pathJoin p name \<and> \<not> filtered env q
          \<and> lookupEntry (Some d) name \<noteq> None
          \<and> (be_filter env \<noteq> None \<and> lookupEntry (Some rd) name = None
             \<or> deleteMissingComputedFiles env
               \<and> (\<exists>e c. e \<in> set (sortedEntries rd) \<and> Name e = name \<and> inode e = Some (ComputedRegularInode c))))"

lemma deletionsJustified_add:
  assumes "deletionsJustified env st" and "visited env (Some d) rd p" "q = pathJoin p name" "\<not> filtered env q"
    and "lookupEntry (Some d) name \<noteq> None"
    and "be_filter env \<noteq> None \<and> lookupEntry (Some rd) name = None
             \<or> deleteMissingComputedFiles env
               \<and> (\<exists>e c. e \<in> set (sortedEntries rd) \<and> Name e = name \<and> inode e = Some (ComputedRegularInode c))"
  shows "deletionsJustified env (deletePath q st)"
  unfolding deletionsJustified_def
proof
  let ?J = "\<lambda>r. \<exists>d rd p name. visited env (Some d) rd p \<and> r = pathJoin p name \<and> \<not> filtered env r
          \<and> lookupEntry (Some d) name \<noteq> None
          \<and> (be_filter env \<noteq> None \<and> lookupEntry (Some rd) name = None
             \<or> deleteMissingComputedFiles env
               \<and> (\<exists>e c. e \<in> set (sortedEntries rd) \<and> Name e = name \<and> inode e = Some (ComputedRegularInode c)))"
  fix r
  assume "r \<in> set (PathsToDelete (request (deletePath q st)))"
  then consider "r = q" | "r \<in> set (PathsToDelete (request st))" by (auto simp: deletePath_def)
  then show "?J r"
  proof cases
    case 1
    with assms(2-6) show ?thesis
      by (intro exI [of _ d] exI [of _ rd] exI [of _ p] exI [of _ name]) simp
  next
    case 2
    with assms(1) show ?thesis unfolding deletionsJustified_def by (rule bspec)
  qed
qed

interpretation dels: builder_steps env "visited env" "deletionsJustified env" "\<lambda>_. True" for env
proof (unfold_locales, goal_cases)
  case (1 sd rd p e d)
  then show ?case by (rule visited.descend)
next
  case (2 sd rd p st q)
  then obtain d name where d: "sd = Some d" and q: "q = pathJoin p name" "\<not> filtered env q"
    and n: "name \<in> fst ` set (entriesByName (EntryList d))"
      "map_of (entriesByName (EntryList rd)) name = None" "be_filter env \<noteq> None"
    by (auto simp: deletions_iff)
  have "lookupEntry (Some d) name \<noteq> None" using n(1) by (auto simp: lookupEntry_def map_of_eq_None_iff)
  moreover have "lookupEntry (Some rd) name = None" using n(2) by (simp add: lookupEntry_def)
  ultimately have "deletionsJustified env (deletePath q st)"
    using 2(1,2) d q n(3) by - (rule deletionsJustified_add [of env st d rd p q name], simp_all)
  then show ?case .
next
  case (3 sd rd p st e c)
  then obtain d where "sd = Some d" by (cases sd) (auto simp: lookupEntry_def)
  with 3 show ?case by - (rule deletionsJustified_add [of env st d rd p _ "Name e"], auto)
next
  case (4 st q r r')
  then show ?case by (simp add: deletionsJustified_def)
next
  case (5 sd rd p st e e')
  then show ?case
    by (auto simp: deletionsJustified_def split: sum.splits dest!: extends_addOrCompare extends_keeps(1))
qed

section \<open>Use of objects\<close>

definition usesObject :: "hash \<Rightarrow> generic_inode \<Rightarrow> bool" where
  "usesObject h ino = (case ino of RegularInode r \<Rightarrow> ri_Size r > 0 \<and> ri_Hash r = h | _ \<Rightarrow> False)"

definition uses :: "hash \<Rightarrow> named_inode list \<Rightarrow> nat" where
  "uses h ns = length (filter (\<lambda>n. usesObject h (ni_Inode n)) ns)"

definition usageOk :: "hash set \<Rightarrow> 're builder \<Rightarrow> bool" where
  "usageOk cache st \<longleftrightarrow>
     (let usage = subObjectCacheUsage st; makes = InodesToMake (request st);
          copied = map fc_Hash (FilesToCopyToCache (request st))
      in MultiplyUsedObjects (request st) = []
       \<and> distinct (map fst usage) \<and> distinct copied \<and> set copied \<inter> cache = {}
       \<and> (\<forall>h. map_of usage h =
            (if h \<in> cache \<union> set copied then Some (of_nat (uses h makes)) else None))
       \<and> (\<forall>h. h \<notin> cache \<union> set copied \<longrightarrow> uses h makes = 0))"

definition usageView :: "'re builder \<Rightarrow> (hash \<times> u64) list \<times> named_inode list \<times> file_to_copy list \<times> (hash \<times> u64) list" where
  "usageView st = (subObjectCacheUsage st, InodesToMake (request st), FilesToCopyToCache (request st),
     MultiplyUsedObjects (request st))"

lemma usageOk_view: "usageView st' = usageView st \<Longrightarrow> usageOk cache st \<Longrightarrow> usageOk cache st'"
  by (simp add: usageOk_def usageView_def)

lemma usageView_makeDirectory [simp]: "usageView (makeDirectory d q c st) = usageView st"
  by (simp add: usageView_def makeDirectory_def Let_def)

lemma usageView_makeHardlink [simp]: "usageView (makeHardlink q t st) = usageView st"
  by (simp add: usageView_def makeHardlink_def)

lemma usageView_deletePath [simp]: "usageView (deletePath q st) = usageView st"
  by (simp add: usageView_def deletePath_def)

lemma usageView_relink: "relink env se e q st = Inr (b, st') \<Longrightarrow> usageView st' = usageView st"
  by (auto simp: relink_def split: option.splits if_splits) (auto simp: usageView_def)

lemma usageView_updateMetadata: "updateMetadata e q st = Inr st' \<Longrightarrow> usageView st' = usageView st"
  by (auto simp: updateMetadata_def split: option.splits if_splits) (auto simp: usageView_def)

lemma getFileToCopy_hash: "getFileToCopy env q h = Inr f \<Longrightarrow> fc_Hash f = h"
  by (auto simp: getFileToCopy_def split: option.splits)

definition makeInode :: "u64 \<Rightarrow> string \<Rightarrow> generic_inode \<Rightarrow> 're builder \<Rightarrow> 're builder" where
  "makeInode i q ino st =
     st\<lparr>request := (request st)\<lparr>InodesToMake := InodesToMake (request st) @ [\<lparr>ni_Name = q, ni_Inode = ino\<rparr>]\<rparr>,
        inodesCreated := (inodesCreated st)(i \<mapsto> q)\<rparr>"

lemma addInode_cases:
  assumes "addInode env e q st = Inr st'"
  obtains t where "st' = makeHardlink q t st"
    | ino st1 where "inode e = Some ino" "useObject env ino q st = Inr st1" "st' = makeInode (InodeNumber e) q ino st1"
  using assms by (auto simp: addInode_def Let_def makeInode_def split: option.splits)

lemma usageOk_useObject:
  assumes ok: "usageOk cache st" and u: "useObject env ino q st = Inr st1"
  shows "usageOk cache (makeInode i q ino st1)"
proof (cases "\<exists>r. ino = RegularInode r \<and> ri_Size r > 0")
  case False
  then have "st1 = st" using u by (auto simp: useObject_def split: generic_inode.splits if_splits)
  moreover have "\<not> usesObject h ino" for h
    using False by (auto simp: usesObject_def split: generic_inode.splits)
  ultimately show ?thesis using ok by (simp add: usageOk_def makeInode_def uses_def Let_def)
next
  case True
  then obtain r where r: "ino = RegularInode r" "ri_Size r > 0" by auto
  have uses: "usesObject h ino \<longleftrightarrow> h = ri_Hash r" for h using r by (auto simp: usesObject_def)
  show ?thesis
  proof (cases "map_of (subObjectCacheUsage st) (ri_Hash r)")
    case (Some old)
    then have "st1 = st\<lparr>subObjectCacheUsage := putTable (ri_Hash r) (old + 1) (subObjectCacheUsage st)\<rparr>"
      using u r by (simp add: useObject_def)
    moreover have "ri_Hash r \<in> cache \<union> fc_Hash ` set (FilesToCopyToCache (request st))"
      "old = of_nat (uses (ri_Hash r) (InodesToMake (request st)))"
      using ok Some by (auto simp: usageOk_def Let_def split: if_splits)
    ultimately show ?thesis using ok
      by (auto simp: usageOk_def makeInode_def Let_def map_of_putTable uses_def uses)
  next
    case None
    then obtain f where f: "getFileToCopy env q (ri_Hash r) = Inr f"
      and st1: "st1 = st\<lparr>request := (request st)\<lparr>FilesToCopyToCache := FilesToCopyToCache (request st) @ [f]\<rparr>,
          subObjectCacheUsage := putTable (ri_Hash r) 1 (subObjectCacheUsage st)\<rparr>"
      using u r by (auto simp: useObject_def)
    have "ri_Hash r \<notin> cache \<union> fc_Hash ` set (FilesToCopyToCache (request st))"
      using ok None by (auto simp: usageOk_def Let_def split: if_splits)
    then show ?thesis using ok getFileToCopy_hash [OF f] unfolding st1
      by (auto simp: usageOk_def makeInode_def Let_def map_of_putTable uses_def uses)
  qed
qed

lemma usageOk_addInode: "usageOk cache st \<Longrightarrow> addInode env e q st = Inr st' \<Longrightarrow> usageOk cache st'"
  by (elim addInode_cases) (auto intro: usageOk_view usageOk_useObject)

lemma usageOk_compareEntries:
  "usageOk cache st \<Longrightarrow> compareEntries env se e q st = Inr st' \<Longrightarrow> usageOk cache st'"
  by (auto simp: compareEntries_def
      split: prod.splits option.splits generic_inode.splits if_splits
      dest!: usageView_relink usageView_updateMetadata
      elim: usageOk_addInode [rotated] intro: usageOk_view usageOk_addInode)

lemma usageOk_addOrCompare:
  "usageOk cache st \<Longrightarrow> addOrCompare env se e q st = Inr st' \<Longrightarrow> usageOk cache st'"
  by (auto simp: addOrCompare_def addEntry_def
      split: option.splits generic_inode.splits
      intro: usageOk_view usageOk_addInode usageOk_compareEntries)

interpretation usage: builder_steps env "visited env" "usageOk cache" "\<lambda>_. True" for env cache
proof (unfold_locales, goal_cases)
  case (1 sd rd p e d)
  then show ?case by (rule visited.descend)
next
  case (2 sd rd p st q)
  then show ?case by (auto intro: usageOk_view)
next
  case (3 sd rd p st e c)
  then show ?case by (auto intro: usageOk_view)
next
  case (4 st q r r')
  then show ?case by (auto intro: usageOk_view simp: usageView_def)
next
  case (5 sd rd p st e e')
  then show ?case by (auto split: sum.splits intro: usageOk_addOrCompare)
qed

section \<open>The whole construction\<close>

definition rootBuilder :: "sub \<Rightarrow> 're image \<Rightarrow> 're update_request \<Rightarrow> 're builder" where
  "rootBuilder s img req =
     (if \<not> compareDirectoriesMetadata (fs_root (sub_FileSystem s)) (fs_root (img_FileSystem img))
      then makeDirectory (fs_root (img_FileSystem img)) ''/'' False (startBuilder s img req)
      else startBuilder s img req)"

lemma buildUpdateRequest_Inr:
  assumes "buildUpdateRequest n s img req dm im = Inr (failed, req')"
  obtains st where
    "compareDirectories (buildEnv n s img dm im) (Some (fs_root (sub_FileSystem s)))
       (fs_root (img_FileSystem img)) ''/'' (rootBuilder s img req) = Inr (failed, st)"
    "req' = (if failed then request st
             else (request st)\<lparr>MultiplyUsedObjects :=
               noteMultiplyUsed (subObjectCacheUsage st) (MultiplyUsedObjects (request st))\<rparr>)"
  using assms
  by (auto simp: buildUpdateRequest_def Let_def rootBuilder_def split: if_splits)

lemma visited_root:
  "visited (buildEnv n s img dm im) (Some (fs_root (sub_FileSystem s))) (fs_root (img_FileSystem img)) ''/''"
  using visited.root [of "buildEnv n s img dm im"] by (simp add: buildEnv_def)

lemma startBuilder_request:
  "noActions req \<Longrightarrow> namesIn (request (rootBuilder s img req)) \<subseteq> {''/''}"
  "noActions req \<Longrightarrow> PathsToDelete (request (rootBuilder s img req)) = []"
  by (auto simp: rootBuilder_def noActions_def namesIn_def startBuilder_def makeDirectory_def Let_def)

lemma distinct_startUsage:
  "distinct (map fst t) \<Longrightarrow> distinct (map fst (foldl (\<lambda>t h. putTable h 0 t) t hs))"
  by (induction hs arbitrary: t) auto

lemma map_of_startUsage:
  "map_of (foldl (\<lambda>t h. putTable h 0 t) t hs) h = (if h \<in> set hs then Some 0 else map_of t h)"
  by (induction hs arbitrary: t) (auto simp: map_of_putTable)

lemma usageOk_start:
  assumes "noActions req"
  shows "usageOk (set (sub_ObjectCache s)) (rootBuilder s img req)"
proof -
  have "usageOk (set (sub_ObjectCache s)) (startBuilder s img req)"
    using assms
    by (simp add: usageOk_def startBuilder_def noActions_def Let_def distinct_startUsage
        map_of_startUsage uses_def)
  then show ?thesis by (auto simp: rootBuilder_def intro: usageOk_view)
qed

lemma map_of_noteMultiplyUsed:
  "distinct (map fst usage) \<Longrightarrow>
     map_of (noteMultiplyUsed usage m) h =
       (case map_of usage h of
          Some c \<Rightarrow> if c > 1 then Some c else map_of m h
        | None \<Rightarrow> map_of m h)"
proof (induction usage arbitrary: m)
  case (Cons e usage)
  have "noteMultiplyUsed (e # usage) m =
      noteMultiplyUsed usage (if snd e > 1 then putTable (fst e) (snd e) m else m)"
    by (simp add: noteMultiplyUsed_def)
  moreover have "map_of usage (fst e) = None" using Cons.prems by (simp add: map_of_eq_None_iff)
  ultimately show ?case using Cons
    by (cases "h = fst e"; cases "map_of usage h") (simp_all add: map_of_putTable)
qed (simp add: noteMultiplyUsed_def)

section \<open>An example\<close>

definition emptyRequest :: "'re update_request" where
  "emptyRequest =
     \<lparr>ForceDisruption = False, ImageName = '''', SparseImage = False, Wait = False,
      FilesToCopyToCache = [], DirectoriesToMake = [], InodesToMake = [], HardlinksToMake = [],
      PathsToDelete = [], InodesToChange = [], MultiplyUsedObjects = [], request_Triggers = None\<rparr>"

definition exampleFile :: regular_inode where
  "exampleFile =
     \<lparr>ri_Mode = 0x81A4, ri_Uid = 0, ri_Gid = 0, ri_MtimeNanoSeconds = 0, ri_MtimeSeconds = 1,
      ri_Size = 3, ri_Hash = [7]\<rparr>"

definition exampleSub :: sub where
  "exampleSub =
     \<lparr>sub_FileSystem =
        \<lparr>InodeTable = [(5, Some (SymlinkInode \<lparr>si_Uid = 0, si_Gid = 0, si_Symlink = ''x''\<rparr>))],
         NumRegularInodes = 0, TotalDataBytes = 0, DirectoryCount = 1,
         fs_root = Directory [DirectoryEntry ''old'' 5
           (Some (SymlinkInode \<lparr>si_Uid = 0, si_Gid = 0, si_Symlink = ''x''\<rparr>))] 0 0 0\<rparr>,
      sub_ObjectCache = [[7]], sub_ComputedInodes = Map.empty\<rparr>"

definition exampleRequired :: "unit image" where
  "exampleRequired =
     \<lparr>img_Filter = Some (\<lambda>_. False),
      img_FileSystem =
        \<lparr>InodeTable = [(9, Some (RegularInode exampleFile))],
         NumRegularInodes = 1, TotalDataBytes = 3, DirectoryCount = 1,
         fs_root = Directory [DirectoryEntry ''new'' 9 (Some (RegularInode exampleFile))] 0 0 0\<rparr>,
      img_Triggers = None\<rparr>"

lemmas evaluate_build =
  buildUpdateRequest_def Let_def buildEnv_def startBuilder_def
  compareDirectoriesMetadata_def compareDirectories.simps compareNames.simps sortedEntries_def
  entriesByName_def deletions_def filtered_def pathJoin_def pathClean_def cleanStep_def deletePath_def
  compareName_def lookupEntry_def addOrCompare_def addEntry_def addInode_def useObject_def
  InodeToFilenamesTable_def indexTable_def noteMultiplyUsed_def

lemma exampleRun:
  "buildUpdateRequest 0 exampleSub exampleRequired emptyRequest False False =
     Inr (False, emptyRequest\<lparr>PathsToDelete := [''/old''],
       InodesToMake := [\<lparr>ni_Name = ''/new'', ni_Inode = RegularInode exampleFile\<rparr>]\<rparr>)"
  by (simp add: evaluate_build exampleSub_def exampleRequired_def exampleFile_def emptyRequest_def)

lemma noActions_emptyRequest [simp]: "noActions emptyRequest"
  by (simp add: noActions_def emptyRequest_def)

lemma distinct_noteMultiplyUsed:
  "distinct (map fst m) \<Longrightarrow> distinct (map fst (noteMultiplyUsed usage m))"
  unfolding noteMultiplyUsed_def by (induction usage arbitrary: m) auto

lemma request_objects:
  assumes "buildUpdateRequest n s img req dm im = Inr (False, req')" and "noActions req"
    and "length (InodesToMake req') < 2 ^ 64"
  shows "distinct (map fst (MultiplyUsedObjects req'))
    \<and> distinct (map fc_Hash (FilesToCopyToCache req'))
    \<and> fc_Hash ` set (FilesToCopyToCache req') \<inter> set (sub_ObjectCache s) = {}
    \<and> (\<forall>h. uses h (InodesToMake req') > 0 \<longrightarrow>
          h \<in> set (sub_ObjectCache s) \<union> fc_Hash ` set (FilesToCopyToCache req'))
    \<and> (\<forall>h. map_of (MultiplyUsedObjects req') h =
          (if uses h (InodesToMake req') > 1 then Some (of_nat (uses h (InodesToMake req'))) else None))"
proof -
  let ?env = "buildEnv n s img dm im" and ?cache = "set (sub_ObjectCache s)"
  obtain st where st: "compareDirectories ?env (Some (fs_root (sub_FileSystem s)))
       (fs_root (img_FileSystem img)) ''/'' (rootBuilder s img req) = Inr (False, st)"
    and req': "req' = (request st)\<lparr>MultiplyUsedObjects :=
       noteMultiplyUsed (subObjectCacheUsage st) (MultiplyUsedObjects (request st))\<rparr>"
    using assms(1) by (rule buildUpdateRequest_Inr) simp
  from usage.compare_inv(1) [OF visited_root [of n s img dm im] usageOk_start [OF assms(2), of s img] refl] st
  have ok: "usageOk ?cache st" by simp
  have small: "unat (of_nat (uses h (InodesToMake (request st))) :: u64) = uses h (InodesToMake (request st))" for h
  proof -
    have "uses h (InodesToMake (request st)) \<le> length (InodesToMake (request st))"
      by (simp add: uses_def)
    with assms(3) show ?thesis by (simp add: req' unat_of_nat)
  qed
  have "map_of (MultiplyUsedObjects req') h =
      (if uses h (InodesToMake req') > 1 then Some (of_nat (uses h (InodesToMake req'))) else None)" for h
    using ok small [of h]
    by (auto simp: req' map_of_noteMultiplyUsed usageOk_def Let_def word_less_nat_alt)
  moreover have "distinct (map fst (MultiplyUsedObjects req'))"
    using ok by (simp add: req' distinct_noteMultiplyUsed usageOk_def Let_def)
  ultimately show ?thesis using ok by (auto simp: usageOk_def Let_def req')
qed

section \<open>Properties\<close>





text \<open>
  C11. The objects an update needs: every object that an inode to make uses is in the cache
  of the sub or is copied into it, nothing is copied twice or without need, and the
  multiply used objects are exactly those used more than once, with the number of uses.
\<close>

theorem update_request_objects:
  assumes "buildUpdateRequest n s img req dm im = Inr (False, req')" and "noActions req"
    and "length (InodesToMake req') < 2 ^ 64"
  shows "distinct (map fc_Hash (FilesToCopyToCache req'))
    \<and> fc_Hash ` set (FilesToCopyToCache req') \<inter> set (sub_ObjectCache s) = {}
    \<and> (\<forall>h. uses h (InodesToMake req') > 0 \<longrightarrow>
          h \<in> set (sub_ObjectCache s) \<union> fc_Hash ` set (FilesToCopyToCache req'))
    \<and> (\<forall>h. map_of (MultiplyUsedObjects req') h =
          (if uses h (InodesToMake req') > 1 then Some (of_nat (uses h (InodesToMake req'))) else None))"
  using request_objects [OF assms] by blast

theorem update_request_objects_witness:
  "[7] \<in> set (sub_ObjectCache exampleSub) \<union> fc_Hash ` set (FilesToCopyToCache
     ((emptyRequest :: unit update_request)\<lparr>PathsToDelete := [''/old''],
       InodesToMake := [\<lparr>ni_Name = ''/new'', ni_Inode = RegularInode exampleFile\<rparr>]\<rparr>))"
proof -
  have "uses [7] [\<lparr>ni_Name = ''/new'', ni_Inode = RegularInode exampleFile\<rparr>] > 0"
    by (simp add: uses_def usesObject_def exampleFile_def)
  then show ?thesis using update_request_objects [OF exampleRun noActions_emptyRequest] by simp
qed

end
