(* ===== verification/Os_Files.thy ===== *)
theory Os_Files
  imports Update_Request
begin

text \<open>
  Files on disk: the forced operations of \<^verbatim>\<open>lib/fsutil/force.go\<close>, copying into a file of
  \<^verbatim>\<open>lib/fsutil/copy.go\<close> and writing inodes of \<^verbatim>\<open>lib/filesystem/write.go\<close>. The operating
  system is a parameter: a record of its operations on a world. Every operation may fail,
  at any time and for any reason, and may change the world even then.
\<close>

unbundle bit_operations_syntax

section \<open>Errors and operations of the operating system\<close>

datatype errno = EPERM | EEXIST | ENOENT | EISDIR | OtherErrno nat

datatype os_error =
    PathError errno
  | LinkError errno
  | SyscallErrno errno
  | TextError string

fun errnoOf :: "os_error \<Rightarrow> errno option" where
  "errnoOf (PathError e) = Some e"
| "errnoOf (LinkError e) = Some e"
| "errnoOf (SyscallErrno e) = Some e"
| "errnoOf (TextError _) = None"

definition IsPermission :: "os_error \<Rightarrow> bool" where
  "IsPermission e \<longleftrightarrow> errnoOf e = Some EPERM"

definition IsExist :: "os_error \<Rightarrow> bool" where
  "IsExist e \<longleftrightarrow> errnoOf e = Some EEXIST"

definition IsNotExist :: "os_error \<Rightarrow> bool" where
  "IsNotExist e \<longleftrightarrow> errnoOf e = Some ENOENT"

type_synonym 'w op = "'w \<Rightarrow> os_error option \<times> 'w"

record stat =
  st_Mode :: u32
  st_Uid :: u32
  st_Gid :: u32
  st_MtimSec :: int
  st_MtimNsec :: int
  st_Size :: u64
  st_Rdev :: u64

record 'w os =
  os_Link :: "string \<Rightarrow> string \<Rightarrow> 'w op"
  os_Rename :: "string \<Rightarrow> string \<Rightarrow> 'w op"
  os_Remove :: "string \<Rightarrow> 'w op"
  os_RemoveAll :: "string \<Rightarrow> 'w op"
  os_MkdirAll :: "string \<Rightarrow> u32 \<Rightarrow> 'w op"
  os_Mkdir :: "string \<Rightarrow> u32 \<Rightarrow> 'w op"
  os_Lchown :: "string \<Rightarrow> u32 \<Rightarrow> u32 \<Rightarrow> 'w op"
  os_Chmod :: "string \<Rightarrow> u32 \<Rightarrow> 'w op"
  os_Chtimes :: "string \<Rightarrow> int \<Rightarrow> int \<Rightarrow> 'w op"
  os_Symlink :: "string \<Rightarrow> string \<Rightarrow> 'w op"
  os_Mknod :: "string \<Rightarrow> u32 \<Rightarrow> u64 \<Rightarrow> 'w op"
  os_Mkfifo :: "string \<Rightarrow> u32 \<Rightarrow> 'w op"
  os_Open :: "string \<Rightarrow> 'w op"
  os_Create :: "string \<Rightarrow> 'w op"
  os_CreateExclusive :: "string \<Rightarrow> 'w op"
  os_Copy :: "string \<Rightarrow> string \<Rightarrow> 'w op"
  os_Write :: "string \<Rightarrow> string \<Rightarrow> 'w op"
  os_Close :: "string \<Rightarrow> 'w op"
  os_Lstat :: "string \<Rightarrow> 'w \<Rightarrow> os_error + stat"
  os_Command :: "string list \<Rightarrow> 'w op"

text \<open>A statement \<^verbatim>\<open>if err := op; err != nil { return err }\<close> before the rest.\<close>

definition andThen :: "'w op \<Rightarrow> 'w op \<Rightarrow> 'w op" where
  "andThen m k w = (case m w of (Some e, w) \<Rightarrow> (Some e, w) | (None, w) \<Rightarrow> k w)"

lemma andThen_None:
  "andThen m k w = (None, w') \<longleftrightarrow> (\<exists>w1. m w = (None, w1) \<and> k w1 = (None, w'))"
  by (auto simp: andThen_def split: prod.splits option.splits)

section \<open>Forced operations\<close>

definition makeMutable :: "'w os \<Rightarrow> string list \<Rightarrow> 'w op" where
  "makeMutable os pathname = os_Command os ([''chattr'', ''-R'', ''-ai''] @ pathname)"

definition forceRemove :: "'w os \<Rightarrow> string \<Rightarrow> 'w op" where
  "forceRemove os name w =
     (case os_Remove os name w of
        (None, w) \<Rightarrow> (None, w)
      | (Some err, w) \<Rightarrow>
          os_Remove os name (if IsPermission err then snd (makeMutable os [name] w) else w))"

definition forceRemoveAll :: "'w os \<Rightarrow> string \<Rightarrow> 'w op" where
  "forceRemoveAll os path w =
     (case os_RemoveAll os path w of
        (None, w) \<Rightarrow> (None, w)
      | (Some err, w) \<Rightarrow>
          os_RemoveAll os path (if IsPermission err then snd (makeMutable os [path] w) else w))"

definition forceLink :: "'w os \<Rightarrow> string \<Rightarrow> string \<Rightarrow> 'w op" where
  "forceLink os oldname newname w =
     (case os_Link os oldname newname w of
        (None, w) \<Rightarrow> (None, w)
      | (Some err, w) \<Rightarrow>
          os_Link os oldname newname
            (if IsPermission err then snd (makeMutable os [oldname, newname] w)
             else if IsExist err then snd (forceRemove os newname w)
             else w))"

text \<open>
  Renaming one of two hard links to the other does nothing and succeeds, so a rename is
  followed by a removal of the old name, which normally does not exist any more.
\<close>

definition renameAndRemove :: "'w os \<Rightarrow> string \<Rightarrow> string \<Rightarrow> 'w op" where
  "renameAndRemove os oldpath newpath w =
     (case os_Rename os oldpath newpath w of
        (Some err, w) \<Rightarrow> (Some err, w)
      | (None, w) \<Rightarrow>
          (case os_Remove os oldpath w of
             (None, w) \<Rightarrow> (None, w)
           | (Some err, w) \<Rightarrow> if IsNotExist err then (None, w) else (Some err, w)))"

text \<open>
  The type assertion \<^verbatim>\<open>err.(*os.LinkError)\<close> panics on an error of the removal, which is a
  \<^verbatim>\<open>*os.PathError\<close>.
\<close>

definition forceRename :: "'w os \<Rightarrow> string \<Rightarrow> string \<Rightarrow> 'w \<Rightarrow> panic + (os_error option \<times> 'w)" where
  "forceRename os oldpath newpath w =
     (case renameAndRemove os oldpath newpath w of
        (None, w) \<Rightarrow> Inr (None, w)
      | (Some err, w) \<Rightarrow>
          if IsPermission err then
            Inr (renameAndRemove os oldpath newpath (snd (makeMutable os [oldpath, newpath] w)))
          else if IsExist err then
            Inr (andThen (forceRemoveAll os newpath) (renameAndRemove os oldpath newpath) w)
          else case err of
            LinkError e \<Rightarrow>
              Inr (if e = EISDIR
                   then andThen (forceRemoveAll os newpath) (renameAndRemove os oldpath newpath) w
                   else renameAndRemove os oldpath newpath w)
          | _ \<Rightarrow> Inl (ExplicitPanic ''interface conversion: not *os.LinkError''))"

section \<open>Copying into a file\<close>

text \<open>
  A reader is the text it delivers and the error it ends with, if any. A length of zero
  copies everything; otherwise exactly that many bytes have to come.
\<close>

definition copyToWriter :: "'w os \<Rightarrow> string \<Rightarrow> string \<times> os_error option \<Rightarrow> u64 \<Rightarrow> 'w op" where
  "copyToWriter os filename reader len w =
     (let (text, readError) = reader
      in if len < 1 then
           (case os_Write os filename text w of
              (Some e, w) \<Rightarrow> (Some (TextError ''error copying''), w)
            | (None, w) \<Rightarrow>
                (case readError of None \<Rightarrow> (None, w) | Some _ \<Rightarrow> (Some (TextError ''error copying''), w)))
         else
           (case os_Write os filename (take (unat len) text) w of
              (Some e, w) \<Rightarrow> (Some (TextError ''error copying''), w)
            | (None, w) \<Rightarrow>
                if length text < unat len then (Some (TextError ''error copying''), w) else (None, w)))"

definition copyToFile ::
    "'w os \<Rightarrow> string \<Rightarrow> string \<times> os_error option \<Rightarrow> u64 \<Rightarrow> 'w op" where
  "copyToFile os destFilename reader len w =
     (let tmpFilename = destFilename @ ''~''
      in case os_Create os tmpFilename w of
           (Some e, w) \<Rightarrow> (Some e, w)
         | (None, w) \<Rightarrow>
             (case andThen (copyToWriter os tmpFilename reader len)
                     (andThen (os_Close os tmpFilename) (os_Rename os tmpFilename destFilename)) w of
                (result, w) \<Rightarrow>
                  (result, snd (os_Remove os tmpFilename (snd (os_Close os tmpFilename w))))))"

section \<open>Writing inodes\<close>

definition writeDirectoryMetadata :: "'w os \<Rightarrow> directory_inode \<Rightarrow> string \<Rightarrow> 'w op" where
  "writeDirectoryMetadata os ino name =
     andThen (os_Lchown os name (di_Uid ino) (di_Gid ino)) (os_Chmod os name (di_Mode ino))"

definition makeDirectoryInode :: "'w os \<Rightarrow> directory_inode \<Rightarrow> string \<Rightarrow> 'w op" where
  "makeDirectoryInode os ino name = os_Mkdir os name (di_Mode ino)"

definition S_IFMT :: u32 where "S_IFMT = 0xF000"
definition S_IFDIR :: u32 where "S_IFDIR = 0x4000"
definition S_IFREG :: u32 where "S_IFREG = 0x8000"
definition S_IFBLK :: u32 where "S_IFBLK = 0x6000"
definition S_IFCHR :: u32 where "S_IFCHR = 0x2000"
definition S_IFIFO :: u32 where "S_IFIFO = 0x1000"

definition isDirectoryOnDisk :: "'w os \<Rightarrow> string \<Rightarrow> 'w \<Rightarrow> bool" where
  "isDirectoryOnDisk os name w =
     (case os_Lstat os name w of Inl _ \<Rightarrow> False | Inr st \<Rightarrow> st_Mode st AND S_IFMT = S_IFDIR)"

definition writeDirectory :: "'w os \<Rightarrow> directory_inode \<Rightarrow> string \<Rightarrow> 'w op" where
  "writeDirectory os ino name w =
     (case makeDirectoryInode os ino name w of
        (None, w) \<Rightarrow> writeDirectoryMetadata os ino name w
      | (Some err, w) \<Rightarrow>
          if IsExist err \<and> isDirectoryOnDisk os name w then writeDirectoryMetadata os ino name w
          else andThen (makeDirectoryInode os ino name) (writeDirectoryMetadata os ino name)
                 (snd (forceRemoveAll os name w)))"

definition writeRegularMetadata :: "'w os \<Rightarrow> regular_inode \<Rightarrow> string \<Rightarrow> 'w op" where
  "writeRegularMetadata os ino name =
     andThen (os_Lchown os name (ri_Uid ino) (ri_Gid ino))
       (andThen (os_Chmod os name (ri_Mode ino))
          (os_Chtimes os name (ri_MtimeSeconds ino) (ri_MtimeNanoSeconds ino)))"

definition writeSymlinkMetadata :: "'w os \<Rightarrow> symlink_inode \<Rightarrow> string \<Rightarrow> 'w op" where
  "writeSymlinkMetadata os ino name = os_Lchown os name (si_Uid ino) (si_Gid ino)"

definition makeSymlink :: "'w os \<Rightarrow> symlink_inode \<Rightarrow> string \<Rightarrow> 'w op" where
  "makeSymlink os ino name = os_Symlink os (si_Symlink ino) name"

definition writeSymlink :: "'w os \<Rightarrow> symlink_inode \<Rightarrow> string \<Rightarrow> 'w op" where
  "writeSymlink os ino name w =
     (case makeSymlink os ino name w of
        (None, w) \<Rightarrow> writeSymlinkMetadata os ino name w
      | (Some _, w) \<Rightarrow>
          andThen (makeSymlink os ino name) (writeSymlinkMetadata os ino name)
            (snd (forceRemoveAll os name w)))"

definition makeSpecial :: "'w os \<Rightarrow> special_inode \<Rightarrow> string \<Rightarrow> 'w op" where
  "makeSpecial os ino name w =
     (if sp_Mode ino AND S_IFBLK \<noteq> 0 \<or> sp_Mode ino AND S_IFCHR \<noteq> 0
      then os_Mknod os name (sp_Mode ino) (sp_Rdev ino) w
      else if sp_Mode ino AND S_IFIFO \<noteq> 0 then os_Mkfifo os name (sp_Mode ino) w
      else (Some (TextError ''unsupported mode''), w))"

definition writeSpecialMetadata :: "'w os \<Rightarrow> special_inode \<Rightarrow> string \<Rightarrow> 'w op" where
  "writeSpecialMetadata os ino name =
     andThen (os_Lchown os name (sp_Uid ino) (sp_Gid ino))
       (andThen (os_Chmod os name (sp_Mode ino))
          (os_Chtimes os name (sp_MtimeSeconds ino) (sp_MtimeNanoSeconds ino)))"

definition writeSpecial :: "'w os \<Rightarrow> special_inode \<Rightarrow> string \<Rightarrow> 'w op" where
  "writeSpecial os ino name w =
     (case makeSpecial os ino name w of
        (None, w) \<Rightarrow> writeSpecialMetadata os ino name w
      | (Some _, w) \<Rightarrow>
          andThen (makeSpecial os ino name) (writeSpecialMetadata os ino name)
            (snd (forceRemoveAll os name w)))"

fun WriteMetadata :: "'w os \<Rightarrow> generic_inode \<Rightarrow> string \<Rightarrow> 'w \<Rightarrow> panic + (os_error option \<times> 'w)" where
  "WriteMetadata os (RegularInode r) name w = Inr (writeRegularMetadata os r name w)"
| "WriteMetadata os (ComputedRegularInode c) name w =
     Inl (ExplicitPanic (''cannot write metadata for computed file: '' @ name))"
| "WriteMetadata os (SymlinkInode s) name w = Inr (writeSymlinkMetadata os s name w)"
| "WriteMetadata os (SpecialInode s) name w = Inr (writeSpecialMetadata os s name w)"
| "WriteMetadata os (DirectoryInode d) name w = Inr (writeDirectoryMetadata os d name w)"

definition forceWriteMetadata ::
    "'w os \<Rightarrow> generic_inode \<Rightarrow> string \<Rightarrow> 'w \<Rightarrow> panic + (os_error option \<times> 'w)" where
  "forceWriteMetadata os ino name w =
     bindP (WriteMetadata os ino name w) (\<lambda>(err, w).
       case err of
         None \<Rightarrow> Inr (None, w)
       | Some e \<Rightarrow>
           WriteMetadata os ino name (if IsPermission e then snd (makeMutable os [name] w) else w))"

section \<open>A failed clean-up after a rename\<close>

text \<open>
  When two links to one file are renamed, the rename does nothing and the old name is still
  there. If its removal then fails for another reason than a missing permission, the
  type assertion on the error panics.
\<close>

lemma forceRename_panics:
  assumes "os_Rename os a b w = (None, w1)" and "os_Remove os a w1 = (Some (PathError e), w2)"
    and "e \<notin> {EPERM, EEXIST, ENOENT}"
  shows "forceRename os a b w = Inl (ExplicitPanic ''interface conversion: not *os.LinkError'')"
  using assms
  by (simp add: forceRename_def renameAndRemove_def IsPermission_def IsExist_def IsNotExist_def)

end
