(* ===== verification/Sub_Update.thy ===== *)
theory Sub_Update
  imports Update_Safety Os_Files Object_Cache
begin

text \<open>
  Applying an update request on a sub: \<^verbatim>\<open>sub/lib/update.go\<close>, \<^verbatim>\<open>sub/lib/match.go\<close> and
  \<^verbatim>\<open>sub/lib/check.go\<close>. The operating system, the compiler and matcher of regular expressions
  and the callbacks of the options are parameters. The log is not modelled, nor is the
  measured duration. The skip filter is the predicate of a compiled filter.
\<close>

unbundle bit_operations_syntax

section \<open>Options and state\<close>

datatype disruption_state = DisruptionStateAnytime | DisruptionStatePermitted | DisruptionStateRequested | DisruptionStateDenied

record ('re, 'w) update_options =
  DisruptionCancel :: "('w \<Rightarrow> 'w) option"
  DisruptionRequest :: "('w \<Rightarrow> disruption_state \<times> 'w) option"
  ObjectsDir :: string
  OldTriggers :: "'re triggers option"
  RootDirectoryName :: string
  RunTriggers :: "('re trigger list \<Rightarrow> string \<Rightarrow> 'w \<Rightarrow> bool \<times> 'w) option"
  SkipFilter :: "(string \<Rightarrow> bool) option"

record ('re, 'w) update_env =
  ue_os :: "'w os"
  ue_compile :: "string \<Rightarrow> 're option"
  ue_match :: "'re \<Rightarrow> string \<Rightarrow> bool"
  ue_pid :: nat
  ue_options :: "('re, 'w) update_options"

record 'w updater =
  lastError :: "os_error option"
  hadTriggerFailures :: bool
  world :: 'w

section \<open>Copies in the object cache\<close>

text \<open>The decimal digits of \<^verbatim>\<open>%d\<close>.\<close>

fun decimal :: "nat \<Rightarrow> string" where
  "decimal n = (if n < 10 then [char_of (48 + n)] else decimal (n div 10) @ [char_of (48 + n mod 10)])"

declare decimal.simps [simp del]

definition objectFile :: "('re, 'w) update_env \<Rightarrow> hash \<Rightarrow> string" where
  "objectFile env h = pathJoin (ObjectsDir (ue_options env)) (hashToFilename h)"

definition copyExtension :: "nat \<Rightarrow> string" where
  "copyExtension n = ''~'' @ decimal n @ ''~''"

definition S_IRWXU :: u32 where "S_IRWXU = 0x1C0"

definition copyFile :: "'w os \<Rightarrow> string \<Rightarrow> string \<Rightarrow> bool \<Rightarrow> 'w op" where
  "copyFile os destPathname sourcePathname doHardlink =
     andThen (os_MkdirAll os (pathDir destPathname) S_IRWXU)
       (if doHardlink then forceLink os sourcePathname destPathname
        else andThen (os_Open os sourcePathname)
               (andThen (os_Create os destPathname) (os_Copy os destPathname sourcePathname)))"

text \<open>An operation whose error, if any, becomes the last one.\<close>

definition attempt :: "'w op \<Rightarrow> 'w updater \<Rightarrow> 'w updater" where
  "attempt m st =
     (case m (world st) of
        (None, w) \<Rightarrow> st\<lparr>world := w\<rparr>
      | (Some e, w) \<Rightarrow> st\<lparr>world := w, lastError := Some e\<rparr>)"

definition attemptP :: "('w \<Rightarrow> panic + (os_error option \<times> 'w)) \<Rightarrow> 'w updater \<Rightarrow> panic + 'w updater" where
  "attemptP m st = bindP (m (world st)) (\<lambda>r. Inr (attempt (\<lambda>_. r) st))"

definition copyFilesToCache :: "('re, 'w) update_env \<Rightarrow> file_to_copy list \<Rightarrow> 'w updater \<Rightarrow> 'w updater" where
  "copyFilesToCache env filesToCopyToCache st =
     foldl (\<lambda>st f. attempt (copyFile (ue_os env) (objectFile env (fc_Hash f))
                  (pathJoin (RootDirectoryName (ue_options env)) (fc_Name f)) (fc_DoHardlink f)) st)
       st filesToCopyToCache"

fun copyObject :: "('re, 'w) update_env \<Rightarrow> hash \<Rightarrow> nat \<Rightarrow> 'w updater \<Rightarrow> 'w updater" where
  "copyObject env h 0 st = st"
| "copyObject env h (Suc n) st =
     copyObject env h n
       (attempt (copyFile (ue_os env) (objectFile env h @ copyExtension (Suc n)) (objectFile env h) False) st)"

definition makeObjectCopies :: "('re, 'w) update_env \<Rightarrow> (hash \<times> u64) list \<Rightarrow> 'w updater \<Rightarrow> 'w updater" where
  "makeObjectCopies env multiplyUsedObjects st =
     foldl (\<lambda>st (h, numCopies). if numCopies < 2 then st else copyObject env h (unat (numCopies - 1)) st)
       st multiplyUsedObjects"

section \<open>Making inodes\<close>

text \<open>
  The pathname of the object for a new file, and what remains of the multiply-used objects:
  the copies are consumed from the highest number down, the object itself last.
\<close>

definition takeObject :: "('re, 'w) update_env \<Rightarrow> hash \<Rightarrow> (hash \<times> u64) list \<Rightarrow> string \<times> (hash \<times> u64) list" where
  "takeObject env h multiplyUsedObjects =
     (case map_of multiplyUsedObjects h of
        Some numCopies \<Rightarrow>
          if numCopies > 1 then
            (objectFile env h @ copyExtension (unat (numCopies - 1)),
             if numCopies - 1 < 2 then deleteKey h multiplyUsedObjects
             else putTable h (numCopies - 1) multiplyUsedObjects)
          else (objectFile env h, multiplyUsedObjects)
      | None \<Rightarrow> (objectFile env h, multiplyUsedObjects))"

definition makeRegularInode ::
    "('re, 'w) update_env \<Rightarrow> string \<Rightarrow> regular_inode \<Rightarrow> (hash \<times> u64) list \<Rightarrow> 'w
       \<Rightarrow> panic + (os_error option \<times> (hash \<times> u64) list \<times> 'w)" where
  "makeRegularInode env fullPathname r multiplyUsedObjects w =
     (let os = ue_os env;
          place = (\<lambda>objectPathname multiplyUsedObjects w.
            bindP (forceRename os objectPathname fullPathname w) (\<lambda>(err, w).
              case err of
                Some e \<Rightarrow> Inr (Some e, multiplyUsedObjects, w)
              | None \<Rightarrow>
                  (case writeRegularMetadata os r fullPathname w of
                     (err, w) \<Rightarrow> Inr (err, multiplyUsedObjects, w))))
      in if ri_Size r > 0 then
           (case takeObject env (ri_Hash r) multiplyUsedObjects of
              (objectPathname, multiplyUsedObjects) \<Rightarrow> place objectPathname multiplyUsedObjects w)
         else
           (let objectPathname = fullPathname @ ''.empty.'' @ decimal (ue_pid env)
            in case os_CreateExclusive os objectPathname w of
                 (Some e, w) \<Rightarrow> Inr (Some e, multiplyUsedObjects, w)
               | (None, w) \<Rightarrow> place objectPathname multiplyUsedObjects w))"

definition fullPath :: "('re, 'w) update_env \<Rightarrow> string \<Rightarrow> string" where
  "fullPath env name = pathJoin (RootDirectoryName (ue_options env)) name"

definition makeInode1 ::
    "('re, 'w) update_env \<Rightarrow> named_inode \<Rightarrow> (hash \<times> u64) list \<times> 'w updater
       \<Rightarrow> panic + ((hash \<times> u64) list \<times> 'w updater)" where
  "makeInode1 env n = (\<lambda>(multiplyUsedObjects, st).
     case ni_Inode n of
       RegularInode r \<Rightarrow>
         bindP (makeRegularInode env (fullPath env (ni_Name n)) r multiplyUsedObjects (world st))
           (\<lambda>(err, multiplyUsedObjects, w). Inr (multiplyUsedObjects, attempt (\<lambda>_. (err, w)) st))
     | SymlinkInode s \<Rightarrow>
         Inr (multiplyUsedObjects, attempt (writeSymlink (ue_os env) s (fullPath env (ni_Name n))) st)
     | SpecialInode s \<Rightarrow>
         Inr (multiplyUsedObjects, attempt (writeSpecial (ue_os env) s (fullPath env (ni_Name n))) st)
     | _ \<Rightarrow> Inr (multiplyUsedObjects, st))"

definition triggerMatch ::
    "('re, 'w) update_env \<Rightarrow> string \<Rightarrow> 're triggers \<Rightarrow> panic + 're triggers" where
  "triggerMatch env = matchTriggers (ue_compile env) (ue_match env)"

text \<open>
  The loops have one shape: match the pathname of an item against the triggers, and act if
  that is asked for. The state of a loop is the triggers and the rest.
\<close>

fun actionLoop ::
    "('a \<Rightarrow> 'w updater \<Rightarrow> bool) \<Rightarrow> ('re, 'w) update_env \<Rightarrow> ('a \<Rightarrow> string) \<Rightarrow> ('a \<Rightarrow> 's \<Rightarrow> panic + 's)
       \<Rightarrow> ('s \<Rightarrow> 'w updater) \<Rightarrow> bool \<Rightarrow> 'a list \<Rightarrow> 're triggers \<times> 's \<Rightarrow> panic + ('re triggers \<times> 's)" where
  "actionLoop matching env name act get takeAction [] (trs, s) = Inr (trs, s)"
| "actionLoop matching env name act get takeAction (x # xs) (trs, s) =
     bindP (if matching x (get s) then triggerMatch env (name x) trs else Inr trs) (\<lambda>trs.
       bindP (if takeAction then act x s else Inr s) (\<lambda>s.
         actionLoop matching env name act get takeAction xs (trs, s)))"

definition makeInodes ::
    "('re, 'w) update_env \<Rightarrow> named_inode list \<Rightarrow> bool \<Rightarrow> (hash \<times> u64) list \<Rightarrow> 're triggers \<Rightarrow> 'w updater
       \<Rightarrow> panic + ('re triggers \<times> (hash \<times> u64) list \<times> 'w updater)" where
  "makeInodes env inodesToMake takeAction multiplyUsedObjects trs st =
     actionLoop (\<lambda>_ _. True) env ni_Name (makeInode1 env) snd takeAction inodesToMake
       (trs, (multiplyUsedObjects, st))"

definition makeHardlink1 :: "('re, 'w) update_env \<Rightarrow> hardlink \<Rightarrow> 'w updater \<Rightarrow> panic + 'w updater" where
  "makeHardlink1 env hl st =
     (let os = ue_os env;
          tmpName = pathJoin (ObjectsDir (ue_options env)) ''temporaryHardlink''
      in case forceLink os (fullPath env (Target hl)) tmpName (world st) of
           (Some e, w) \<Rightarrow> Inr (st\<lparr>world := w, lastError := Some e\<rparr>)
         | (None, w) \<Rightarrow>
             bindP (forceRename os tmpName (fullPath env (NewLink hl)) w) (\<lambda>(err, w).
               case err of
                 None \<Rightarrow> Inr (st\<lparr>world := w\<rparr>)
               | Some e \<Rightarrow> Inr (attempt (forceRemove os tmpName) (st\<lparr>world := w\<rparr>))))"

definition makeHardlinks ::
    "('re, 'w) update_env \<Rightarrow> hardlink list \<Rightarrow> bool \<Rightarrow> 're triggers \<times> 'w updater
       \<Rightarrow> panic + ('re triggers \<times> 'w updater)" where
  "makeHardlinks env hardlinksToMake takeAction =
     actionLoop (\<lambda>_ _. True) env NewLink (makeHardlink1 env) id takeAction hardlinksToMake"

definition doDelete1 :: "('re, 'w) update_env \<Rightarrow> string \<Rightarrow> 'w updater \<Rightarrow> panic + 'w updater" where
  "doDelete1 env pathname st = Inr (attempt (forceRemoveAll (ue_os env) (fullPath env pathname)) st)"

definition doDeletes ::
    "('re, 'w) update_env \<Rightarrow> string list \<Rightarrow> bool \<Rightarrow> 're triggers \<times> 'w updater
       \<Rightarrow> panic + ('re triggers \<times> 'w updater)" where
  "doDeletes env pathsToDelete takeAction =
     actionLoop (\<lambda>_ _. True) env id (doDelete1 env) id takeAction pathsToDelete"

definition skipPath :: "('re, 'w) update_env \<Rightarrow> string \<Rightarrow> bool" where
  "skipPath env pathname \<longleftrightarrow>
     (case SkipFilter (ue_options env) of None \<Rightarrow> False | Some match \<Rightarrow> match pathname)
     \<or> pathname = ''/.subd'' \<or> take 7 pathname = ''/.subd/''"

definition makeDirectory1 :: "('re, 'w) update_env \<Rightarrow> named_inode \<Rightarrow> 'w updater \<Rightarrow> panic + 'w updater" where
  "makeDirectory1 env newdir st =
     (case ni_Inode newdir of
        DirectoryInode d \<Rightarrow> Inr (attempt (writeDirectory (ue_os env) d (fullPath env (ni_Name newdir))) st)
      | _ \<Rightarrow> Inr st)"

definition makeDirectories ::
    "('re, 'w) update_env \<Rightarrow> named_inode list \<Rightarrow> bool \<Rightarrow> 're triggers \<times> 'w updater
       \<Rightarrow> panic + ('re triggers \<times> 'w updater)" where
  "makeDirectories env directoriesToMake takeAction =
     actionLoop (\<lambda>_ _. True) env ni_Name (makeDirectory1 env) id takeAction
       (filter (\<lambda>newdir. \<not> skipPath env (ni_Name newdir)) directoriesToMake)"

section \<open>Changing inodes\<close>

definition scannedRegular :: "stat \<Rightarrow> regular_inode" where
  "scannedRegular st =
     \<lparr>ri_Mode = st_Mode st, ri_Uid = st_Uid st, ri_Gid = st_Gid st, ri_MtimeNanoSeconds = st_MtimNsec st,
      ri_MtimeSeconds = st_MtimSec st, ri_Size = st_Size st, ri_Hash = zeroHash\<rparr>"

definition scannedSpecial :: "stat \<Rightarrow> special_inode" where
  "scannedSpecial st =
     \<lparr>sp_Mode = st_Mode st, sp_Uid = st_Uid st, sp_Gid = st_Gid st, sp_MtimeNanoSeconds = st_MtimNsec st,
      sp_MtimeSeconds = st_MtimSec st, sp_Rdev = st_Rdev st\<rparr>"

definition checkNonMtimeChange :: "'w os \<Rightarrow> string \<Rightarrow> generic_inode \<Rightarrow> 'w \<Rightarrow> bool" where
  "checkNonMtimeChange os filename ino w =
     (case ino of
        RegularInode r \<Rightarrow>
          (case os_Lstat os filename w of
             Inl _ \<Rightarrow> True
           | Inr st \<Rightarrow>
               \<not> (st_Mode st AND S_IFMT = S_IFREG
                  \<and> (scannedRegular st)
                      \<lparr>ri_Hash := ri_Hash r, ri_MtimeNanoSeconds := ri_MtimeNanoSeconds r,
                       ri_MtimeSeconds := ri_MtimeSeconds r\<rparr> = r))
      | SpecialInode s \<Rightarrow>
          (case os_Lstat os filename w of
             Inl _ \<Rightarrow> True
           | Inr st \<Rightarrow>
               \<not> ((st_Mode st AND S_IFMT = S_IFBLK \<or> st_Mode st AND S_IFMT = S_IFCHR)
                  \<and> (scannedSpecial st)
                      \<lparr>sp_MtimeNanoSeconds := sp_MtimeNanoSeconds s, sp_MtimeSeconds := sp_MtimeSeconds s\<rparr> = s))
      | _ \<Rightarrow> True)"

definition changeInode1 :: "('re, 'w) update_env \<Rightarrow> named_inode \<Rightarrow> 'w updater \<Rightarrow> panic + 'w updater" where
  "changeInode1 env n = attemptP (forceWriteMetadata (ue_os env) (ni_Inode n) (fullPath env (ni_Name n)))"

definition changeInodes ::
    "('re, 'w) update_env \<Rightarrow> named_inode list \<Rightarrow> bool \<Rightarrow> 're triggers \<times> 'w updater
       \<Rightarrow> panic + ('re triggers \<times> 'w updater)" where
  "changeInodes env inodesToChange takeAction =
     actionLoop
       (\<lambda>n st. checkNonMtimeChange (ue_os env) (fullPath env (ni_Name n)) (ni_Inode n) (world st))
       env ni_Name (changeInode1 env) id takeAction inodesToChange"

section \<open>The whole update\<close>

definition isHighImpact :: "'re trigger list \<Rightarrow> bool" where
  "isHighImpact matchedTrs = list_ex HighImpact matchedTrs"

datatype update_error = DisruptionPending | DisruptionDenied | OsError os_error

definition checkDisruption ::
    "('re, 'w) update_env \<Rightarrow> 're trigger list \<Rightarrow> bool \<Rightarrow> 'w \<Rightarrow> update_error option \<times> 'w" where
  "checkDisruption env matchedTrs force w =
     (let opts = ue_options env
      in if DisruptionRequest opts = None \<and> DisruptionCancel opts = None then (None, w)
         else if \<not> isHighImpact matchedTrs then
           (None, case DisruptionCancel opts of None \<Rightarrow> w | Some cancel \<Rightarrow> cancel w)
         else if force then (None, w)
         else case DisruptionRequest opts of
           None \<Rightarrow> (None, w)
         | Some ask \<Rightarrow>
             (case ask w of
                (DisruptionStateAnytime, w) \<Rightarrow> (None, w)
              | (DisruptionStatePermitted, w) \<Rightarrow> (None, w)
              | (DisruptionStateRequested, w) \<Rightarrow> (Some DisruptionPending, w)
              | (DisruptionStateDenied, w) \<Rightarrow> (Some DisruptionDenied, w)))"

definition PatchedImageNameFile :: string where
  "PatchedImageNameFile = ''/var/lib/patched-image''"

definition DirPerms :: u32 where "DirPerms = 0x1ED"

definition writePatchedImageName :: "('re, 'w) update_env \<Rightarrow> string \<Rightarrow> 'w op" where
  "writePatchedImageName env imageName w =
     (let os = ue_os env; pathname = fullPath env PatchedImageNameFile
      in if imageName = [] then
           (case os_Remove os pathname w of
              (Some err, w) \<Rightarrow> if IsNotExist err then (None, w) else (Some err, w)
            | (None, w) \<Rightarrow> (None, w))
         else andThen (os_MkdirAll os (pathDir pathname) DirPerms)
                (copyToFile os pathname (imageName @ [CHR 10], None) 0) w)"

text \<open>The five loops over a request, for the old triggers without and for the new ones with action.\<close>

definition applyRequest ::
    "('re, 'w) update_env \<Rightarrow> 're update_request \<Rightarrow> bool \<Rightarrow> 're triggers \<Rightarrow> 'w updater
       \<Rightarrow> panic + ('re triggers \<times> 'w updater)" where
  "applyRequest env req takeAction trs st =
     bindP (makeDirectories env (DirectoriesToMake req) takeAction (trs, st)) (\<lambda>(trs, st).
     bindP (makeInodes env (InodesToMake req) takeAction (MultiplyUsedObjects req) trs st) (\<lambda>(trs, _, st).
     bindP (makeHardlinks env (HardlinksToMake req) takeAction (trs, st)) (\<lambda>s.
     bindP (doDeletes env (PathsToDelete req) takeAction s) (\<lambda>s.
     changeInodes env (InodesToChange req) takeAction s))))"

definition newTriggers :: "'re triggers" where
  "newTriggers = freshTriggers []"

definition runTriggersWith ::
    "('re, 'w) update_env \<Rightarrow> 're trigger list \<Rightarrow> string \<Rightarrow> 'w updater \<Rightarrow> 'w updater" where
  "runTriggersWith env ts action st =
     (case RunTriggers (ue_options env) of
        None \<Rightarrow> st
      | Some run \<Rightarrow>
          (case run ts action (world st) of
             (failed, w) \<Rightarrow> st\<lparr>world := w, hadTriggerFailures := hadTriggerFailures st \<or> failed\<rparr>))"

definition stopServices ::
    "('re, 'w) update_env \<Rightarrow> 're update_request \<Rightarrow> 'w updater \<Rightarrow> panic + (update_error option \<times> 'w updater)" where
  "stopServices env req st =
     (case (RunTriggers (ue_options env), OldTriggers (ue_options env)) of
        (Some run, Some old) \<Rightarrow>
          if length (Triggers old) > 0 then
            bindP (applyRequest env req False old st) (\<lambda>(old, st).
              (let matchedOldTriggers = fst (getMatchedTriggers old)
               in case checkDisruption env matchedOldTriggers (ForceDisruption req) (world st) of
                    (Some err, w) \<Rightarrow> Inr (Some err, st\<lparr>world := w\<rparr>)
                  | (None, w) \<Rightarrow> Inr (None, runTriggersWith env matchedOldTriggers ''stop'' (st\<lparr>world := w\<rparr>))))
          else Inr (None, st)
      | _ \<Rightarrow> Inr (None, st))"

definition update ::
    "('re, 'w) update_env \<Rightarrow> 're update_request \<Rightarrow> 'w updater \<Rightarrow> panic + (update_error option \<times> 'w updater)" where
  "update env req st =
     (let st = copyFilesToCache env (FilesToCopyToCache req) st;
          st = makeObjectCopies env (MultiplyUsedObjects req) st;
          trs = (case request_Triggers req of None \<Rightarrow> newTriggers | Some trs \<Rightarrow> trs)
      in bindP (stopServices env req st) (\<lambda>(err, st).
           case err of
             Some err \<Rightarrow> Inr (Some err, st)
           | None \<Rightarrow>
               bindP (applyRequest env req True trs st) (\<lambda>(trs, st).
                 (let st = (if SparseImage req then st
                            else st\<lparr>world := snd (writePatchedImageName env (ImageName req) (world st))\<rparr>);
                      matchedNewTriggers = fst (getMatchedTriggers trs);
                      st = runTriggersWith env matchedNewTriggers ''start'' st
                  in Inr (map_option OsError (lastError st), st)))))"

definition UpdateWithOptions ::
    "('re, 'w) update_env \<Rightarrow> 're update_request \<Rightarrow> 'w \<Rightarrow> panic + (bool \<times> update_error option \<times> 'w)" where
  "UpdateWithOptions env req w =
     bindP (update env req \<lparr>lastError = None, hadTriggerFailures = False, world = w\<rparr>) (\<lambda>(err, st).
       Inr (hadTriggerFailures st, err, world st))"

section \<open>Predicting the triggers\<close>

definition checkImpact :: "'re trigger list \<Rightarrow> bool \<times> bool" where
  "checkImpact triggerList =
     foldl (\<lambda>(highImpact, reboot) trg. (highImpact \<or> HighImpact trg, reboot \<or> DoReboot trg))
       (False, False) triggerList"

definition matchTriggersInUpdate ::
    "(string \<Rightarrow> 're option) \<Rightarrow> ('re \<Rightarrow> string \<Rightarrow> bool) \<Rightarrow> 're update_request \<Rightarrow> panic + 're trigger list" where
  "matchTriggersInUpdate rc rm req =
     (case request_Triggers req of
        None \<Rightarrow> Inr []
      | Some trs \<Rightarrow>
          bindP (foldE (\<lambda>dir. matchTriggers rc rm (ni_Name dir)) (DirectoriesToMake req) trs) (\<lambda>trs.
          bindP (foldE (\<lambda>ino. matchTriggers rc rm (ni_Name ino)) (InodesToMake req) trs) (\<lambda>trs.
          bindP (foldE (\<lambda>hl. matchTriggers rc rm (NewLink hl)) (HardlinksToMake req) trs) (\<lambda>trs.
          bindP (foldE (matchTriggers rc rm) (PathsToDelete req) trs) (\<lambda>trs.
          bindP (foldE (\<lambda>ino. matchTriggers rc rm (ni_Name ino)) (InodesToChange req) trs) (\<lambda>trs.
            Inr (fst (getMatchedTriggers trs))))))))"

section \<open>Runs without action\<close>

lemma foldE_bindP: "foldE f (x # xs) s = bindP (f x s) (foldE f xs)"
  by (simp add: bindP_def)

lemma bindP_assoc: "bindP (bindP x f) g = bindP x (\<lambda>a. bindP (f a) g)"
  by (simp add: bindP_def split: sum.splits)

lemma bindP_Inr [simp]: "bindP x Inr = x"
  by (simp add: bindP_def split: sum.splits)

lemma foldE_append_bindP: "foldE f (xs @ ys) s = bindP (foldE f xs s) (foldE f ys)"
  by (simp add: foldE_append bindP_def)

lemma actionLoop_dry:
  "actionLoop matching env name act get False xs (trs, s) =
     bindP (foldE (triggerMatch env) (map name (filter (\<lambda>x. matching x (get s)) xs)) trs) (\<lambda>trs. Inr (trs, s))"
  by (induction xs arbitrary: trs) (simp_all add: foldE_bindP bindP_assoc del: foldE.simps(2))

definition requestPaths :: "'re update_request \<Rightarrow> string list" where
  "requestPaths req =
     map ni_Name (DirectoriesToMake req) @ map ni_Name (InodesToMake req) @ map NewLink (HardlinksToMake req)
     @ PathsToDelete req @ map ni_Name (InodesToChange req)"

definition affectedPaths :: "('re, 'w) update_env \<Rightarrow> 're update_request \<Rightarrow> 'w \<Rightarrow> string list" where
  "affectedPaths env req w =
     map ni_Name (filter (\<lambda>d. \<not> skipPath env (ni_Name d)) (DirectoriesToMake req))
     @ map ni_Name (InodesToMake req) @ map NewLink (HardlinksToMake req) @ PathsToDelete req
     @ map ni_Name (filter (\<lambda>n. checkNonMtimeChange (ue_os env) (fullPath env (ni_Name n)) (ni_Inode n) w)
         (InodesToChange req))"

lemma applyRequest_dry:
  "applyRequest env req False trs st =
     bindP (foldE (triggerMatch env) (affectedPaths env req (world st)) trs) (\<lambda>trs. Inr (trs, st))"
  by (simp add: applyRequest_def makeDirectories_def makeInodes_def makeHardlinks_def doDeletes_def
      changeInodes_def actionLoop_dry affectedPaths_def foldE_append_bindP bindP_assoc)

lemma actionLoop_lines:
  "actionLoop matching env name act get takeAction xs (trs, s) = Inr (trs', s') \<Longrightarrow>
     \<exists>lines. set lines \<subseteq> name ` set xs \<and> foldE (triggerMatch env) lines trs = Inr trs'"
proof (induction xs arbitrary: trs s)
  case Nil
  then show ?case by (auto intro: exI [of _ "[]"])
next
  case (Cons x xs)
  obtain trs1 s1 where 1: "(if matching x (get s) then triggerMatch env (name x) trs else Inr trs) = Inr trs1"
    and 2: "actionLoop matching env name act get takeAction xs (trs1, s1) = Inr (trs', s')"
    using Cons.prems by auto
  obtain lines where l: "set lines \<subseteq> name ` set xs" "foldE (triggerMatch env) lines trs1 = Inr trs'"
    using Cons.IH [OF 2] by blast
  show ?case
  proof (cases "matching x (get s)")
    case True
    then show ?thesis using 1 l by (intro exI [of _ "name x # lines"]) auto
  next
    case False
    then show ?thesis using 1 l by (intro exI [of _ lines]) auto
  qed
qed

lemma applyRequest_lines:
  assumes "applyRequest env req takeAction trs st = Inr (trs', st')"
  shows "\<exists>lines. set lines \<subseteq> set (requestPaths req) \<and> foldE (triggerMatch env) lines trs = Inr trs'"
proof -
  obtain t1 s1 t2 m2 s2 t3 s3 t4 s4 where
    1: "makeDirectories env (DirectoriesToMake req) takeAction (trs, st) = Inr (t1, s1)" and
    2: "makeInodes env (InodesToMake req) takeAction (MultiplyUsedObjects req) t1 s1 = Inr (t2, m2, s2)" and
    3: "makeHardlinks env (HardlinksToMake req) takeAction (t2, s2) = Inr (t3, s3)" and
    4: "doDeletes env (PathsToDelete req) takeAction (t3, s3) = Inr (t4, s4)" and
    5: "changeInodes env (InodesToChange req) takeAction (t4, s4) = Inr (trs', st')"
    using assms by (auto simp: applyRequest_def)
  obtain l1 where l1: "set l1 \<subseteq> ni_Name ` set (filter (\<lambda>d. \<not> skipPath env (ni_Name d)) (DirectoriesToMake req))"
      "foldE (triggerMatch env) l1 trs = Inr t1"
    using actionLoop_lines [OF 1 [unfolded makeDirectories_def]] by (elim exE conjE)
  obtain l2 where l2: "set l2 \<subseteq> ni_Name ` set (InodesToMake req)" "foldE (triggerMatch env) l2 t1 = Inr t2"
    using actionLoop_lines [OF 2 [unfolded makeInodes_def]] by (elim exE conjE)
  obtain l3 where l3: "set l3 \<subseteq> NewLink ` set (HardlinksToMake req)" "foldE (triggerMatch env) l3 t2 = Inr t3"
    using actionLoop_lines [OF 3 [unfolded makeHardlinks_def]] by (elim exE conjE)
  obtain l4 where l4: "set l4 \<subseteq> id ` set (PathsToDelete req)" "foldE (triggerMatch env) l4 t3 = Inr t4"
    using actionLoop_lines [OF 4 [unfolded doDeletes_def]] by (elim exE conjE)
  obtain l5 where l5: "set l5 \<subseteq> ni_Name ` set (InodesToChange req)" "foldE (triggerMatch env) l5 t4 = Inr trs'"
    using actionLoop_lines [OF 5 [unfolded changeInodes_def]] by (elim exE conjE)
  have "set (l1 @ l2 @ l3 @ l4 @ l5) \<subseteq> set (requestPaths req)"
    using l1(1) l2(1) l3(1) l4(1) l5(1) by (auto simp: requestPaths_def)
  moreover have "foldE (triggerMatch env) (l1 @ l2 @ l3 @ l4 @ l5) trs = Inr trs'"
    by (simp add: foldE_append_bindP l1(2) l2(2) l3(2) l4(2) l5(2))
  ultimately show ?thesis by blast
qed

lemma matchTriggersInUpdate_eq:
  "request_Triggers req = Some trs \<Longrightarrow>
     matchTriggersInUpdate rc rm req =
       bindP (foldE (matchTriggers rc rm) (requestPaths req) trs) (\<lambda>trs. Inr (fst (getMatchedTriggers trs)))"
proof -
  assume trs: "request_Triggers req = Some trs"
  have named: "foldE (\<lambda>x. matchTriggers rc rm (ni_Name x)) xs t = foldE (matchTriggers rc rm) (map ni_Name xs) t"
    for xs :: "named_inode list" and t
    by (induction xs arbitrary: t) (simp_all split: sum.split)
  have links: "foldE (\<lambda>x. matchTriggers rc rm (NewLink x)) xs t = foldE (matchTriggers rc rm) (map NewLink xs) t"
    for xs :: "hardlink list" and t
    by (induction xs arbitrary: t) (simp_all split: sum.split)
  show ?thesis
    by (simp only: matchTriggersInUpdate_def trs option.case requestPaths_def named links
        foldE_append_bindP bindP_assoc)
qed

section \<open>A small operating system\<close>

text \<open>
  An instance of the parameter for examples: the world is a map of the contents of regular
  files, renaming and copying work, and there are neither links nor special files.
\<close>

definition noop :: "(string \<rightharpoonup> string) op" where
  "noop w = (None, w)"

definition failing :: "errno \<Rightarrow> (string \<rightharpoonup> string) op" where
  "failing e w = (Some (PathError e), w)"

definition memoryOs :: "(string \<rightharpoonup> string) os" where
  "memoryOs =
     \<lparr>os_Link = (\<lambda>a b w. case w a of None \<Rightarrow> (Some (LinkError ENOENT), w) | Some c \<Rightarrow> (None, w(b \<mapsto> c))),
      os_Rename = (\<lambda>a b w. case w a of None \<Rightarrow> (Some (LinkError ENOENT), w)
         | Some c \<Rightarrow> (None, (w(a := None))(b \<mapsto> c))),
      os_Remove = (\<lambda>a w. if w a = None then (Some (PathError ENOENT), w) else (None, w(a := None))),
      os_RemoveAll = (\<lambda>a w. (None, w(a := None))),
      os_MkdirAll = (\<lambda>_ _. noop), os_Mkdir = (\<lambda>_ _. noop), os_Lchown = (\<lambda>_ _ _. noop),
      os_Chmod = (\<lambda>_ _. noop), os_Chtimes = (\<lambda>_ _ _. noop), os_Symlink = (\<lambda>_ _. noop),
      os_Mknod = (\<lambda>_ _ _. noop), os_Mkfifo = (\<lambda>_ _. noop),
      os_Open = (\<lambda>a w. if w a = None then failing ENOENT w else noop w),
      os_Create = (\<lambda>a w. (None, w(a \<mapsto> ''''))),
      os_CreateExclusive = (\<lambda>a w. if w a = None then (None, w(a \<mapsto> '''')) else failing EEXIST w),
      os_Copy = (\<lambda>b a w. (None, w(b := w a))),
      os_Write = (\<lambda>a t w. (None, w(a \<mapsto> t))), os_Close = (\<lambda>_. noop),
      os_Lstat = (\<lambda>_ _. Inl (PathError ENOENT)), os_Command = (\<lambda>_. noop)\<rparr>"

definition exampleOptions :: "(unit, string \<rightharpoonup> string) update_options" where
  "exampleOptions =
     \<lparr>DisruptionCancel = None, DisruptionRequest = Some (\<lambda>w. (DisruptionStateDenied, w)),
      ObjectsDir = ''/o'', OldTriggers = Some (freshTriggers [exampleTrigger\<lparr>HighImpact := True\<rparr>]),
      RootDirectoryName = ''/'', RunTriggers = Some (\<lambda>_ _ w. (False, w)), SkipFilter = None\<rparr>"

definition exampleEnv :: "(unit, string \<rightharpoonup> string) update_env" where
  "exampleEnv =
     \<lparr>ue_os = memoryOs, ue_compile = (\<lambda>_. None), ue_match = (\<lambda>_ _. False), ue_pid = 1,
      ue_options = exampleOptions\<rparr>"

lemma exampleTrigger_compiles:
  "compile (\<lambda>_. None :: unit option) ''/etc/ssh'' = (Some (PrefixMatcher ''/etc/ssh''), None)"
  by (simp add: compile_def compileContainsMatcher_def compileLoop.simps isPlain_def charBetween_def)

lemmas evaluate_triggers =
  triggerMatch_def matchTriggers_def compileTriggers_def freshTriggers_def exampleTrigger_compiles
  initMatch_def getMatchedTriggers_def exampleTrigger_def sliceStable_def Let_def

section \<open>A lost error\<close>

text \<open>
  A hard link that cannot be put in place is not reported: the error of the rename is
  dropped, and only a failing removal of the temporary link becomes the last error.
\<close>

lemma hardlink_error_lost:
  assumes "forceLink (ue_os env) (fullPath env (Target hl))
             (pathJoin (ObjectsDir (ue_options env)) ''temporaryHardlink'') (world st) = (None, w1)"
    and "forceRename (ue_os env) (pathJoin (ObjectsDir (ue_options env)) ''temporaryHardlink'')
             (fullPath env (NewLink hl)) w1 = Inr (Some e, w2)"
    and "forceRemove (ue_os env) (pathJoin (ObjectsDir (ue_options env)) ''temporaryHardlink'') w2 = (None, w3)"
  shows "makeHardlink1 env hl st = Inr (st\<lparr>world := w3\<rparr>)"
  using assms by (simp add: makeHardlink1_def attempt_def Let_def)

section \<open>Properties\<close>

lemma checkDisruption_refuses:
  assumes "checkDisruption env ts force w = (Some err, w')"
  shows "\<exists>ask. DisruptionRequest (ue_options env) = Some ask \<and> \<not> force \<and> isHighImpact ts \<and> w' = snd (ask w)"
  using assms
  by (auto simp: checkDisruption_def Let_def split: if_splits option.splits prod.splits disruption_state.splits)

lemma stopServices_refuses:
  assumes "stopServices env req st = Inr (Some err, st')"
  shows "\<exists>ask old trs. DisruptionRequest (ue_options env) = Some ask \<and> OldTriggers (ue_options env) = Some old
    \<and> \<not> ForceDisruption req
    \<and> foldE (triggerMatch env) (affectedPaths env req (world st)) old = Inr trs
    \<and> isHighImpact (fst (getMatchedTriggers trs)) \<and> st' = st\<lparr>world := snd (ask (world st))\<rparr>"
proof -
  obtain run old trs where o: "RunTriggers (ue_options env) = Some run" "OldTriggers (ue_options env) = Some old"
    and t: "foldE (triggerMatch env) (affectedPaths env req (world st)) old = Inr trs"
    and r: "(case checkDisruption env (fst (getMatchedTriggers trs)) (ForceDisruption req) (world st) of
        (Some err, w) \<Rightarrow> Inr (Some err, st\<lparr>world := w\<rparr>)
      | (None, w) \<Rightarrow> Inr (None, runTriggersWith env (fst (getMatchedTriggers trs)) ''stop'' (st\<lparr>world := w\<rparr>)))
      = (Inr (Some err, st') :: panic + (update_error option \<times> 'a updater))"
    using assms
    by (cases "RunTriggers (ue_options env)"; cases "OldTriggers (ue_options env)")
       (auto simp: stopServices_def applyRequest_dry Let_def split: if_splits)
  then obtain w where d: "checkDisruption env (fst (getMatchedTriggers trs)) (ForceDisruption req) (world st) = (Some err, w)"
    and st': "st' = st\<lparr>world := w\<rparr>"
    by (cases "checkDisruption env (fst (getMatchedTriggers trs)) (ForceDisruption req) (world st)")
       (auto split: option.splits)
  from checkDisruption_refuses [OF d] obtain ask where
    "DisruptionRequest (ue_options env) = Some ask" "\<not> ForceDisruption req"
    "isHighImpact (fst (getMatchedTriggers trs))" "w = snd (ask (world st))"
    by (elim exE conjE)
  then show ?thesis using o(2) t st' by simp
qed



lemma filter_subset_mset: "(\<And>x. P x \<Longrightarrow> Q x) \<Longrightarrow> mset (filter P xs) \<subseteq># mset (filter Q xs)"
  by (induction xs) (auto intro: subset_mset.order_trans)

text \<open>
  C22. The triggers predicted from a request alone cover those of an update: whatever the
  update finds on disk and whether or not it acts, every trigger that it matches is among
  those that \<^verbatim>\<open>MatchTriggersInUpdate\<close> lists. A run without action on a disk where no
  directory is skipped and no change is of a modification time only matches exactly these.
\<close>

theorem predicted_triggers_cover:
  assumes "request_Triggers req = Some (freshTriggers ts)"
    and "compileTriggerList (ue_compile env) ts = (ts', None)"
    and "applyRequest env req takeAction (freshTriggers ts) st = Inr (trs, st')"
  shows "\<exists>predicted. matchTriggersInUpdate (ue_compile env) (ue_match env) req = Inr predicted
    \<and> mset (fst (getMatchedTriggers trs)) \<subseteq># mset predicted
    \<and> (\<not> takeAction \<and> affectedPaths env req (world st) = requestPaths req
        \<longrightarrow> fst (getMatchedTriggers trs) = predicted)"
proof -
  let ?rc = "ue_compile env" and ?rm = "ue_match env"
  have fold: "foldE (triggerMatch env) lines t = foldE (matchTriggers ?rc ?rm) lines t" for lines t
    by (simp add: triggerMatch_def)
  obtain lines where lines: "set lines \<subseteq> set (requestPaths req)"
    and trs: "foldE (matchTriggers ?rc ?rm) lines (freshTriggers ts) = Inr trs"
    using applyRequest_lines [OF assms(3)] fold by auto
  obtain all where all: "foldE (matchTriggers ?rc ?rm) (requestPaths req) (freshTriggers ts) = Inr all"
    and m: "mset (fst (getMatchedTriggers all)) =
      mset (map (recompiled ?rc) (filter (triggered ?rc ?rm (requestPaths req)) ts))"
    using matched_multiset [OF assms(2), of ?rm "requestPaths req"] by blast
  have "mset (fst (getMatchedTriggers trs)) = mset (map (recompiled ?rc) (filter (triggered ?rc ?rm lines) ts))"
    using matched_multiset [OF assms(2), of ?rm lines] trs by auto
  moreover have "mset (filter (triggered ?rc ?rm lines) ts) \<subseteq># mset (filter (triggered ?rc ?rm (requestPaths req)) ts)"
    using lines by (intro filter_subset_mset) (auto simp: triggered_def)
  ultimately have "mset (fst (getMatchedTriggers trs)) \<subseteq># mset (fst (getMatchedTriggers all))"
    using m by (simp add: image_mset_subseteq_mono)
  moreover have "trs = all" if "\<not> takeAction" "affectedPaths env req (world st) = requestPaths req"
    using assms(3) that all by (simp add: applyRequest_dry fold)
  ultimately show ?thesis using matchTriggersInUpdate_eq [OF assms(1), of ?rc ?rm] all by auto
qed

theorem predicted_triggers_cover_witness:
  "\<exists>predicted. matchTriggersInUpdate (\<lambda>_. None) (\<lambda>_ _. False)
       (emptyRequest\<lparr>PathsToDelete := [''/etc/ssh/x''], request_Triggers := Some (freshTriggers [exampleTrigger])\<rparr>)
     = Inr predicted \<and> map Service predicted = [''sshd'']"
proof -
  let ?req = "emptyRequest\<lparr>PathsToDelete := [''/etc/ssh/x''],
    request_Triggers := Some (freshTriggers [exampleTrigger])\<rparr> :: unit update_request"
  let ?st = "\<lparr>lastError = None, hadTriggerFailures = False, world = Map.empty\<rparr>"
  have c: "compileTriggerList (ue_compile exampleEnv) [exampleTrigger] =
      ([exampleTrigger\<lparr>matchRegexes := [Some (PrefixMatcher ''/etc/ssh'')]\<rparr>], None)"
    by (simp add: exampleEnv_def exampleTrigger_def exampleTrigger_compiles)
  obtain trs where run: "applyRequest exampleEnv ?req False (freshTriggers [exampleTrigger]) ?st = Inr (trs, ?st)"
    and s: "map Service (fst (getMatchedTriggers trs)) = [''sshd'']"
    by (simp add: applyRequest_dry affectedPaths_def emptyRequest_def exampleEnv_def evaluate_triggers)
  have "affectedPaths exampleEnv ?req Map.empty = requestPaths ?req"
    by (simp add: affectedPaths_def requestPaths_def emptyRequest_def)
  then show ?thesis
    using predicted_triggers_cover [OF _ c run] s by (simp add: exampleEnv_def)
qed

end
