(* ===== verification/Object_Placement.thy ===== *)
theory Object_Placement
  imports Sub_Update
begin

text \<open>
  From objects to files: the copies that a sub makes of multiply-used objects are just
  enough for the files that the request makes, and every file gets the contents of its
  object. The operating system is a parameter; what is relied on is that copying, renaming
  and removing regular files work.
\<close>

section \<open>A working operating system\<close>

text \<open>
  \<open>content w p\<close> is the contents of the regular file \<open>p\<close>, if there is one. Renaming leaves the
  old name when both are links to one file.
\<close>

definition workingOs :: "'w os \<Rightarrow> ('w \<Rightarrow> string \<rightharpoonup> string) \<Rightarrow> bool" where
  "workingOs os content \<longleftrightarrow>
     (\<forall>p m w. \<exists>w'. os_MkdirAll os p m w = (None, w') \<and> content w' = content w)
     \<and> (\<forall>p w. content w p \<noteq> None \<longrightarrow> (\<exists>w'. os_Open os p w = (None, w') \<and> content w' = content w))
     \<and> (\<forall>p w. \<exists>w'. os_Create os p w = (None, w') \<and> content w' = (content w)(p \<mapsto> ''''))
     \<and> (\<forall>d s w. content w s \<noteq> None \<longrightarrow>
          (\<exists>w'. os_Copy os d s w = (None, w') \<and> content w' = (content w)(d := content w s)))
     \<and> (\<forall>a b w. content w a \<noteq> None \<longrightarrow>
          (\<exists>w' left. os_Rename os a b w = (None, w') \<and> left \<in> {None, content w a}
             \<and> content w' = (content w)(a := left, b := content w a)))
     \<and> (\<forall>a b w. content w a \<noteq> None \<longrightarrow> content w b = None \<longrightarrow>
          (\<exists>w'. os_Link os a b w = (None, w') \<and> content w' = (content w)(b := content w a)))
     \<and> (\<forall>p w. content w p = None \<longrightarrow>
          (\<exists>w'. os_Remove os p w = (Some (PathError ENOENT), w') \<and> content w' = content w))
     \<and> (\<forall>p w. content w p \<noteq> None \<longrightarrow>
          (\<exists>w'. os_Remove os p w = (None, w') \<and> content w' = (content w)(p := None)))
     \<and> (\<forall>p u g w. content w p \<noteq> None \<longrightarrow>
          (\<exists>w'. os_Lchown os p u g w = (None, w') \<and> content w' = content w))
     \<and> (\<forall>p m w. content w p \<noteq> None \<longrightarrow>
          (\<exists>w'. os_Chmod os p m w = (None, w') \<and> content w' = content w))
     \<and> (\<forall>p s n w. content w p \<noteq> None \<longrightarrow>
          (\<exists>w'. os_Chtimes os p s n w = (None, w') \<and> content w' = content w))"

lemma workingOsD:
  assumes "workingOs os content"
  shows "\<exists>w'. os_MkdirAll os p m w = (None, w') \<and> content w' = content w"
    and "content w p \<noteq> None \<Longrightarrow> \<exists>w'. os_Open os p w = (None, w') \<and> content w' = content w"
    and "\<exists>w'. os_Create os p w = (None, w') \<and> content w' = (content w)(p \<mapsto> '''')"
    and "content w s \<noteq> None \<Longrightarrow> \<exists>w'. os_Copy os d s w = (None, w') \<and> content w' = (content w)(d := content w s)"
    and "content w a \<noteq> None \<Longrightarrow> \<exists>w' left. os_Rename os a b w = (None, w') \<and> left \<in> {None, content w a}
             \<and> content w' = (content w)(a := left, b := content w a)"
    and "content w a \<noteq> None \<Longrightarrow> content w b = None \<Longrightarrow>
          \<exists>w'. os_Link os a b w = (None, w') \<and> content w' = (content w)(b := content w a)"
    and "content w p = None \<Longrightarrow> \<exists>w'. os_Remove os p w = (Some (PathError ENOENT), w') \<and> content w' = content w"
    and "content w p \<noteq> None \<Longrightarrow> \<exists>w'. os_Remove os p w = (None, w') \<and> content w' = (content w)(p := None)"
    and "content w p \<noteq> None \<Longrightarrow> \<exists>w'. os_Lchown os p u g w = (None, w') \<and> content w' = content w"
    and "content w p \<noteq> None \<Longrightarrow> \<exists>w'. os_Chmod os p m w = (None, w') \<and> content w' = content w"
    and "content w p \<noteq> None \<Longrightarrow> \<exists>w'. os_Chtimes os p t n w = (None, w') \<and> content w' = content w"
  using assms by (simp_all only: workingOs_def not_False_eq_True simp_thms)

lemma workingOs_memory: "workingOs memoryOs (\<lambda>w. w)"
  unfolding workingOs_def memoryOs_def
  by (auto simp: noop_def failing_def)

text \<open>\<open>m\<close> succeeds in the world \<open>w\<close> and leaves the contents \<open>c\<close>.\<close>

definition yields :: "('w \<Rightarrow> string \<rightharpoonup> string) \<Rightarrow> 'w op \<Rightarrow> 'w \<Rightarrow> (string \<rightharpoonup> string) \<Rightarrow> bool" where
  "yields content m w c \<longleftrightarrow> (\<exists>w'. m w = (None, w') \<and> content w' = c)"

lemma yields_andThen:
  assumes "yields content m w c" and "\<And>w'. content w' = c \<Longrightarrow> yields content k w' d"
  shows "yields content (andThen m k) w d"
proof -
  obtain w1 where w1: "m w = (None, w1)" "content w1 = c" using assms(1) by (auto simp: yields_def)
  then show ?thesis using assms(2) [OF w1(2)] by (auto simp: yields_def andThen_None)
qed

lemma copyFile_yields:
  assumes os: "workingOs os content" and s: "content w s \<noteq> None" and d: "d \<noteq> s"
  shows "yields content (copyFile os d s False) w ((content w)(d := content w s))"
  unfolding copyFile_def if_False
proof (rule yields_andThen)
  show "yields content (os_MkdirAll os (pathDir d) S_IRWXU) w (content w)"
    using workingOsD(1) [OF os] by (simp add: yields_def)
  fix w1
  assume w1: "content w1 = content w"
  show "yields content (andThen (os_Open os s) (andThen (os_Create os d) (os_Copy os d s))) w1
      ((content w)(d := content w s))"
  proof (rule yields_andThen)
    show "yields content (os_Open os s) w1 (content w)"
      using workingOsD(2) [OF os, of w1 s] s w1 by (auto simp: yields_def)
    fix w2
    assume w2: "content w2 = content w"
    show "yields content (andThen (os_Create os d) (os_Copy os d s)) w2 ((content w)(d := content w s))"
    proof (rule yields_andThen)
      show "yields content (os_Create os d) w2 ((content w)(d \<mapsto> ''''))"
        using workingOsD(3) [OF os, of d w2] w2 by (auto simp: yields_def)
      fix w3
      assume w3: "content w3 = (content w)(d \<mapsto> '''')"
      show "yields content (os_Copy os d s) w3 ((content w)(d := content w s))"
        using workingOsD(4) [OF os, of w3 s d] s d w3 by (auto simp: yields_def)
    qed
  qed
qed

lemma copyFile_link_yields:
  assumes os: "workingOs os content" and s: "content w s \<noteq> None" and d: "content w d = None"
  shows "yields content (copyFile os d s True) w ((content w)(d := content w s))"
  unfolding copyFile_def if_True
proof (rule yields_andThen)
  show "yields content (os_MkdirAll os (pathDir d) S_IRWXU) w (content w)"
    using workingOsD(1) [OF os] by (simp add: yields_def)
  fix w1
  assume w1: "content w1 = content w"
  show "yields content (forceLink os s d) w1 ((content w)(d := content w s))"
    using workingOsD(6) [OF os, of w1 s d] s d w1 by (auto simp: yields_def forceLink_def)
qed

lemma renameAndRemove_yields:
  assumes os: "workingOs os content" and a: "content w a \<noteq> None" and ab: "a \<noteq> b"
  shows "yields content (renameAndRemove os a b) w ((content w)(a := None, b := content w a))"
proof -
  obtain w1 left where w1: "os_Rename os a b w = (None, w1)" "left \<in> {None, content w a}"
      "content w1 = (content w)(a := left, b := content w a)"
    using workingOsD(5) [OF os a] by blast
  show ?thesis
  proof (cases left)
    case None
    then obtain w2 where "os_Remove os a w1 = (Some (PathError ENOENT), w2)" "content w2 = content w1"
      using workingOsD(7) [OF os, of w1 a] w1(3) ab by auto
    then show ?thesis using w1 None
      by (auto simp: yields_def renameAndRemove_def IsNotExist_def)
  next
    case (Some c)
    then obtain w2 where "os_Remove os a w1 = (None, w2)" "content w2 = (content w1)(a := None)"
      using workingOsD(8) [OF os, of w1 a] w1(3) ab by auto
    then show ?thesis using w1 ab
      by (auto simp: yields_def renameAndRemove_def fun_eq_iff)
  qed
qed

lemma forceRename_yields:
  assumes "workingOs os content" and "content w a \<noteq> None" and "a \<noteq> b"
  shows "\<exists>w'. forceRename os a b w = Inr (None, w') \<and> content w' = (content w)(a := None, b := content w a)"
  using renameAndRemove_yields [OF assms] by (auto simp: forceRename_def yields_def)

lemma writeRegularMetadata_yields:
  assumes os: "workingOs os content" and p: "content w p \<noteq> None"
  shows "yields content (writeRegularMetadata os r p) w (content w)"
  unfolding writeRegularMetadata_def
proof (rule yields_andThen)
  show "yields content (os_Lchown os p (ri_Uid r) (ri_Gid r)) w (content w)"
    using workingOsD(9) [OF os p] by (simp add: yields_def)
  fix w1
  assume w1: "content w1 = content w"
  show "yields content (andThen (os_Chmod os p (ri_Mode r)) (os_Chtimes os p (ri_MtimeSeconds r) (ri_MtimeNanoSeconds r)))
      w1 (content w)"
  proof (rule yields_andThen)
    show "yields content (os_Chmod os p (ri_Mode r)) w1 (content w)"
      using workingOsD(10) [OF os, of w1 p] p w1 by (simp add: yields_def)
    fix w2
    assume w2: "content w2 = content w"
    show "yields content (os_Chtimes os p (ri_MtimeSeconds r) (ri_MtimeNanoSeconds r)) w2 (content w)"
      using workingOsD(11) [OF os, of w2 p] p w2 by (simp add: yields_def)
  qed
qed

section \<open>The names of objects and their copies\<close>

lemma decimal_nonempty [simp]: "decimal n \<noteq> []"
  by (subst decimal.simps) simp

definition decimalValue :: "string \<Rightarrow> nat" where
  "decimalValue s = foldl (\<lambda>v c. 10 * v + (of_char c - 48)) 0 s"

lemma decimalValue_decimal: "decimalValue (decimal n) = n"
proof (induction n rule: decimal.induct)
  case (1 n)
  show ?case
  proof (cases "n < 10")
    case True
    then show ?thesis by (subst decimal.simps) (simp add: decimalValue_def)
  next
    case False
    have "decimalValue (decimal n) = 10 * decimalValue (decimal (n div 10)) + n mod 10"
      using False by (subst decimal.simps) (simp add: decimalValue_def)
    then show ?thesis using 1 [OF False] by simp
  qed
qed

lemma copyExtension_inject: "copyExtension m = copyExtension n \<longleftrightarrow> m = n"
proof
  assume "copyExtension m = copyExtension n"
  then have "decimalValue (decimal m) = decimalValue (decimal n)" by (simp add: copyExtension_def)
  then show "m = n" by (simp add: decimalValue_decimal)
qed simp

definition slot :: "('re, 'w) update_env \<Rightarrow> hash \<Rightarrow> nat \<Rightarrow> string" where
  "slot env h n = objectFile env h @ (if n = 0 then [] else copyExtension n)"

lemma marshalText_plainName: "h \<noteq> [] \<Longrightarrow> plainName (marshalText h)"
proof -
  assume "h \<noteq> []"
  then have ne: "marshalText h \<noteq> []" using length_marshalText [of h] by auto
  have "CHR ''/'' \<notin> set (marshalText h)" "CHR ''.'' \<notin> set (marshalText h)"
    using marshalText_plain by blast+
  then show ?thesis using ne by (auto simp: plainName_def)
qed

definition absoluteObjects :: "('re, 'w) update_env \<Rightarrow> bool" where
  "absoluteObjects env \<longleftrightarrow>
     (\<exists>ds. ObjectsDir (ue_options env) = absPath ds \<and> list_all plainName ds \<and> ds \<noteq> [])"

lemma objectFile_eq:
  assumes "absoluteObjects env" "length h = hashSize"
  shows "objectFile env h = ObjectsDir (ue_options env) @ ''/'' @ hashToFilename h"
proof -
  obtain ds where ds: "ObjectsDir (ue_options env) = absPath ds" "list_all plainName ds" "ds \<noteq> []"
    using assms(1) by (auto simp: absoluteObjects_def)
  let ?fs = "[marshalText (take 1 h), marshalText (take 1 (drop 1 h)), marshalText (drop 2 h)]"
  have plain: "list_all plainName (ds @ ?fs)"
    using ds(2) assms(2) by (auto simp: hashSize_def intro!: marshalText_plainName)
  have "joinSlash (cs @ fs) = joinSlash cs @ CHR ''/'' # joinSlash fs" if "cs \<noteq> []" "fs \<noteq> []" for cs fs
    using that by (induction cs rule: joinSlash.induct) (auto simp: joinSlash_Cons)
  then have eq: "ObjectsDir (ue_options env) @ ''/'' @ hashToFilename h = absPath (ds @ ?fs)"
    using ds(1,3) by (simp add: absPath_def hashToFilename_def)
  have "objectFile env h = pathClean (ObjectsDir (ue_options env) @ ''/'' @ hashToFilename h)"
    using ds(1) by (simp add: objectFile_def pathJoin_def absPath_def)
  then show ?thesis using pathClean_abs [OF plain] eq by simp
qed

lemma length_hashToFilename: "length h = hashSize \<Longrightarrow> length (hashToFilename h) = 130"
  by (simp add: hashToFilename_def length_marshalText hashSize_def)

lemma slot_inject:
  assumes "absoluteObjects env" "length h = hashSize" "length h' = hashSize"
  shows "slot env h m = slot env h' n \<longleftrightarrow> h = h' \<and> m = n"
proof
  assume "slot env h m = slot env h' n"
  then have "hashToFilename h = hashToFilename h' \<and>
      (if m = 0 then [] else copyExtension m) = (if n = 0 then [] else copyExtension n)"
    using objectFile_eq [OF assms(1,2)] objectFile_eq [OF assms(1,3)] length_hashToFilename [OF assms(2)]
      length_hashToFilename [OF assms(3)]
    by (simp add: slot_def)
  moreover have "copyExtension k \<noteq> []" "[] \<noteq> copyExtension k" for k by (simp_all add: copyExtension_def)
  ultimately show "h = h' \<and> m = n"
    using hashToFilename_inject [OF assms(2,3)] copyExtension_inject by (auto split: if_splits)
qed simp

section \<open>Making the copies\<close>

lemma attempt_yields:
  assumes "yields content m (world st) c"
  shows "lastError (attempt m st) = lastError st \<and> content (world (attempt m st)) = c"
  using assms by (auto simp: yields_def attempt_def)

text \<open>The contents of the files with the copies \<open>1, \<dots>, n\<close> of an object.\<close>

definition withCopies :: "('re, 'w) update_env \<Rightarrow> hash \<Rightarrow> nat \<Rightarrow> (string \<rightharpoonup> string) \<Rightarrow> (string \<rightharpoonup> string)" where
  "withCopies env h n c = (\<lambda>p. if \<exists>k. 0 < k \<and> k \<le> n \<and> p = slot env h k then c (slot env h 0) else c p)"

lemma copyObject_copies:
  assumes os: "workingOs (ue_os env) content" and env: "absoluteObjects env" "length h = hashSize"
  shows "content (world st) (slot env h 0) \<noteq> None \<Longrightarrow>
     lastError (copyObject env h n st) = lastError st
     \<and> content (world (copyObject env h n st)) = withCopies env h n (content (world st))"
proof (induction n arbitrary: st)
  case 0
  then show ?case by (simp add: withCopies_def)
next
  case (Suc n)
  let ?m = "copyFile (ue_os env) (objectFile env h @ copyExtension (Suc n)) (objectFile env h) False"
  let ?c = "content (world st)"
  have s0: "slot env h 0 = objectFile env h" and sn: "slot env h (Suc n) = objectFile env h @ copyExtension (Suc n)"
    by (simp_all add: slot_def)
  have ne: "slot env h (Suc n) \<noteq> slot env h 0" using slot_inject [OF env(1,2,2)] by simp
  have "yields content ?m (world st) (?c(slot env h (Suc n) := ?c (slot env h 0)))"
    using copyFile_yields [OF os, of "world st" "slot env h 0" "slot env h (Suc n)"] Suc.prems ne
    by (simp add: s0 sn)
  from attempt_yields [OF this] have a: "lastError (attempt ?m st) = lastError st"
    "content (world (attempt ?m st)) = ?c(slot env h (Suc n) := ?c (slot env h 0))" by simp_all
  have "withCopies env h n (?c(slot env h (Suc n) := ?c (slot env h 0))) = withCopies env h (Suc n) ?c"
  proof
    fix p
    have "(\<exists>k. 0 < k \<and> k \<le> Suc n \<and> p = slot env h k) \<longleftrightarrow>
        (\<exists>k. 0 < k \<and> k \<le> n \<and> p = slot env h k) \<or> p = slot env h (Suc n)"
      using le_Suc_eq by auto
    then show "withCopies env h n (?c(slot env h (Suc n) := ?c (slot env h 0))) p = withCopies env h (Suc n) ?c p"
      using ne by (cases "\<exists>k. 0 < k \<and> k \<le> n \<and> p = slot env h k"; cases "p = slot env h (Suc n)")
        (auto simp: withCopies_def)
  qed
  moreover have "content (world (attempt ?m st)) (slot env h 0) \<noteq> None"
    using ne Suc.prems unfolding a(2) by simp
  ultimately show ?case using Suc.IH a(1) unfolding a(2) [symmetric] by simp
qed

definition copiesOf :: "u64 \<Rightarrow> nat" where
  "copiesOf n = (if n < 2 then 0 else unat n - 1)"

lemma makeObjectCopies_copies:
  assumes os: "workingOs (ue_os env) content" and env: "absoluteObjects env"
  shows "distinct (map fst mu) \<Longrightarrow> \<forall>h \<in> fst ` set mu. length h = hashSize \<and> content (world st) (slot env h 0) \<noteq> None
    \<Longrightarrow> lastError (makeObjectCopies env mu st) = lastError st
      \<and> (\<forall>p. p \<notin> {slot env h k |h n k. (h, n) \<in> set mu \<and> 0 < k \<and> k \<le> copiesOf n} \<longrightarrow>
            content (world (makeObjectCopies env mu st)) p = content (world st) p)
      \<and> (\<forall>h n k. (h, n) \<in> set mu \<longrightarrow> 0 < k \<longrightarrow> k \<le> copiesOf n \<longrightarrow>
            content (world (makeObjectCopies env mu st)) (slot env h k) = content (world st) (slot env h 0))"
proof (induction mu arbitrary: st)
  case Nil
  then show ?case by (simp add: makeObjectCopies_def)
next
  case (Cons e mu)
  obtain h n where e: "e = (h, n)" by (cases e)
  define st1 where "st1 = copyObject env h (copiesOf n) st"
  have "unat (n - 1) = unat n - 1" if "\<not> n < 2"
    using that by (simp add: word_less_nat_alt unat_sub word_le_nat_alt)
  then have step: "makeObjectCopies env (e # mu) st = makeObjectCopies env mu st1"
    by (simp add: makeObjectCopies_def e st1_def copiesOf_def)
  have h: "length h = hashSize" "content (world st) (slot env h 0) \<noteq> None" using Cons.prems e by auto
  have c1: "lastError st1 = lastError st" "content (world st1) = withCopies env h (copiesOf n) (content (world st))"
    using copyObject_copies [OF os env h(1) h(2), of "copiesOf n"] by (simp_all add: st1_def)
  have base: "content (world st1) (slot env h' 0) = content (world st) (slot env h' 0)" if "length h' = hashSize" for h'
    using slot_inject [OF env that h(1)] by (auto simp: c1 withCopies_def)
  have ne: "h' \<noteq> h" if "(h', n') \<in> set mu" for h' n' using Cons.prems(1) e that by force
  have "\<forall>h \<in> fst ` set mu. length h = hashSize \<and> content (world st1) (slot env h 0) \<noteq> None"
    using Cons.prems(2) base by auto
  note ih = Cons.IH [OF _ this] 
  have len: "length h' = hashSize" if "(h', n') \<in> set mu" for h' n' using Cons.prems(2) that by force
  show ?case
  proof (intro conjI allI impI)
    show "lastError (makeObjectCopies env (e # mu) st) = lastError st"
      using ih Cons.prems(1) c1 by (simp add: step)
  next
    fix p
    assume p: "p \<notin> {slot env h k |h n k. (h, n) \<in> set (e # mu) \<and> 0 < k \<and> k \<le> copiesOf n}"
    then have "content (world (makeObjectCopies env mu st1)) p = content (world st1) p"
      using ih Cons.prems(1) by fastforce
    moreover have "content (world st1) p = content (world st) p"
      using p by (auto simp: c1 withCopies_def e)
    ultimately show "content (world (makeObjectCopies env (e # mu) st)) p = content (world st) p" by (simp add: step)
  next
    fix h' n' k
    assume m: "(h', n') \<in> set (e # mu)" "0 < k" "k \<le> copiesOf n'"
    show "content (world (makeObjectCopies env (e # mu) st)) (slot env h' k) = content (world st) (slot env h' 0)"
    proof (cases "(h', n') \<in> set mu")
      case True
      then show ?thesis using ih Cons.prems(1) m base [OF len [OF True]] by (simp add: step)
    next
      case False
      then have hn: "h' = h" "n' = n" using m(1) e by auto
      have "slot env h k \<notin> {slot env h k |h n k. (h, n) \<in> set mu \<and> 0 < k \<and> k \<le> copiesOf n}"
        using slot_inject [OF env h(1) len] ne by blast
      then have "content (world (makeObjectCopies env mu st1)) (slot env h k) = content (world st1) (slot env h k)"
        using ih Cons.prems(1) by simp
      then show ?thesis using m hn by (auto simp: step c1 withCopies_def)
    qed
  qed
qed

section \<open>Making the files\<close>

definition stocked ::
    "('re, 'w) update_env \<Rightarrow> ('w \<Rightarrow> string \<rightharpoonup> string) \<Rightarrow> (hash \<Rightarrow> string) \<Rightarrow> (hash \<times> u64) list
       \<Rightarrow> named_inode list \<Rightarrow> 'w \<Rightarrow> bool" where
  "stocked env content obj mu ns w \<longleftrightarrow>
     (\<forall>h. map_of mu h = (if uses h ns > 1 then Some (of_nat (uses h ns)) else None)
        \<and> (\<forall>j < uses h ns. content w (slot env h j) = Some (obj h)))"

definition sizedFile :: "named_inode \<Rightarrow> bool" where
  "sizedFile n = (case ni_Inode n of RegularInode r \<Rightarrow> ri_Size r > 0 \<and> length (ri_Hash r) = hashSize | _ \<Rightarrow> False)"

definition fileHash :: "named_inode \<Rightarrow> hash" where
  "fileHash n = (case ni_Inode n of RegularInode r \<Rightarrow> ri_Hash r | _ \<Rightarrow> [])"

lemma uses_sized: "sizedFile n \<Longrightarrow> uses h (n # ns) = (if h = fileHash n then Suc (uses h ns) else uses h ns)"
  by (auto simp: uses_def usesObject_def sizedFile_def fileHash_def split: generic_inode.splits)

lemma takeObject_stocked:
  assumes mu: "map_of mu h = (if k > 0 then Some (of_nat (Suc k)) else None)" and k: "Suc k < 2 ^ 64"
  shows "\<exists>mu'. takeObject env h mu = (slot env h k, mu')
    \<and> (\<forall>g. map_of mu' g = (if g = h then if k > 1 then Some (of_nat k) else None else map_of mu g))"
proof (cases "k = 0")
  case True
  then show ?thesis using mu by (auto simp: takeObject_def slot_def)
next
  case False
  have u: "unat (of_nat (Suc k) :: u64) = Suc k" "unat (of_nat k :: u64) = k"
    using k by (simp_all add: unat_of_nat del: of_nat_Suc)
  have "(1 :: u64) < of_nat (Suc k)" using u(1) False by (simp add: word_less_nat_alt del: of_nat_Suc)
  moreover have "(of_nat (Suc k) :: u64) - 1 = of_nat k" by simp
  moreover have "(of_nat k :: u64) < 2 \<longleftrightarrow> k < 2" using u(2) by (simp add: word_less_nat_alt)
  ultimately show ?thesis using mu False u(2)
    by (auto simp: takeObject_def slot_def map_of_deleteKey map_of_putTable)
qed

lemma makeRegularInode_places:
  assumes os: "workingOs (ue_os env) content" and size: "ri_Size r > 0"
    and take: "takeObject env (ri_Hash r) mu = (a, mu')" and a: "content w a \<noteq> None" "a \<noteq> p"
  shows "\<exists>w'. makeRegularInode env p r mu w = Inr (None, mu', w')
    \<and> content w' = (content w)(a := None, p := content w a)"
proof -
  obtain w1 where w1: "forceRename (ue_os env) a p w = Inr (None, w1)"
    "content w1 = (content w)(a := None, p := content w a)"
    using forceRename_yields [OF os a] by blast
  have "content w1 p \<noteq> None" using w1(2) a by simp
  from writeRegularMetadata_yields [OF os this, of r]
  obtain w2 where "writeRegularMetadata (ue_os env) r p w1 = (None, w2)" "content w2 = content w1"
    by (auto simp: yields_def)
  then show ?thesis using w1 size take by (auto simp: makeRegularInode_def Let_def)
qed

lemma makeInode1_places:
  assumes os: "workingOs (ue_os env) content" and env: "absoluteObjects env"
    and n: "sizedFile n" and len: "Suc (length ns) < 2 ^ 64"
    and apart: "\<And>h j. length h = hashSize \<Longrightarrow> fullPath env (ni_Name n) \<noteq> slot env h j"
    and hashes: "\<And>h. uses h ns > 0 \<Longrightarrow> length h = hashSize"
    and st: "stocked env content obj mu (n # ns) (world st)"
  shows "\<exists>mu' st'. makeInode1 env n (mu, st) = Inr (mu', st') \<and> lastError st' = lastError st
    \<and> stocked env content obj mu' ns (world st')
    \<and> content (world st') (fullPath env (ni_Name n)) = Some (obj (fileHash n))
    \<and> (\<forall>p. p \<noteq> fullPath env (ni_Name n) \<longrightarrow> (\<forall>h j. length h = hashSize \<longrightarrow> p \<noteq> slot env h j)
         \<longrightarrow> content (world st') p = content (world st) p)"
proof -
  obtain r where r: "ni_Inode n = RegularInode r" "ri_Size r > 0" "length (ri_Hash r) = hashSize"
    using n by (auto simp: sizedFile_def split: generic_inode.splits)
  let ?h = "ri_Hash r" and ?k = "uses (ri_Hash r) ns" and ?p = "fullPath env (ni_Name n)" and ?c = "content (world st)"
  have u: "uses h (n # ns) = (if h = ?h then Suc (uses h ns) else uses h ns)" for h
    using uses_sized [OF n] r(1) by (simp add: fileHash_def)
  have "uses ?h ns \<le> length ns" by (simp add: uses_def)
  then have "Suc ?k < 2 ^ 64" using len by simp
  moreover have "map_of mu ?h = (if ?k > 0 then Some (of_nat (Suc ?k)) else None)"
    using st u [of ?h] by (simp add: stocked_def del: of_nat_Suc)
  ultimately obtain mu' where mu': "takeObject env ?h mu = (slot env ?h ?k, mu')"
    "\<And>g. map_of mu' g = (if g = ?h then if ?k > 1 then Some (of_nat ?k) else None else map_of mu g)"
    using takeObject_stocked [of mu ?h ?k env] by blast
  have c: "?c (slot env ?h ?k) = Some (obj ?h)" using st u [of ?h] by (simp add: stocked_def)
  obtain w' where w': "makeRegularInode env ?p r mu (world st) = Inr (None, mu', w')"
    "content w' = ?c(slot env ?h ?k := None, ?p := Some (obj ?h))"
    using makeRegularInode_places [OF os r(2) mu'(1), of "world st" ?p] c apart [OF r(3), of ?k] by fastforce
  have keep: "content w' (slot env h j) = ?c (slot env h j)" if "length h = hashSize" "h \<noteq> ?h \<or> j < ?k" for h j
    using that apart [OF that(1), of j] slot_inject [OF env that(1) r(3), of j ?k] by (auto simp: w'(2))
  have "stocked env content obj mu' ns w'"
    unfolding stocked_def
  proof (intro allI conjI impI)
    fix h
    show "map_of mu' h = (if uses h ns > 1 then Some (of_nat (uses h ns)) else None)"
      using mu'(2) [of h] st u [of h] by (simp add: stocked_def)
    fix j
    assume j: "j < uses h ns"
    then have "content w' (slot env h j) = ?c (slot env h j)"
      by (intro keep hashes) auto
    moreover have "j < uses h (n # ns)" using j u [of h] by auto
    ultimately show "content w' (slot env h j) = Some (obj h)" using st by (simp add: stocked_def)
  qed
  moreover have "makeInode1 env n (mu, st) = Inr (mu', st\<lparr>world := w'\<rparr>)"
    using w'(1) r(1) by (simp add: makeInode1_def attempt_def)
  moreover have "fileHash n = ?h" using r(1) by (simp add: fileHash_def)
  moreover have "content w' p = ?c p" if "p \<noteq> ?p" "\<forall>h j. length h = hashSize \<longrightarrow> p \<noteq> slot env h j" for p
    using that r(3) by (simp add: w'(2))
  ultimately show ?thesis using w'(2) by auto
qed

lemma makeInodes_places:
  assumes os: "workingOs (ue_os env) content" and env: "absoluteObjects env"
  shows "list_all sizedFile ns \<Longrightarrow> length ns < 2 ^ 64 \<Longrightarrow> distinct (map (\<lambda>n. fullPath env (ni_Name n)) ns)
    \<Longrightarrow> \<forall>n \<in> set ns. \<forall>h j. length h = hashSize \<longrightarrow> fullPath env (ni_Name n) \<noteq> slot env h j
    \<Longrightarrow> stocked env content obj mu ns (world st)
    \<Longrightarrow> \<exists>mu' st'. foldE (makeInode1 env) ns (mu, st) = Inr (mu', st') \<and> lastError st' = lastError st
      \<and> (\<forall>n \<in> set ns. content (world st') (fullPath env (ni_Name n)) = Some (obj (fileHash n)))
      \<and> (\<forall>p. p \<notin> (\<lambda>n. fullPath env (ni_Name n)) ` set ns
           \<longrightarrow> (\<forall>h j. length h = hashSize \<longrightarrow> p \<noteq> slot env h j)
           \<longrightarrow> content (world st') p = content (world st) p)"
proof (induction ns arbitrary: mu st)
  case Nil
  then show ?case by simp
next
  case (Cons n ns)
  have hashes: "length h = hashSize" if "uses h ns > 0" for h
  proof -
    obtain m where m: "m \<in> set ns" "usesObject h (ni_Inode m)"
      using \<open>uses h ns > 0\<close> by (auto simp: uses_def filter_empty_conv)
    then have "sizedFile m" using Cons.prems(1) by (simp add: list_all_iff)
    then show ?thesis using m(2) by (auto simp: sizedFile_def usesObject_def split: generic_inode.splits)
  qed
  obtain mu1 st1 where 1: "makeInode1 env n (mu, st) = Inr (mu1, st1)" "lastError st1 = lastError st"
      "stocked env content obj mu1 ns (world st1)"
      "content (world st1) (fullPath env (ni_Name n)) = Some (obj (fileHash n))"
    and same1: "\<And>p. p \<noteq> fullPath env (ni_Name n) \<Longrightarrow> (\<forall>h j. length h = hashSize \<longrightarrow> p \<noteq> slot env h j)
         \<Longrightarrow> content (world st1) p = content (world st) p"
    using makeInode1_places [OF os env, of n ns obj mu st] Cons.prems hashes by auto
  obtain mu2 st2 where 2: "foldE (makeInode1 env) ns (mu1, st1) = Inr (mu2, st2)" "lastError st2 = lastError st1"
      "\<forall>n \<in> set ns. content (world st2) (fullPath env (ni_Name n)) = Some (obj (fileHash n))"
    and same2: "\<And>p. p \<notin> (\<lambda>n. fullPath env (ni_Name n)) ` set ns \<Longrightarrow> (\<forall>h j. length h = hashSize \<longrightarrow> p \<noteq> slot env h j)
           \<Longrightarrow> content (world st2) p = content (world st1) p"
    using Cons.IH [OF _ _ _ _ 1(3)] Cons.prems by auto
  have "content (world st2) (fullPath env (ni_Name n)) = Some (obj (fileHash n))"
    using same2 [of "fullPath env (ni_Name n)"] 1(4) Cons.prems(3,4) by auto
  then show ?case using 1 2 same1 same2 by auto
qed

section \<open>From the cache to the files\<close>

lemma actionLoop_acts:
  "foldE (triggerMatch env) (map name xs) trs = Inr trs' \<Longrightarrow> foldE act xs s = Inr s'
     \<Longrightarrow> actionLoop (\<lambda>_ _. True) env name act get True xs (trs, s) = Inr (trs', s')"
proof (induction xs arbitrary: trs s)
  case (Cons x xs)
  obtain trs1 where "triggerMatch env (name x) trs = Inr trs1" "foldE (triggerMatch env) (map name xs) trs1 = Inr trs'"
    using Cons.prems(1) by (auto split: sum.splits)
  moreover obtain s1 where "act x s = Inr s1" "foldE act xs s1 = Inr s'"
    using Cons.prems(2) by (auto split: sum.splits)
  ultimately show ?case using Cons.IH by simp
qed simp

lemma copyFilesToCache_fills:
  assumes os: "workingOs (ue_os env) content" and env: "absoluteObjects env"
  shows "\<forall>f \<in> set fs. length (fc_Hash f) = hashSize
        \<and> content (world st) (fullPath env (fc_Name f)) = Some (obj (fc_Hash f))
        \<and> content (world st) (slot env (fc_Hash f) 0) = None
    \<Longrightarrow> distinct (map fc_Hash fs)
    \<Longrightarrow> \<forall>f \<in> set fs. \<forall>h j. length h = hashSize \<longrightarrow> fullPath env (fc_Name f) \<noteq> slot env h j
    \<Longrightarrow> lastError (copyFilesToCache env fs st) = lastError st
      \<and> (\<forall>f \<in> set fs. content (world (copyFilesToCache env fs st)) (slot env (fc_Hash f) 0) = Some (obj (fc_Hash f)))
      \<and> (\<forall>p. p \<notin> (\<lambda>f. slot env (fc_Hash f) 0) ` set fs
           \<longrightarrow> content (world (copyFilesToCache env fs st)) p = content (world st) p)"
proof (induction fs arbitrary: st)
  case Nil
  then show ?case by (simp add: copyFilesToCache_def)
next
  case (Cons f fs)
  let ?s = "fullPath env (fc_Name f)" and ?d = "slot env (fc_Hash f) 0"
  let ?m = "copyFile (ue_os env) ?d ?s (fc_DoHardlink f)"
  have s0: "slot env h 0 = objectFile env h" for h by (simp add: slot_def)
  define st1 where "st1 = attempt ?m st"
  have step: "copyFilesToCache env (f # fs) st = copyFilesToCache env fs st1"
    by (simp add: copyFilesToCache_def st1_def s0 fullPath_def)
  have f: "length (fc_Hash f) = hashSize" "content (world st) ?s = Some (obj (fc_Hash f))"
      "content (world st) ?d = None" "?d \<noteq> ?s"
    using Cons.prems(1,3) by fastforce+
  have "yields content ?m (world st) ((content (world st))(?d := content (world st) ?s))"
    using copyFile_yields [OF os, of "world st" ?s ?d] copyFile_link_yields [OF os, of "world st" ?s ?d] f
    by (cases "fc_DoHardlink f") simp_all
  from attempt_yields [OF this] have 1: "lastError st1 = lastError st"
    "content (world st1) = (content (world st))(?d := Some (obj (fc_Hash f)))"
    by (simp_all add: st1_def f(2))
  have others: "slot env (fc_Hash g) 0 \<noteq> ?d" "fullPath env (fc_Name g) \<noteq> ?d" if "g \<in> set fs" for g
  proof -
    have "fc_Hash f \<notin> fc_Hash ` set fs" using Cons.prems(2) by simp
    moreover have "fc_Hash g \<in> fc_Hash ` set fs" using that by (rule imageI)
    ultimately have g: "length (fc_Hash g) = hashSize" "fc_Hash g \<noteq> fc_Hash f"
      using Cons.prems(1) that by (simp, metis)
    then show "slot env (fc_Hash g) 0 \<noteq> ?d" using slot_inject [OF env g(1) f(1), of 0 0] by auto
    show "fullPath env (fc_Name g) \<noteq> ?d" using Cons.prems(3) that f(1) by simp
  qed
  have "\<forall>g \<in> set fs. length (fc_Hash g) = hashSize
        \<and> content (world st1) (fullPath env (fc_Name g)) = Some (obj (fc_Hash g))
        \<and> content (world st1) (slot env (fc_Hash g) 0) = None"
    using Cons.prems(1) others by (simp add: 1)
  note ih = Cons.IH [OF this]
  have "?d \<notin> (\<lambda>f. slot env (fc_Hash f) 0) ` set fs"
    using others(1) by (metis (no_types, lifting) imageE)
  then show ?case using ih Cons.prems(2,3) 1 by (auto simp: step)
qed

text \<open>
  The disk of the sub as its last scan reported it: the cache holds just the objects of the
  report, and the files that are to be copied have the contents of their objects.
\<close>

definition diskMatches ::
    "('re, 'w) update_env \<Rightarrow> ('w \<Rightarrow> string \<rightharpoonup> string) \<Rightarrow> (hash \<Rightarrow> string) \<Rightarrow> sub \<Rightarrow> file_to_copy list \<Rightarrow> 'w \<Rightarrow> bool" where
  "diskMatches env content obj s fs w \<longleftrightarrow>
     (\<forall>h. length h = hashSize \<longrightarrow>
        content w (slot env h 0) = (if h \<in> set (sub_ObjectCache s) then Some (obj h) else None))
     \<and> (\<forall>f \<in> set fs. length (fc_Hash f) = hashSize
          \<and> content w (fullPath env (fc_Name f)) = Some (obj (fc_Hash f)))"

text \<open>No pathname of the request lies among the objects.\<close>

definition apartFromCache :: "('re, 'w) update_env \<Rightarrow> 're update_request \<Rightarrow> bool" where
  "apartFromCache env req \<longleftrightarrow>
     (\<forall>q \<in> set (map ni_Name (InodesToMake req) @ map fc_Name (FilesToCopyToCache req)).
        \<forall>h j. length h = hashSize \<longrightarrow> fullPath env q \<noteq> slot env h j)"

lemma stocked_copies:
  assumes os: "workingOs (ue_os env) content" and env: "absoluteObjects env"
    and mu: "distinct (map fst mu)" "\<And>h. map_of mu h = (if uses h ns > 1 then Some (of_nat (uses h ns)) else None)"
    and ns: "list_all sizedFile ns" "length ns < 2 ^ 64"
    and base: "\<And>h. uses h ns > 0 \<Longrightarrow> length h = hashSize \<and> content (world st) (slot env h 0) = Some (obj h)"
  shows "lastError (makeObjectCopies env mu st) = lastError st
    \<and> stocked env content obj mu ns (world (makeObjectCopies env mu st))"
proof -
  have mem: "uses h ns > 1 \<and> n = of_nat (uses h ns)" if "(h, n) \<in> set mu" for h n
    using mu(2) [of h] map_of_is_SomeI [OF mu(1) that] by (auto split: if_splits)
  have small: "unat (of_nat (uses h ns) :: u64) = uses h ns" for h
  proof -
    have "uses h ns \<le> length ns" by (simp add: uses_def)
    then show ?thesis using ns(2) by (simp add: unat_of_nat)
  qed
  have copies: "copiesOf n = uses h ns - 1" if "(h, n) \<in> set mu" for h n
    using mem [OF that] small [of h] by (auto simp: copiesOf_def word_less_nat_alt)
  have "\<forall>h \<in> fst ` set mu. length h = hashSize \<and> content (world st) (slot env h 0) \<noteq> None"
    using mem base by fastforce
  note c = makeObjectCopies_copies [OF os env mu(1) this]
  have "content (world (makeObjectCopies env mu st)) (slot env h j) = Some (obj h)" if j: "j < uses h ns" for h j
  proof (cases "j = 0")
    case True
    have "slot env h 0 \<notin> {slot env h k |h n k. (h, n) \<in> set mu \<and> 0 < k \<and> k \<le> copiesOf n}"
      using slot_inject [OF env] base [of h] j mem base by fastforce
    then show ?thesis using c base [of h] j True by auto
  next
    case False
    then have "(h, of_nat (uses h ns)) \<in> set mu" using mu(2) [of h] j by (auto intro: map_of_SomeD)
    then show ?thesis using c copies j False base [of h] by force
  qed
  then show ?thesis using c mu(2) by (simp add: stocked_def)
qed

section \<open>Properties\<close>


definition exampleHash :: hash where "exampleHash = replicate 64 7"

definition exampleTwice :: "unit image" where
  "exampleTwice =
     exampleRequired\<lparr>img_FileSystem :=
        \<lparr>InodeTable = [(8, Some (RegularInode (exampleFile\<lparr>ri_Hash := exampleHash\<rparr>))),
                       (9, Some (RegularInode (exampleFile\<lparr>ri_Hash := exampleHash\<rparr>)))],
         NumRegularInodes = 2, TotalDataBytes = 6, DirectoryCount = 1,
         fs_root = Directory [DirectoryEntry ''a'' 8 (Some (RegularInode (exampleFile\<lparr>ri_Hash := exampleHash\<rparr>))),
           DirectoryEntry ''b'' 9 (Some (RegularInode (exampleFile\<lparr>ri_Hash := exampleHash\<rparr>)))] 0 0 0\<rparr>\<rparr>"

definition twiceRequest :: "unit update_request" where
  "twiceRequest =
     emptyRequest\<lparr>InodesToMake :=
         [\<lparr>ni_Name = ''/a'', ni_Inode = RegularInode (exampleFile\<lparr>ri_Hash := exampleHash\<rparr>)\<rparr>,
          \<lparr>ni_Name = ''/b'', ni_Inode = RegularInode (exampleFile\<lparr>ri_Hash := exampleHash\<rparr>)\<rparr>],
       MultiplyUsedObjects := [(exampleHash, 2)], PathsToDelete := [''/old'']\<rparr>"

lemma twiceRun:
  "buildUpdateRequest 0 (exampleSub\<lparr>sub_ObjectCache := [exampleHash]\<rparr>) exampleTwice emptyRequest False False =
     Inr (False, twiceRequest)"
  by (simp add: evaluate_build exampleSub_def exampleTwice_def exampleRequired_def exampleFile_def
      emptyRequest_def twiceRequest_def)

lemma exampleEnv_apart:
  "length h = hashSize \<Longrightarrow> length q < 100 \<Longrightarrow> q \<noteq> slot exampleEnv h j"
proof -
  assume h: "length h = hashSize" and q: "length q < 100"
  have "absoluteObjects exampleEnv"
    unfolding absoluteObjects_def
    by (rule exI [of _ "[''o'']"]) (simp add: exampleEnv_def exampleOptions_def absPath_def plainName_def)
  from objectFile_eq [OF this h] length_hashToFilename [OF h]
  have "length (slot exampleEnv h j) \<ge> 130" by (simp add: slot_def)
  then show ?thesis using q by auto
qed


end
