(* ===== verification/Sub_Daemon.thy ===== *)
theory Sub_Daemon
  imports Sub_Update
begin

text \<open>
  The RPC server of a sub, \<^verbatim>\<open>sub/rpcd\<close>: the lock of a client, the mutual exclusion of
  \<^verbatim>\<open>Fetch\<close>, \<^verbatim>\<open>Update\<close> and \<^verbatim>\<open>Cleanup\<close>, and what \<^verbatim>\<open>Poll\<close> reports. A connection is its
  identity, a number; times and durations are in nanoseconds, and the zero time is \<open>None\<close>.
  Sections under \<^verbatim>\<open>rwLock\<close> are atomic steps.
\<close>

section \<open>State\<close>

type_synonym conn = nat

datatype rpc_error =
    AnotherClientHasTheLock
  | FetchInProgress
  | UpdateInProgress
  | ReadOnlyMode
  | NoFileSystemHistory
  | FetchError string
  | UpdateFailed update_error

record rpc_state =
  disruptionState :: disruption_state
  fetchInProgress :: bool
  updateInProgress :: bool
  lastFetchError :: "rpc_error option"
  lastNote :: string
  lastSuccessfulImageName :: string
  lastUpdateError :: "update_error option"
  lastUpdateHadTriggerFailures :: bool
  lockedBy :: "conn option"
  lockedUntil :: "int option"

record rpc_flags =
  readOnly :: bool
  disableUpdates :: bool
  haveFileSystem :: bool

section \<open>The client lock\<close>

definition maximumClientLockDuration :: int where
  "maximumClientLockDuration = 15 * 10 ^ 9"

text \<open>The time since the zero time is positive: a lock without a deadline has expired.\<close>

definition lockExpired :: "int \<Rightarrow> rpc_state \<Rightarrow> bool" where
  "lockExpired time st = (case lockedUntil st of None \<Rightarrow> True | Some t \<Rightarrow> time - t \<ge> 0)"

definition checkIfLockedByAnotherClient :: "conn \<Rightarrow> int \<Rightarrow> rpc_state \<Rightarrow> rpc_error option \<times> rpc_state" where
  "checkIfLockedByAnotherClient conn time st =
     (case lockedBy st of
        None \<Rightarrow> (None, if lockedUntil st \<noteq> None then st\<lparr>lockedUntil := None\<rparr> else st)
      | Some c \<Rightarrow>
          if lockExpired time st then (None, st\<lparr>lockedBy := None, lockedUntil := None\<rparr>)
          else if c = conn then (None, st)
          else (Some AnotherClientHasTheLock, st))"

definition getClientLock :: "conn \<Rightarrow> int \<Rightarrow> int \<Rightarrow> rpc_state \<Rightarrow> rpc_error option \<times> rpc_state" where
  "getClientLock conn duration time st =
     (case checkIfLockedByAnotherClient conn time st of
        (Some err, st) \<Rightarrow> (Some err, st)
      | (None, st) \<Rightarrow>
          if duration \<le> 0 then (None, st)
          else (None, st\<lparr>lockedBy := Some conn,
                         lockedUntil := Some (time + min duration maximumClientLockDuration)\<rparr>))"

section \<open>Fetching\<close>

definition getFetchLock :: "conn \<Rightarrow> int \<Rightarrow> int \<Rightarrow> rpc_state \<Rightarrow> rpc_error option \<times> rpc_state" where
  "getFetchLock conn lockFor time st =
     (case getClientLock conn lockFor time st of
        (Some err, st) \<Rightarrow> (Some err, st)
      | (None, st) \<Rightarrow>
          if fetchInProgress st then (Some FetchInProgress, st)
          else if updateInProgress st then (Some UpdateInProgress, st)
          else (None, st\<lparr>fetchInProgress := True\<rparr>))"

text \<open>The end of \<^verbatim>\<open>fetchAndUnlock\<close>, with the result of the fetch.\<close>

definition endFetch :: "conn \<Rightarrow> int \<Rightarrow> rpc_error option \<Rightarrow> int \<Rightarrow> rpc_state \<Rightarrow> rpc_error option \<times> rpc_state" where
  "endFetch conn lockFor err time st =
     (case getClientLock conn lockFor time (st\<lparr>fetchInProgress := False, lastFetchError := err\<rparr>) of
        (Some e, st) \<Rightarrow> (Some e, st)
      | (None, st) \<Rightarrow> (err, st))"

text \<open>
  \<^verbatim>\<open>doFetch\<close>: the objects come from the object server one after the other, each with its
  length; the first error ends the fetch. The rate limits do not change what is read.
\<close>

definition readOne :: "'w os \<Rightarrow> string \<Rightarrow> hash \<Rightarrow> u64 \<Rightarrow> string \<times> os_error option \<Rightarrow> 'w op" where
  "readOne os objectsDir h len reader =
     (let filename = pathJoin objectsDir (hashToFilename h)
      in andThen (os_MkdirAll os (pathDir filename) S_IRWXU) (copyToFile os filename reader len))"

fun fetchLoop ::
    "'w os \<Rightarrow> string \<Rightarrow> hash list \<Rightarrow> (os_error + (u64 \<times> string \<times> os_error option)) list \<Rightarrow> 'w op" where
  "fetchLoop os objectsDir [] objs w = (None, w)"
| "fetchLoop os objectsDir (h # hashes) [] w = (Some (TextError ''EOF''), w)"
| "fetchLoop os objectsDir (h # hashes) (Inl err # objs) w = (Some err, w)"
| "fetchLoop os objectsDir (h # hashes) (Inr (len, reader) # objs) w =
     andThen (readOne os objectsDir h len reader) (fetchLoop os objectsDir hashes objs) w"

definition doFetch ::
    "'w os \<Rightarrow> string \<Rightarrow> ('w \<Rightarrow> 'w) \<Rightarrow> (hash list \<Rightarrow> os_error + (os_error + (u64 \<times> string \<times> os_error option)) list)
       \<Rightarrow> hash list \<Rightarrow> 'w op" where
  "doFetch os objectsDir rescanObjectCache objectServer hashes w =
     (case objectServer hashes of
        Inl err \<Rightarrow> (Some err, w)
      | Inr objs \<Rightarrow>
          (case fetchLoop os objectsDir hashes objs w of (err, w) \<Rightarrow> (err, rescanObjectCache w)))"

definition fetchSpeedPercent :: "u64 \<Rightarrow> u8 \<Rightarrow> u64" where
  "fetchSpeedPercent contextPercent requestPercent =
     (if requestPercent \<ge> 100 then 100
      else if ucast requestPercent > contextPercent then ucast requestPercent
      else contextPercent)"

definition enoughBytesForBenchmark :: "(os_error + u64 list) \<Rightarrow> bool" where
  "enoughBytesForBenchmark lengths =
     (case lengths of Inl _ \<Rightarrow> False | Inr ls \<Rightarrow> foldl (+) 0 ls > 1024 * 1024 * 64)"

section \<open>Updating\<close>

definition getUpdateLock :: "rpc_flags \<Rightarrow> conn \<Rightarrow> int \<Rightarrow> rpc_state \<Rightarrow> rpc_error option \<times> rpc_state" where
  "getUpdateLock flags conn time st =
     (if readOnly flags \<or> disableUpdates flags then (Some ReadOnlyMode, st)
      else if \<not> haveFileSystem flags then (Some NoFileSystemHistory, st)
      else case checkIfLockedByAnotherClient conn time st of
        (Some err, st) \<Rightarrow> (Some err, st)
      | (None, st) \<Rightarrow>
          if fetchInProgress st then (Some FetchInProgress, st)
          else if updateInProgress st then (Some UpdateInProgress, st)
          else (None, st\<lparr>updateInProgress := True, lastUpdateError := None\<rparr>))"

text \<open>
  The results of an update are recorded first; the update is over with
  \<^verbatim>\<open>clearUpdateInProgress\<close>, a separate section.
\<close>

definition recordUpdate ::
    "bool \<Rightarrow> update_error option \<Rightarrow> string \<Rightarrow> bool \<Rightarrow> string option \<Rightarrow> rpc_state \<Rightarrow> rpc_state" where
  "recordUpdate triggersFailed err imageName sparseImage note st =
     (let st = st\<lparr>lastUpdateHadTriggerFailures := triggersFailed, lastUpdateError := err\<rparr>
      in if err \<noteq> None then st
         else (let st = (if sparseImage then st else st\<lparr>lastSuccessfulImageName := imageName\<rparr>)
               in case note of None \<Rightarrow> st | Some note \<Rightarrow> st\<lparr>lastNote := note\<rparr>))"

definition clearUpdateInProgress :: "rpc_state \<Rightarrow> rpc_state" where
  "clearUpdateInProgress st = st\<lparr>updateInProgress := False\<rparr>"

text \<open>
  The triggers of an update: those that were stored, merged with those of the request, which
  are stored for the next update.
\<close>

definition oldTriggersFor :: "(os_error + 're trigger list) \<Rightarrow> 're triggers option \<Rightarrow> 're triggers option" where
  "oldTriggersFor stored requested =
     (let old = (case stored of
                   Inl _ \<Rightarrow> []
                 | Inr ts \<Rightarrow> mergeTriggers [] (Some (freshTriggers ts)))
      in exportTriggers (mergeTriggers old requested))"

section \<open>Cleaning up and polling\<close>

fun removeObjects :: "'w os \<Rightarrow> string \<Rightarrow> hash list \<Rightarrow> 'w \<Rightarrow> bool \<times> 'w" where
  "removeObjects os objectsDir [] w = (False, w)"
| "removeObjects os objectsDir (h # hashes) w =
     (case forceRemove os (pathJoin objectsDir (hashToFilename h)) w of
        (err, w) \<Rightarrow>
          (case removeObjects os objectsDir hashes w of (changed, w) \<Rightarrow> (err = None \<or> changed, w)))"

definition Cleanup ::
    "'w os \<Rightarrow> string \<Rightarrow> ('w \<Rightarrow> 'w) \<Rightarrow> hash list \<Rightarrow> rpc_state \<Rightarrow> 'w \<Rightarrow> (rpc_error + bool) \<times> 'w" where
  "Cleanup os objectsDir disruptionCancel hashes st w =
     (if fetchInProgress st then (Inl FetchInProgress, w)
      else if updateInProgress st then (Inl UpdateInProgress, w)
      else case removeObjects os objectsDir hashes w of (changed, w) \<Rightarrow> (Inr changed, disruptionCancel w))"

record poll_response =
  pr_FetchInProgress :: bool
  pr_UpdateInProgress :: bool
  pr_LastFetchError :: "rpc_error option"
  pr_LastNote :: string
  pr_LastSuccessfulImageName :: string
  pr_LastUpdateError :: "update_error option"
  pr_LastUpdateHadTriggerFailures :: bool
  pr_LockedByAnotherClient :: bool
  pr_LockedUntil :: "int option"
  pr_DisruptionState :: disruption_state
  pr_GenerationCount :: u64
  pr_FileSystemFollows :: bool

text \<open>A poll may take the client lock. \<open>generation\<close> is the one of the file system, if there is one.\<close>

definition Poll :: "conn \<Rightarrow> int \<Rightarrow> bool \<Rightarrow> u64 \<Rightarrow> bool \<Rightarrow> u64 \<Rightarrow> int \<Rightarrow> rpc_state \<Rightarrow> poll_response \<times> rpc_state" where
  "Poll conn lockFor shortPollOnly haveGeneration haveFS generation time st =
     (case getClientLock conn lockFor time st of
        (err, st') \<Rightarrow>
          (\<lparr>pr_FetchInProgress = fetchInProgress st, pr_UpdateInProgress = updateInProgress st,
            pr_LastFetchError = lastFetchError st, pr_LastNote = lastNote st,
            pr_LastSuccessfulImageName = lastSuccessfulImageName st,
            pr_LastUpdateError = (if updateInProgress st then None else lastUpdateError st),
            pr_LastUpdateHadTriggerFailures = (\<not> updateInProgress st \<and> lastUpdateHadTriggerFailures st),
            pr_LockedByAnotherClient = (err \<noteq> None), pr_LockedUntil = lockedUntil st',
            pr_DisruptionState = disruptionState st, pr_GenerationCount = generation,
            pr_FileSystemFollows = (haveFS \<and> \<not> shortPollOnly \<and> haveGeneration \<noteq> generation)\<rparr>,
           st'))"

section \<open>The server as a transition system\<close>

text \<open>
  The running calls of \<^verbatim>\<open>fetchAndUnlock\<close> and \<^verbatim>\<open>updateAndUnlock\<close>, each a connection with the
  lock it asked for, and the time, which never runs backwards.
\<close>

record server =
  rpc :: rpc_state
  fetching :: "(conn \<times> int) list"
  updating :: "conn list"
  clock :: int

inductive server_step :: "rpc_flags \<Rightarrow> server \<Rightarrow> server \<Rightarrow> bool" for flags :: rpc_flags where
  tick: "clock s \<le> t \<Longrightarrow> server_step flags s (s\<lparr>clock := t\<rparr>)"
| fetch_accepted: "\<not> readOnly flags \<Longrightarrow> getFetchLock c lockFor (clock s) (rpc s) = (None, r)
    \<Longrightarrow> server_step flags s (s\<lparr>rpc := r, fetching := (c, lockFor) # fetching s\<rparr>)"
| fetch_rejected: "getFetchLock c lockFor (clock s) (rpc s) = (Some err, r)
    \<Longrightarrow> server_step flags s (s\<lparr>rpc := r\<rparr>)"
| fetch_ended: "(c, lockFor) \<in> set (fetching s)
    \<Longrightarrow> server_step flags s
          (s\<lparr>rpc := snd (endFetch c lockFor err (clock s) (rpc s)),
             fetching := remove1 (c, lockFor) (fetching s)\<rparr>)"
| update_accepted: "getUpdateLock flags c (clock s) (rpc s) = (None, r)
    \<Longrightarrow> server_step flags s (s\<lparr>rpc := r, updating := c # updating s\<rparr>)"
| update_rejected: "getUpdateLock flags c (clock s) (rpc s) = (Some err, r)
    \<Longrightarrow> server_step flags s (s\<lparr>rpc := r\<rparr>)"
| update_recorded: "updating s \<noteq> []
    \<Longrightarrow> server_step flags s (s\<lparr>rpc := recordUpdate failures err imageName sparse note (rpc s)\<rparr>)"
| update_ended: "c \<in> set (updating s)
    \<Longrightarrow> server_step flags s (s\<lparr>rpc := clearUpdateInProgress (rpc s), updating := remove1 c (updating s)\<rparr>)"
| polled: "server_step flags s
    (s\<lparr>rpc := snd (Poll c lockFor short haveGeneration haveFS generation (clock s) (rpc s))\<rparr>)"
| disruption_changed: "server_step flags s (s\<lparr>rpc := (rpc s)\<lparr>disruptionState := d\<rparr>\<rparr>)"

definition startState :: "int \<Rightarrow> string \<Rightarrow> server" where
  "startState t name =
     \<lparr>rpc = \<lparr>disruptionState = DisruptionStateAnytime, fetchInProgress = False, updateInProgress = False,
             lastFetchError = None, lastNote = '''', lastSuccessfulImageName = name, lastUpdateError = None,
             lastUpdateHadTriggerFailures = False, lockedBy = None, lockedUntil = None\<rparr>,
      fetching = [], updating = [], clock = t\<rparr>"

definition reachable :: "rpc_flags \<Rightarrow> server \<Rightarrow> bool" where
  "reachable flags s \<longleftrightarrow> (\<exists>t name. (server_step flags)\<^sup>*\<^sup>* (startState t name) s)"

section \<open>The invariant of the server\<close>

definition serverInv :: "server \<Rightarrow> bool" where
  "serverInv s \<longleftrightarrow>
     length (fetching s) = of_bool (fetchInProgress (rpc s))
     \<and> length (updating s) = of_bool (updateInProgress (rpc s))
     \<and> \<not> (fetchInProgress (rpc s) \<and> updateInProgress (rpc s))
     \<and> (case lockedUntil (rpc s) of None \<Rightarrow> True | Some t \<Rightarrow> t \<le> clock s + maximumClientLockDuration)"

text \<open>Taking or checking the lock changes nothing but the lock.\<close>

definition otherThanLock :: "rpc_state \<Rightarrow> rpc_state" where
  "otherThanLock st = st\<lparr>lockedBy := None, lockedUntil := None\<rparr>"

lemma checkIfLocked_keeps:
  assumes "checkIfLockedByAnotherClient c t st = (err, st')"
  shows "otherThanLock st' = otherThanLock st" and "lockedUntil st' \<in> {None, lockedUntil st}"
  using assms
  by (auto simp: checkIfLockedByAnotherClient_def otherThanLock_def split: option.splits if_splits)

lemma getClientLock_keeps:
  assumes "getClientLock c d t st = (err, st')"
  shows "otherThanLock st' = otherThanLock st"
    and "lockedUntil st' \<in> {None, lockedUntil st, Some (t + min d maximumClientLockDuration)}"
proof -
  obtain e1 st1 where c: "checkIfLockedByAnotherClient c t st = (e1, st1)" by (cases "checkIfLockedByAnotherClient c t st")
  note k = checkIfLocked_keeps [OF c]
  show "otherThanLock st' = otherThanLock st" "lockedUntil st' \<in> {None, lockedUntil st, Some (t + min d maximumClientLockDuration)}"
    using assms k by (auto simp: getClientLock_def c otherThanLock_def split: option.splits if_splits)
qed

lemma otherThanLock_fields:
  assumes "otherThanLock st' = otherThanLock st"
  shows "fetchInProgress st' = fetchInProgress st" "updateInProgress st' = updateInProgress st"
  using assms by (cases st; cases st'; simp add: otherThanLock_def)+

definition lockBound :: "int \<Rightarrow> rpc_state \<Rightarrow> bool" where
  "lockBound t st \<longleftrightarrow> (case lockedUntil st of None \<Rightarrow> True | Some u \<Rightarrow> u \<le> t + maximumClientLockDuration)"

lemma lockBound_getClientLock:
  "getClientLock c d t st = (err, st') \<Longrightarrow> lockBound t st \<Longrightarrow> lockBound t st'"
  using getClientLock_keeps(2) [of c d t st err st'] by (auto simp: lockBound_def split: option.splits)

lemma lockBound_check:
  "checkIfLockedByAnotherClient c t st = (err, st') \<Longrightarrow> lockBound t st \<Longrightarrow> lockBound t st'"
  using checkIfLocked_keeps(2) [of c t st err st'] by (auto simp: lockBound_def split: option.splits)

lemma serverInv_eq:
  "serverInv s \<longleftrightarrow>
     length (fetching s) = of_bool (fetchInProgress (rpc s))
     \<and> length (updating s) = of_bool (updateInProgress (rpc s))
     \<and> \<not> (fetchInProgress (rpc s) \<and> updateInProgress (rpc s)) \<and> lockBound (clock s) (rpc s)"
  by (simp add: serverInv_def lockBound_def)

lemma getFetchLock_cases:
  assumes "getFetchLock c d t st = (err, st')"
  obtains (rejected) e where "getClientLock c d t st = (e, st')" "err \<noteq> None"
    | (accepted) st1 where "getClientLock c d t st = (None, st1)" "err = None" "\<not> fetchInProgress st1"
        "\<not> updateInProgress st1" "st' = st1\<lparr>fetchInProgress := True\<rparr>"
  using assms by (auto simp: getFetchLock_def split: prod.splits option.splits if_splits)

lemma getUpdateLock_cases:
  assumes "getUpdateLock flags c t st = (err, st')"
  obtains (refused) "st' = st" "err \<noteq> None"
    | (rejected) e where "checkIfLockedByAnotherClient c t st = (e, st')" "err \<noteq> None"
    | (accepted) st1 where "checkIfLockedByAnotherClient c t st = (None, st1)" "err = None" "\<not> fetchInProgress st1"
        "\<not> updateInProgress st1" "st' = st1\<lparr>updateInProgress := True, lastUpdateError := None\<rparr>"
  using assms by (auto simp: getUpdateLock_def split: prod.splits option.splits if_splits)

lemma lockBound_simps [simp]:
  "lockBound t (st\<lparr>fetchInProgress := b\<rparr>) = lockBound t st"
  "lockBound t (st\<lparr>fetchInProgress := b, lastFetchError := e\<rparr>) = lockBound t st"
  "lockBound t (st\<lparr>updateInProgress := b\<rparr>) = lockBound t st"
  "lockBound t (st\<lparr>updateInProgress := b, lastUpdateError := u\<rparr>) = lockBound t st"
  "lockBound t (st\<lparr>disruptionState := d\<rparr>) = lockBound t st"
  by (simp_all add: lockBound_def)

lemma serverInv_step: "server_step flags s s' \<Longrightarrow> serverInv s \<Longrightarrow> serverInv s'"
proof (induction rule: server_step.induct)
  case (tick s t)
  then show ?case by (auto simp: serverInv_eq lockBound_def split: option.splits)
next
  case (fetch_accepted c lockFor s r)
  from fetch_accepted(2) show ?case
  proof (cases rule: getFetchLock_cases)
    case (accepted st1)
    note k = otherThanLock_fields [OF getClientLock_keeps(1) [OF accepted(1)]]
    show ?thesis using accepted k fetch_accepted(3) lockBound_getClientLock [OF accepted(1)]
      by (simp add: serverInv_eq)
  qed simp
next
  case (fetch_rejected c lockFor s err r)
  from fetch_rejected(1) show ?case
  proof (cases rule: getFetchLock_cases)
    case (rejected e)
    note k = otherThanLock_fields [OF getClientLock_keeps(1) [OF rejected(1)]]
    show ?thesis using rejected k fetch_rejected(2) lockBound_getClientLock [OF rejected(1)]
      by (simp add: serverInv_eq)
  qed simp
next
  case (fetch_ended c lockFor s err)
  let ?st = "(rpc s)\<lparr>fetchInProgress := False, lastFetchError := err\<rparr>"
  obtain e st1 where g: "getClientLock c lockFor (clock s) ?st = (e, st1)"
    by (cases "getClientLock c lockFor (clock s) ?st")
  then have r: "snd (endFetch c lockFor err (clock s) (rpc s)) = st1"
    by (simp add: endFetch_def split: option.splits)
  have "fetching s = [(c, lockFor)]"
    using fetch_ended by (cases "fetching s"; cases "tl (fetching s)") (auto simp: serverInv_eq of_bool_def split: if_splits)
  then show ?case
    using fetch_ended(2) otherThanLock_fields [OF getClientLock_keeps(1) [OF g]] lockBound_getClientLock [OF g]
    by (simp add: serverInv_eq r)
next
  case (update_accepted c s r)
  from update_accepted(1) show ?case
  proof (cases rule: getUpdateLock_cases)
    case (accepted st1)
    note k = otherThanLock_fields [OF checkIfLocked_keeps(1) [OF accepted(1)]]
    show ?thesis using accepted k update_accepted(2) lockBound_check [OF accepted(1)]
      by (simp add: serverInv_eq)
  qed simp_all
next
  case (update_rejected c s err r)
  from update_rejected(1) show ?case
  proof (cases rule: getUpdateLock_cases)
    case refused
    then show ?thesis using update_rejected(2) by simp
  next
    case (rejected e)
    note k = otherThanLock_fields [OF checkIfLocked_keeps(1) [OF rejected(1)]]
    show ?thesis using rejected k update_rejected(2) lockBound_check [OF rejected(1)]
      by (simp add: serverInv_eq)
  qed simp
next
  case (update_recorded s failures err imageName sparse msg)
  then show ?case
    by (auto simp: serverInv_eq recordUpdate_def Let_def lockBound_def split: option.splits)
next
  case (update_ended c s)
  have "updating s = [c]"
    using update_ended by (cases "updating s"; cases "tl (updating s)") (auto simp: serverInv_eq of_bool_def split: if_splits)
  then show ?case using update_ended by (simp add: serverInv_eq clearUpdateInProgress_def)
next
  case (polled s c lockFor short haveGeneration haveFS generation)
  obtain e st1 where g: "getClientLock c lockFor (clock s) (rpc s) = (e, st1)"
    by (cases "getClientLock c lockFor (clock s) (rpc s)")
  then show ?case
    using polled otherThanLock_fields [OF getClientLock_keeps(1) [OF g]] lockBound_getClientLock [OF g]
    by (simp add: serverInv_eq Poll_def)
next
  case (disruption_changed s d)
  then show ?case by (simp add: serverInv_eq)
qed

lemma serverInv_start: "serverInv (startState t name)"
  by (simp add: serverInv_def startState_def)

lemma serverInv_reachable: "reachable flags s \<Longrightarrow> serverInv s"
proof -
  assume "reachable flags s"
  then obtain t name where "(server_step flags)\<^sup>*\<^sup>* (startState t name) s" by (auto simp: reachable_def)
  then show ?thesis by (induction rule: rtranclp_induct) (auto intro: serverInv_step serverInv_start)
qed

section \<open>Properties\<close>

lemma server_steps_trans:
  "(server_step flags)\<^sup>*\<^sup>* s s' \<Longrightarrow> server_step flags s' s'' \<Longrightarrow> (server_step flags)\<^sup>*\<^sup>* s s''"
  by (rule rtranclp.rtrancl_into_rtrancl)

text \<open>
  C8. Fetching and updating exclude each other: in every reachable state of the server at
  most one call of the two kinds is running, and the two flags, which Poll reports and
  Cleanup tests before it removes objects, say which.
\<close>

theorem fetch_update_exclusive:
  assumes "reachable flags s"
  shows "length (fetching s) + length (updating s) \<le> 1
    \<and> (fetchInProgress (rpc s) \<longleftrightarrow> fetching s \<noteq> [])
    \<and> (updateInProgress (rpc s) \<longleftrightarrow> updating s \<noteq> [])
    \<and> (fetching s \<noteq> [] \<or> updating s \<noteq> [] \<longrightarrow> (\<exists>err. Cleanup os dir cancel hashes (rpc s) w = (Inl err, w)))"
  using serverInv_reachable [OF assms]
  by (auto simp: serverInv_def Cleanup_def of_bool_def split: if_splits)

definition exampleFlags :: rpc_flags where
  "exampleFlags = \<lparr>readOnly = False, disableUpdates = False, haveFileSystem = True\<rparr>"

definition fetchingState :: server where
  "fetchingState = (startState 0 '''')\<lparr>rpc := (rpc (startState 0 ''''))\<lparr>fetchInProgress := True,
     lockedBy := Some 7, lockedUntil := Some 1000\<rparr>, fetching := [(7, 1000)]\<rparr>"

lemma reachable_fetching: "reachable exampleFlags fetchingState"
proof -
  have "server_step exampleFlags (startState 0 '''') fetchingState"
    using server_step.fetch_accepted [of exampleFlags 7 1000 "startState 0 ''''"]
    by (simp add: exampleFlags_def fetchingState_def startState_def getFetchLock_def getClientLock_def
        checkIfLockedByAnotherClient_def maximumClientLockDuration_def)
  then show ?thesis unfolding reachable_def by blast
qed

theorem fetch_update_exclusive_witness:
  "length (fetching fetchingState) + length (updating fetchingState) \<le> 1
   \<and> (\<exists>err. Cleanup memoryOs ''/o'' id [] (rpc fetchingState) Map.empty = (Inl err, Map.empty))"
proof -
  have "fetching fetchingState \<noteq> []" by (simp add: fetchingState_def)
  then show ?thesis
    using fetch_update_exclusive [OF reachable_fetching, of memoryOs "''/o''" id "[]" Map.empty] by simp
qed

text \<open>
  C23. The client lock keeps other clients out, and not for longer than a quarter of a minute:
  while a client holds the lock, neither Fetch nor Update of another one is accepted, and 15
  seconds after any reachable state the lock of that state has expired for everyone.
\<close>

theorem client_lock_excludes_and_expires:
  assumes "reachable flags s"
  shows "(\<forall>c c' d. lockedBy (rpc s) = Some c \<longrightarrow> \<not> lockExpired (clock s) (rpc s) \<longrightarrow> c' \<noteq> c \<longrightarrow>
        getFetchLock c' d (clock s) (rpc s) = (Some AnotherClientHasTheLock, rpc s)
        \<and> fst (getUpdateLock flags c' (clock s) (rpc s)) \<noteq> None)
    \<and> (\<forall>c t. t \<ge> clock s + maximumClientLockDuration \<longrightarrow>
        fst (checkIfLockedByAnotherClient c t (rpc s)) = None)"
  using serverInv_reachable [OF assms]
  by (auto simp: serverInv_def getFetchLock_def getClientLock_def getUpdateLock_def
      checkIfLockedByAnotherClient_def lockExpired_def split: option.splits)

theorem client_lock_excludes_and_expires_witness:
  "getFetchLock 8 0 0 (rpc fetchingState) = (Some AnotherClientHasTheLock, rpc fetchingState)
   \<and> fst (checkIfLockedByAnotherClient 8 (15 * 10 ^ 9) (rpc fetchingState)) = None"
  using client_lock_excludes_and_expires [OF reachable_fetching]
  by (simp add: fetchingState_def startState_def lockExpired_def maximumClientLockDuration_def)



end
