(* ===== verification/Scanner_History.thy ===== *)
theory Scanner_History
  imports Update_Request Object_Cache
begin

text \<open>
  The history of scans of a sub (\<^verbatim>\<open>sub/scanner\<close>): every scan that finds a change starts a new
  generation, and a poll sends the file system only to a client that has another generation.
  Times are in nanoseconds; the locks of the history make every operation a step.
\<close>

section \<open>Histories\<close>

record scanned_fs =
  scanned_FileSystem :: file_system
  scanned_ObjectCache :: object_cache

record fs_history =
  fileSystem :: "scanned_fs option"
  scanCount :: u64
  generationCount :: u64
  timeOfLastScan :: int
  durationOfLastScan :: int
  timeOfLastChange :: int

definition compareScanned :: "scanned_fs \<Rightarrow> scanned_fs \<Rightarrow> bool" where
  "compareScanned left right \<longleftrightarrow>
     (if \<not> compareFileSystems (scanned_FileSystem left) (scanned_FileSystem right) then False
      else compareObjects (scanned_ObjectCache left) (scanned_ObjectCache right))"

definition updateHistory :: "scanned_fs option \<Rightarrow> int \<Rightarrow> fs_history \<Rightarrow> fs_history" where
  "updateHistory newFS time fsh =
     (case newFS of
        None \<Rightarrow> fsh\<lparr>timeOfLastScan := time\<rparr>
      | Some newFS \<Rightarrow>
          (let same = (case fileSystem fsh of None \<Rightarrow> False | Some old \<Rightarrow> compareScanned old newFS);
               fsh = fsh\<lparr>durationOfLastScan := time - timeOfLastScan fsh, scanCount := scanCount fsh + 1,
                         timeOfLastScan := time\<rparr>
           in case fileSystem fsh of
                None \<Rightarrow> fsh\<lparr>fileSystem := Some newFS, generationCount := 1, timeOfLastChange := timeOfLastScan fsh\<rparr>
              | Some old \<Rightarrow>
                  if \<not> same
                  then fsh\<lparr>generationCount := generationCount fsh + 1, fileSystem := Some newFS,
                           timeOfLastChange := timeOfLastScan fsh\<rparr>
                  else fsh))"

text \<open>
  A rescan of the object cache alone. A failing scan leaves an empty cache behind, because
  the results of the scan are assigned before the error is looked at.
\<close>

definition scanObjectCacheInto :: "string + object_cache \<Rightarrow> scanned_fs \<Rightarrow> string option \<times> scanned_fs" where
  "scanObjectCacheInto result fs =
     (case result of
        Inl err \<Rightarrow> (Some err, fs\<lparr>scanned_ObjectCache := []\<rparr>)
      | Inr cache \<Rightarrow> (None, fs\<lparr>scanned_ObjectCache := cache\<rparr>))"

definition updateObjectCacheOnly :: "string + object_cache \<Rightarrow> fs_history \<Rightarrow> string option \<times> fs_history" where
  "updateObjectCacheOnly result fsh =
     (case fileSystem fsh of
        None \<Rightarrow> (None, fsh)
      | Some fs \<Rightarrow>
          (case scanObjectCacheInto result fs of
             (Some err, fs') \<Rightarrow> (Some err, fsh\<lparr>fileSystem := Some fs'\<rparr>)
           | (None, fs') \<Rightarrow>
               (let same = compareObjects (scanned_ObjectCache fs) (scanned_ObjectCache fs');
                    fsh = fsh\<lparr>fileSystem := Some fs', scanCount := scanCount fsh + 1\<rparr>
                in (None, if \<not> same then fsh\<lparr>generationCount := generationCount fsh + 1\<rparr> else fsh))))"

datatype scan_event =
    Scanned "scanned_fs option" int
  | CacheScanned "string + object_cache"

fun scanStep :: "fs_history \<Rightarrow> scan_event \<Rightarrow> fs_history" where
  "scanStep fsh (Scanned newFS time) = updateHistory newFS time fsh"
| "scanStep fsh (CacheScanned result) = snd (updateObjectCacheOnly result fsh)"

definition emptyHistory :: fs_history where
  "emptyHistory =
     \<lparr>fileSystem = None, scanCount = 0, generationCount = 0, timeOfLastScan = 0, durationOfLastScan = 0,
      timeOfLastChange = 0\<rparr>"

section \<open>Generations\<close>

text \<open>
  A step that keeps the generation keeps the published file system; any other step starts
  the next generation.
\<close>

fun eventOk :: "scan_event \<Rightarrow> bool" where
  "eventOk (Scanned _ _) = True"
| "eventOk (CacheScanned result) = (case result of Inl _ \<Rightarrow> False | Inr _ \<Rightarrow> True)"

lemma compareObjects_iff: "compareObjects l r \<longleftrightarrow> l = r"
  by (auto simp: compareObjects_def compareLoop_iff)

lemma scanStep_generation:
  assumes "eventOk ev" and "fileSystem fsh = None \<longleftrightarrow> generationCount fsh = 0"
    and "generationCount fsh < - 1"
  shows "(generationCount (scanStep fsh ev) = generationCount fsh \<and> fileSystem (scanStep fsh ev) = fileSystem fsh
        \<or> generationCount (scanStep fsh ev) = generationCount fsh + 1)
    \<and> (fileSystem (scanStep fsh ev) = None \<longleftrightarrow> generationCount (scanStep fsh ev) = 0)"
proof -
  have nz: "generationCount fsh + 1 \<noteq> 0" using assms(3) by (metis add.inverse_unique add.commute less_irrefl)
  show ?thesis
  proof (cases ev)
    case (Scanned newFS time)
    then show ?thesis using assms(2) nz
      by (auto simp: updateHistory_def Let_def split: option.splits)
  next
    case (CacheScanned result)
    then obtain cache where "result = Inr cache" using assms(1) by (cases result) auto
    then show ?thesis using CacheScanned assms(2) nz
      by (cases "fileSystem fsh")
         (auto simp: updateObjectCacheOnly_def scanObjectCacheInto_def Let_def compareObjects_iff)
  qed
qed

lemma scanSteps_generation:
  assumes "list_all eventOk evs" and "fileSystem fsh = None \<longleftrightarrow> generationCount fsh = 0"
    and "unat (generationCount fsh) + length evs < 2 ^ 64"
  shows "unat (generationCount fsh) \<le> unat (generationCount (foldl scanStep fsh evs))
    \<and> unat (generationCount (foldl scanStep fsh evs)) \<le> unat (generationCount fsh) + length evs
    \<and> (generationCount (foldl scanStep fsh evs) = generationCount fsh \<longrightarrow>
         fileSystem (foldl scanStep fsh evs) = fileSystem fsh)
    \<and> (fileSystem (foldl scanStep fsh evs) = None \<longleftrightarrow> generationCount (foldl scanStep fsh evs) = 0)"
  using assms
proof (induction evs arbitrary: fsh)
  case (Cons ev evs)
  let ?f = "scanStep fsh ev"
  have max: "unat (- 1 :: u64) = 2 ^ 64 - 1" by (simp add: unsigned_minus_1_eq_mask mask_eq_exp_minus_1)
  have lt: "generationCount fsh < - 1"
    using Cons.prems(3) by (simp add: word_less_nat_alt max)
  have s: "(generationCount ?f = generationCount fsh \<and> fileSystem ?f = fileSystem fsh
        \<or> generationCount ?f = generationCount fsh + 1) \<and> (fileSystem ?f = None \<longleftrightarrow> generationCount ?f = 0)"
    using scanStep_generation [OF _ Cons.prems(2) lt, of ev] Cons.prems(1) by simp
  have plus: "unat (generationCount fsh + 1) = unat (generationCount fsh) + 1"
    using Cons.prems(3) by (simp add: unat_word_ariths)
  have "unat (generationCount ?f) + length evs < 2 ^ 64"
    using s plus Cons.prems(3) by auto
  note ih = Cons.IH [OF _ _ this]
  show ?case
  proof (cases "generationCount ?f = generationCount fsh")
    case True
    then show ?thesis using ih s Cons.prems(1) by auto
  next
    case False
    then have "unat (generationCount ?f) = unat (generationCount fsh) + 1" using s plus by auto
    then show ?thesis using ih s Cons.prems(1) by auto
  qed
qed simp

text \<open>What a poll decides: whether the file system follows (\<^verbatim>\<open>sub/rpcd/poll.go\<close>).\<close>

definition fileSystemFollows :: "bool \<Rightarrow> u64 \<Rightarrow> fs_history \<Rightarrow> bool" where
  "fileSystemFollows shortPollOnly haveGeneration fsh \<longleftrightarrow>
     fileSystem fsh \<noteq> None \<and> \<not> shortPollOnly \<and> haveGeneration \<noteq> generationCount fsh"

section \<open>Properties\<close>

text \<open>
  C19. The generation identifies the published file system and object cache: a client that
  polled a sub earlier and has since got nothing, because its generation was current, has
  exactly what the sub publishes now. This holds for any sequence of scans in between whose
  rescans of the object cache succeeded, for fewer than 2^64 scans in all.
\<close>

theorem generation_identifies_file_system:
  assumes "list_all eventOk (evs @ evs')" and "length (evs @ evs') < 2 ^ 64"
    and "\<not> fileSystemFollows False (generationCount (foldl scanStep emptyHistory evs))
           (foldl scanStep emptyHistory (evs @ evs'))"
  shows "fileSystem (foldl scanStep emptyHistory (evs @ evs')) = fileSystem (foldl scanStep emptyHistory evs)"
proof -
  let ?f = "foldl scanStep emptyHistory evs" and ?f' = "foldl scanStep emptyHistory (evs @ evs')"
  have g0: "fileSystem emptyHistory = None \<longleftrightarrow> generationCount emptyHistory = 0"
    "unat (generationCount emptyHistory) = 0" by (simp_all add: emptyHistory_def)
  have 1: "unat (generationCount ?f) \<le> length evs" "fileSystem ?f = None \<longleftrightarrow> generationCount ?f = 0"
    using scanSteps_generation [OF _ g0(1), of evs] g0(2) assms(1,2) by auto
  have 2: "generationCount ?f' = generationCount ?f \<longrightarrow> fileSystem ?f' = fileSystem ?f"
    "fileSystem ?f' = None \<longleftrightarrow> generationCount ?f' = 0" "unat (generationCount ?f) \<le> unat (generationCount ?f')"
    using scanSteps_generation [OF _ 1(2), of evs'] 1(1) assms(1,2) by auto
  show ?thesis
  proof (cases "fileSystem ?f'")
    case None
    then have "unat (generationCount ?f) = 0" using 2(2,3) by simp
    then show ?thesis using 1(2) None by (simp add: unat_eq_0)
  next
    case (Some fs)
    then show ?thesis using assms(3) 2(1) by (simp add: fileSystemFollows_def)
  qed
qed

definition exampleScanned :: scanned_fs where
  "exampleScanned =
     \<lparr>scanned_FileSystem = \<lparr>InodeTable = [], NumRegularInodes = 0, TotalDataBytes = 0, DirectoryCount = 1,
        fs_root = Directory [] 0 0 0\<rparr>, scanned_ObjectCache = []\<rparr>"

theorem generation_identifies_file_system_witness:
  "fileSystem (foldl scanStep emptyHistory ([Scanned (Some exampleScanned) 1] @ [Scanned (Some exampleScanned) 2]))
     = fileSystem (foldl scanStep emptyHistory [Scanned (Some exampleScanned) 1])"
proof (rule generation_identifies_file_system)
  show "\<not> fileSystemFollows False (generationCount (foldl scanStep emptyHistory [Scanned (Some exampleScanned) 1]))
     (foldl scanStep emptyHistory ([Scanned (Some exampleScanned) 1] @ [Scanned (Some exampleScanned) 2]))"
    by (simp add: fileSystemFollows_def updateHistory_def emptyHistory_def compareScanned_def exampleScanned_def
        compareFileSystems_def compareDirectoriesMetadata_def compareObjects_def Let_def)
qed simp_all

text \<open>
  A failing rescan of the object cache breaks this: the published cache becomes empty while
  the generation stays.
\<close>

lemma failed_rescan_unnoticed:
  assumes "fileSystem fsh = Some fs"
  shows "updateObjectCacheOnly (Inl err) fsh =
    (Some err, fsh\<lparr>fileSystem := Some (fs\<lparr>scanned_ObjectCache := []\<rparr>)\<rparr>)"
  using assms by (simp add: updateObjectCacheOnly_def scanObjectCacheInto_def)

end
