(* ===== verification/Sub_Services.thy ===== *)
theory Sub_Services
  imports Sub_Update
begin

text \<open>
  Services on a sub: running triggers (\<^verbatim>\<open>sub/rpcd/update.go\<close>) and the disruption manager
  (\<^verbatim>\<open>sub/rpcd/disruption.go\<close>).
\<close>

section \<open>Running triggers\<close>

text \<open>
  The commands that were run so far are the state; \<open>succeeds\<close> decides, from this history,
  whether the next command succeeds. If the machine does not go down after a reboot it is
  rebooted harder, so the commands of a run end with all three attempts.
\<close>

datatype command =
    ServiceCommand string string
  | Reboot
  | ForceReboot
  | HardReboot

definition rebootAttempts :: "command list" where
  "rebootAttempts = [Reboot, ForceReboot, HardReboot]"

type_synonym command_oracle = "command list \<Rightarrow> command \<Rightarrow> bool"

record run_state =
  commands :: "command list"
  stoppedServices :: "string list"
  hadFailures :: bool
  needRestart :: bool

definition restartingTriggers :: "'re trigger list \<Rightarrow> string list" where
  "restartingTriggers ts = map Service (filter (\<lambda>t. \<not> DoReload t) ts)"

definition runCommand :: "command_oracle \<Rightarrow> command \<Rightarrow> run_state \<Rightarrow> bool \<times> run_state" where
  "runCommand succeeds c st = (succeeds (commands st) c, st\<lparr>commands := commands st @ [c]\<rparr>)"

text \<open>
  What is done for one trigger: \<open>None\<close> if it is skipped, otherwise the action. The last
  component says whether the service is noted as stopped.
\<close>

definition triggerAction ::
    "string list \<Rightarrow> bool \<Rightarrow> string \<Rightarrow> string list \<Rightarrow> 're trigger \<Rightarrow> string option \<times> bool" where
  "triggerAction restarting rebooting action stopped t =
     (if Service t \<in> set restarting then
        if DoReload t then (None, False)
        else (Some action, action = ''stop'')
      else if Service t \<notin> set stopped then
        if action = ''stop'' then (None, False)
        else if rebooting then (None, False)
        else (Some ''reload'', False)
      else (Some action, False))"

definition runTrigger ::
    "command_oracle \<Rightarrow> bool \<Rightarrow> string list \<Rightarrow> bool \<Rightarrow> string \<Rightarrow> run_state \<Rightarrow> 're trigger \<Rightarrow> run_state" where
  "runTrigger succeeds disabled restarting rebooting action st t =
     (if Service t = ''subd'' then (if action = ''start'' then st\<lparr>needRestart := True\<rparr> else st)
      else case triggerAction restarting rebooting action (stoppedServices st) t of
        (None, _) \<Rightarrow> st
      | (Some act, stopping) \<Rightarrow>
          (let st = (if stopping then st\<lparr>stoppedServices := List.insert (Service t) (stoppedServices st)\<rparr> else st)
           in if disabled then st
              else case runCommand succeeds (ServiceCommand (Service t) act) st of
                (ok, st) \<Rightarrow>
                  if ok then st
                  else if act = ''start'' \<and> DoReboot t \<and> Service t = ''reboot'' then st
                  else st\<lparr>hadFailures := True\<rparr>))"

text \<open>The result is whether there were failures, the commands in order, and the stopped services.\<close>

definition runTriggers ::
    "command_oracle \<Rightarrow> bool \<Rightarrow> 're trigger list \<Rightarrow> string \<Rightarrow> string list \<Rightarrow> bool \<times> command list \<times> string list" where
  "runTriggers succeeds disabled triggerList action stopped =
     (let rebooting = filter DoReboot triggerList;
          restarting = restartingTriggers triggerList
      in if rebooting \<noteq> [] \<and> action \<noteq> ''start'' then (False, [], stopped)
         else
           (let st = foldl (runTrigger succeeds disabled restarting (rebooting \<noteq> []) action)
                       \<lparr>commands = [], stoppedServices = stopped, hadFailures = False, needRestart = False\<rparr>
                       (if rebooting \<noteq> [] then rebooting else triggerList)
            in if rebooting \<noteq> [] then
                 if hadFailures st then (True, commands st, stoppedServices st)
                 else if disabled then (False, commands st, stoppedServices st)
                 else (True, commands st @ rebootAttempts, stoppedServices st)
               else if needRestart st then
                 (case runCommand succeeds (ServiceCommand ''subd'' ''restart'') st of
                    (ok, st) \<Rightarrow> (hadFailures st \<or> \<not> ok, commands st, stoppedServices st))
               else (hadFailures st, commands st, stoppedServices st)))"

section \<open>What a run does\<close>

text \<open>The commands for a list of triggers when triggers are not disabled.\<close>

fun actionsFor :: "string list \<Rightarrow> bool \<Rightarrow> string \<Rightarrow> string list \<Rightarrow> 're trigger list \<Rightarrow> command list" where
  "actionsFor restarting rebooting action stopped [] = []"
| "actionsFor restarting rebooting action stopped (t # ts) =
     (if Service t = ''subd'' then actionsFor restarting rebooting action stopped ts
      else case triggerAction restarting rebooting action stopped t of
        (None, _) \<Rightarrow> actionsFor restarting rebooting action stopped ts
      | (Some act, stopping) \<Rightarrow>
          ServiceCommand (Service t) act #
            actionsFor restarting rebooting action
              (if stopping then List.insert (Service t) stopped else stopped) ts)"

lemma runTrigger_step:
  assumes "triggerAction restarting rebooting action (stoppedServices st) t = (act, stopping)"
  shows "commands (runTrigger succeeds disabled restarting rebooting action st t) = commands st @
      (if Service t = ''subd'' \<or> disabled then []
       else case act of None \<Rightarrow> [] | Some a \<Rightarrow> [ServiceCommand (Service t) a])"
    and "stoppedServices (runTrigger succeeds disabled restarting rebooting action st t) =
      (if Service t \<noteq> ''subd'' \<and> act \<noteq> None \<and> stopping then List.insert (Service t) (stoppedServices st)
       else stoppedServices st)"
    and "needRestart (runTrigger succeeds disabled restarting rebooting action st t) \<longleftrightarrow>
      needRestart st \<or> (action = ''start'' \<and> Service t = ''subd'')"
proof -
  let ?r = "runTrigger succeeds disabled restarting rebooting action st t"
  have "commands ?r = commands st @
      (if Service t = ''subd'' \<or> disabled then []
       else case act of None \<Rightarrow> [] | Some a \<Rightarrow> [ServiceCommand (Service t) a])
    \<and> stoppedServices ?r = (if Service t \<noteq> ''subd'' \<and> act \<noteq> None \<and> stopping
       then List.insert (Service t) (stoppedServices st) else stoppedServices st)
    \<and> (needRestart ?r \<longleftrightarrow> needRestart st \<or> (action = ''start'' \<and> Service t = ''subd''))"
  proof (cases "Service t = ''subd''")
    case True
    then show ?thesis by (simp add: runTrigger_def)
  next
    case False
    then show ?thesis
      by (cases act) (simp_all add: runTrigger_def assms runCommand_def Let_def)
  qed
  then show "commands ?r = commands st @
      (if Service t = ''subd'' \<or> disabled then []
       else case act of None \<Rightarrow> [] | Some a \<Rightarrow> [ServiceCommand (Service t) a])"
    and "stoppedServices ?r = (if Service t \<noteq> ''subd'' \<and> act \<noteq> None \<and> stopping
       then List.insert (Service t) (stoppedServices st) else stoppedServices st)"
    and "needRestart ?r \<longleftrightarrow> needRestart st \<or> (action = ''start'' \<and> Service t = ''subd'')"
    by blast+
qed

lemma runTrigger_fold:
  "commands (foldl (runTrigger succeeds False restarting rebooting action) st ts) =
     commands st @ actionsFor restarting rebooting action (stoppedServices st) ts"
proof (induction ts arbitrary: st)
  case (Cons t ts)
  obtain act stopping where a: "triggerAction restarting rebooting action (stoppedServices st) t = (act, stopping)"
    by (cases "triggerAction restarting rebooting action (stoppedServices st) t")
  show ?case
    using runTrigger_step(1,2) [OF a, of succeeds False]
    by (cases act) (simp_all add: Cons.IH a)
qed simp

lemma needRestart_fold:
  "needRestart (foldl (runTrigger succeeds disabled restarting rebooting action) st ts) \<longleftrightarrow>
     needRestart st \<or> (action = ''start'' \<and> ''subd'' \<in> Service ` set ts)"
proof (induction ts arbitrary: st)
  case (Cons t ts)
  obtain act stopping where a: "triggerAction restarting rebooting action (stoppedServices st) t = (act, stopping)"
    by (cases "triggerAction restarting rebooting action (stoppedServices st) t")
  show ?case using runTrigger_step(3) [OF a, of succeeds disabled] by (auto simp: Cons.IH)
qed simp

lemma disabled_fold:
  "commands (foldl (runTrigger succeeds True restarting rebooting action) st ts) = commands st"
proof (induction ts arbitrary: st)
  case (Cons t ts)
  obtain act stopping where a: "triggerAction restarting rebooting action (stoppedServices st) t = (act, stopping)"
    by (cases "triggerAction restarting rebooting action (stoppedServices st) t")
  show ?case using runTrigger_step(1) [OF a, of succeeds True] by (simp add: Cons.IH)
qed simp

lemma triggerAction_start: "snd (triggerAction restarting rebooting ''start'' stopped t) = False"
  by (simp add: triggerAction_def)

text \<open>The services of a list of triggers, other than the sub itself, that are restarted or reloaded.\<close>

definition restartedServices :: "'re trigger list \<Rightarrow> string list \<Rightarrow> string set" where
  "restartedServices ts stopped =
     {s \<in> Service ` set ts. s \<noteq> ''subd'' \<and> (s \<in> set (restartingTriggers ts) \<or> s \<in> set stopped)}"

definition reloadedServices :: "'re trigger list \<Rightarrow> string list \<Rightarrow> string set" where
  "reloadedServices ts stopped =
     {s \<in> Service ` set ts. s \<noteq> ''subd'' \<and> s \<notin> set (restartingTriggers ts) \<and> s \<notin> set stopped}"

lemma actionsFor_start_set:
  "set (actionsFor restarting False ''start'' stopped ts) =
     (\<Union>t \<in> set ts. if Service t = ''subd'' then {}
        else case fst (triggerAction restarting False ''start'' stopped t) of
          None \<Rightarrow> {} | Some act \<Rightarrow> {ServiceCommand (Service t) act})"
proof (induction ts)
  case (Cons t ts)
  obtain act where a: "triggerAction restarting False ''start'' stopped t = (act, False)"
    using triggerAction_start [of restarting False stopped t]
    by (cases "triggerAction restarting False ''start'' stopped t") auto
  show ?case by (cases act) (simp_all add: Cons.IH a)
qed simp

lemma actionsFor_start_services:
  "set (actionsFor (restartingTriggers ts) False ''start'' stopped ts) =
     (\<lambda>s. ServiceCommand s ''start'') ` restartedServices ts stopped
     \<union> (\<lambda>s. ServiceCommand s ''reload'') ` reloadedServices ts stopped" (is "?commands = ?started \<union> ?reloaded")
proof -
  let ?r = "restartingTriggers ts"
  have r: "s \<in> set ?r \<longleftrightarrow> (\<exists>t \<in> set ts. Service t = s \<and> \<not> DoReload t)" for s
    by (auto simp: restartingTriggers_def)
  have act: "ServiceCommand s a \<in> ?commands \<longleftrightarrow> s \<noteq> ''subd'' \<and>
      (\<exists>t \<in> set ts. Service t = s \<and> fst (triggerAction ?r False ''start'' stopped t) = Some a)" for s a
    unfolding actionsFor_start_set by (auto split: option.splits if_splits)
  have start: "ServiceCommand s a \<in> ?commands \<longleftrightarrow> s \<in> restartedServices ts stopped \<and> a = ''start''
      \<or> s \<in> reloadedServices ts stopped \<and> a = ''reload''" for s a
  proof (cases "s \<in> set ?r")
    case True
    then show ?thesis using r [of s]
      by (auto simp: act restartedServices_def reloadedServices_def triggerAction_def)
  next
    case False
    then show ?thesis
      by (auto simp: act restartedServices_def reloadedServices_def triggerAction_def)
  qed
  have "\<exists>s a. c = ServiceCommand s a" if "c \<in> ?commands" for c
    using that unfolding actionsFor_start_set by (auto split: option.splits if_splits)
  then show ?thesis using start by blast
qed

lemma actionsFor_stop:
  "set (actionsFor restarting False ''stop'' stopped ts) \<subseteq>
      {ServiceCommand (Service t) ''stop'' |t. t \<in> set ts \<and> Service t \<noteq> ''subd''}
   \<and> (\<forall>t \<in> set ts. Service t \<noteq> ''subd'' \<and> Service t \<in> set restarting \<and> \<not> DoReload t \<longrightarrow>
        ServiceCommand (Service t) ''stop'' \<in> set (actionsFor restarting False ''stop'' stopped ts))"
proof (induction ts arbitrary: stopped)
  case (Cons t ts)
  obtain act stopping where a: "triggerAction restarting False ''stop'' stopped t = (act, stopping)"
    by (cases "triggerAction restarting False ''stop'' stopped t")
  then have act: "act \<in> {None, Some ''stop''}"
    "Service t \<in> set restarting \<and> \<not> DoReload t \<longrightarrow> act = Some ''stop''"
    by (auto simp: triggerAction_def split: if_splits)
  let ?stopped = "if stopping then List.insert (Service t) stopped else stopped"
  show ?case using Cons.IH [of stopped] Cons.IH [of ?stopped] act
    by (cases act) (auto simp: a)
qed simp

section \<open>Properties of a run\<close>

text \<open>
  C20. Starting services after an update without a reboot: every service with a trigger is
  either started, if one of its triggers restarts it or it was stopped before, or reloaded,
  and never both; no other service is touched. The sub itself is never stopped or
  started but restarted as the very last command.
\<close>

theorem start_runs_each_service_once:
  assumes "runTriggers succeeds False ts ''start'' stopped = (failed, cmds, stopped')"
    and "list_all (\<lambda>t. \<not> DoReboot t) ts"
  shows "restartedServices ts stopped \<inter> reloadedServices ts stopped = {}
    \<and> (\<exists>services. cmds = services @ (if ''subd'' \<in> Service ` set ts then [ServiceCommand ''subd'' ''restart''] else [])
        \<and> set services = (\<lambda>s. ServiceCommand s ''start'') ` restartedServices ts stopped
             \<union> (\<lambda>s. ServiceCommand s ''reload'') ` reloadedServices ts stopped)"
proof -
  have nr: "filter DoReboot ts = []" using assms(2) by (simp add: filter_empty_conv list_all_iff)
  let ?st = "foldl (runTrigger succeeds False (restartingTriggers ts) False ''start'')
    \<lparr>commands = [], stoppedServices = stopped, hadFailures = False, needRestart = False\<rparr> ts"
  have c: "commands ?st = actionsFor (restartingTriggers ts) False ''start'' stopped ts"
    by (simp add: runTrigger_fold)
  have n: "needRestart ?st \<longleftrightarrow> ''subd'' \<in> Service ` set ts" by (simp add: needRestart_fold)
  have "cmds = commands ?st @ (if ''subd'' \<in> Service ` set ts then [ServiceCommand ''subd'' ''restart''] else [])"
    using assms(1) n by (auto simp: runTriggers_def nr Let_def runCommand_def split: if_splits)
  moreover have "restartedServices ts stopped \<inter> reloadedServices ts stopped = {}"
    by (auto simp: restartedServices_def reloadedServices_def)
  ultimately show ?thesis using actionsFor_start_services [of ts stopped] c by auto
qed

theorem start_runs_each_service_once_witness:
  "\<exists>services. fst (snd (runTriggers (\<lambda>_ _. True) False [exampleTrigger, exampleTrigger\<lparr>Service := ''subd''\<rparr>] ''start'' []))
       = services @ [ServiceCommand ''subd'' ''restart''] \<and> set services = {ServiceCommand ''sshd'' ''reload''}"
proof -
  let ?ts = "[exampleTrigger, exampleTrigger\<lparr>Service := ''subd''\<rparr>]"
  obtain failed cmds stopped' where r: "runTriggers (\<lambda>_ _. True) False ?ts ''start'' [] = (failed, cmds, stopped')"
    by (cases "runTriggers (\<lambda>_ _. True) False ?ts ''start'' []") auto
  have "list_all (\<lambda>t. \<not> DoReboot t) ?ts" by (simp add: exampleTrigger_def)
  note once = start_runs_each_service_once [OF r this]
  have "restartedServices ?ts [] = {}" "reloadedServices ?ts [] = {''sshd''}"
    by (auto simp: restartedServices_def reloadedServices_def restartingTriggers_def exampleTrigger_def)
  with once show ?thesis using r by simp
qed

text \<open>
  With triggers disabled nothing should run, but the restart of the sub does.
\<close>

lemma disabled_triggers_restart_subd:
  "runTriggers succeeds True [exampleTrigger\<lparr>Service := ''subd''\<rparr>] ''start'' [] =
     (\<not> succeeds [] (ServiceCommand ''subd'' ''restart''), [ServiceCommand ''subd'' ''restart''], [])"
  by (simp add: runTriggers_def runTrigger_def runCommand_def exampleTrigger_def restartingTriggers_def)

text \<open>
  Before a reboot no service is stopped; the machine is rebooted only after the commands of
  the rebooting triggers, and not if one of them failed.
\<close>

lemma no_reboot_action:
  "set (actionsFor restarting rebooting action stopped ts) \<inter> set rebootAttempts = {}"
proof (induction ts arbitrary: stopped)
  case (Cons t ts)
  obtain act stopping where "triggerAction restarting rebooting action stopped t = (act, stopping)"
    by (cases "triggerAction restarting rebooting action stopped t")
  then show ?case using Cons.IH by (cases act) (auto simp: rebootAttempts_def)
qed simp

lemma reboot_last:
  assumes "filter DoReboot ts \<noteq> []"
    and "runTriggers succeeds False ts action stopped = (failed, cmds, stopped')"
  shows "action \<noteq> ''start'' \<Longrightarrow> \<not> failed \<and> cmds = [] \<and> stopped' = stopped"
    and "action = ''start'' \<Longrightarrow> failed \<and>
      (\<exists>services. set services \<inter> set rebootAttempts = {} \<and> cmds \<in> {services, services @ rebootAttempts})"
proof -
  show "action \<noteq> ''start'' \<Longrightarrow> \<not> failed \<and> cmds = [] \<and> stopped' = stopped"
    using assms by (auto simp: runTriggers_def Let_def)
  let ?cmds = "actionsFor (restartingTriggers ts) True ''start'' stopped (filter DoReboot ts)"
  show "action = ''start'' \<Longrightarrow> failed \<and>
      (\<exists>services. set services \<inter> set rebootAttempts = {} \<and> cmds \<in> {services, services @ rebootAttempts})"
    using assms no_reboot_action [of "restartingTriggers ts" True "''start''" stopped "filter DoReboot ts"]
    by (intro conjI exI [of _ ?cmds])
       (auto simp: runTriggers_def Let_def runTrigger_fold split: if_splits)
qed
end
