(* ===== verification/Sub_Disruption.thy ===== *)
theory Sub_Disruption
  imports Sub_Update
begin

text \<open>
  The disruption manager of a sub, \<^verbatim>\<open>sub/rpcd/disruption.go\<close>: an external program that is asked
  whether a disruptive update may go ahead. One goroutine, the loop, decides which commands are
  wanted; another, the queue, runs them one at a time. Each is a function from its state and one
  event of its \<^verbatim>\<open>select\<close> to the next state and what it sends. Times and durations are in
  nanoseconds; the zero time is \<open>None\<close>, from which an unlimited time has passed. A timer is
  the time at which it fires, or \<open>None\<close> if it has fired or was stopped.
\<close>

section \<open>Commands and intervals\<close>

datatype manager_command = ManagerCancel | ManagerCheck | ManagerRequest

definition seconds :: "int \<Rightarrow> int" where "seconds n = n * 10 ^ 9"

definition intervalCheckChangeToDisrupt :: int where "intervalCheckChangeToDisrupt = seconds 1"
definition intervalCheckChangeToNonDisrupt :: int where "intervalCheckChangeToNonDisrupt = seconds 5"
definition intervalCheckDisrupt :: int where "intervalCheckDisrupt = seconds 15"
definition intervalCheckNonDisrupt :: int where "intervalCheckNonDisrupt = seconds (5 * 60)"
definition intervalCheckStartup :: int where "intervalCheckStartup = seconds 10"
definition intervalCancelWhenPermitted :: int where "intervalCancelWhenPermitted = seconds (31 * 60)"
definition intervalCancelWhenRequested :: int where "intervalCancelWhenRequested = seconds (15 * 60)"
definition intervalRequestWhenDenied :: int where "intervalRequestWhenDenied = seconds 60"
definition intervalRequestWhenRequested :: int where "intervalRequestWhenRequested = seconds (15 * 60)"
definition intervalResendMinimum :: int where "intervalResendMinimum = seconds 1"
definition intervalResendSameMutation :: int where "intervalResendSameMutation = seconds 60"

lemmas interval_defs =
  seconds_def intervalCheckChangeToDisrupt_def intervalCheckChangeToNonDisrupt_def intervalCheckDisrupt_def
  intervalCheckNonDisrupt_def intervalCheckStartup_def intervalCancelWhenPermitted_def
  intervalCancelWhenRequested_def intervalRequestWhenDenied_def intervalRequestWhenRequested_def
  intervalResendMinimum_def intervalResendSameMutation_def

definition sinceExceeds :: "int \<Rightarrow> int option \<Rightarrow> int \<Rightarrow> bool" where
  "sinceExceeds now' prev d = (case prev of None \<Rightarrow> True | Some t \<Rightarrow> d < now' - t)"

section \<open>Asking the manager\<close>

definition disruptionCancel :: "string \<Rightarrow> bool list" where
  "disruptionCancel manager = (if manager = '''' then [] else [False])"

definition disruptionRequest :: "string \<Rightarrow> disruption_state \<Rightarrow> disruption_state \<times> bool list" where
  "disruptionRequest manager state =
     (if manager = '''' then (DisruptionStateAnytime, []) else (state, [True]))"

text \<open>How the program ended: normally, with an exit code, or not run at all.\<close>

datatype exec_result = ExecSucceeded | ExecExited int string | ExecFailed string string

datatype manager_error = ManagerFailed string string | InvalidExitCode int string

definition runDisruptionManager :: "exec_result \<Rightarrow> manager_error + disruption_state" where
  "runDisruptionManager result = (case result of
     ExecSucceeded \<Rightarrow> Inr DisruptionStatePermitted
   | ExecFailed err output \<Rightarrow> Inl (ManagerFailed err output)
   | ExecExited code output \<Rightarrow>
       if code = 0 then Inr DisruptionStatePermitted
       else if code = 1 then Inr DisruptionStateRequested
       else if code = 2 then Inr DisruptionStateDenied
       else Inl (InvalidExitCode code output))"

section \<open>The loop\<close>

record loop_state =
  checkInterval :: int
  checkTimer :: "int option"
  currentState :: disruption_state
  initialCancelTimer :: "int option"
  lastCommandTime :: "int option"
  allowCancels :: bool
  wantToDisrupt :: bool

datatype loop_event =
    ControlEvent bool
  | CheckTimerFired
  | InitialCancelTimerFired
  | ResultEvent disruption_state

definition loopStart :: "int \<Rightarrow> loop_state" where
  "loopStart now' = \<lparr>checkInterval = intervalCheckStartup, checkTimer = Some now',
     currentState = DisruptionStateAnytime,
     initialCancelTimer = Some (now' + intervalCancelWhenPermitted), lastCommandTime = None,
     allowCancels = False, wantToDisrupt = False\<rparr>"

text \<open>The cases of the \<^verbatim>\<open>select\<close>: the state, what is sent, and whether to reset the check interval.\<close>

definition loopReceive :: "int \<Rightarrow> loop_event \<Rightarrow> loop_state \<Rightarrow> loop_state \<times> manager_command list \<times> bool" where
  "loopReceive now' e s = (case e of
     ControlEvent want \<Rightarrow>
       (let changed = (want \<noteq> wantToDisrupt s)
        in (s\<lparr>allowCancels := True, initialCancelTimer := None,
              lastCommandTime := (if changed then None else lastCommandTime s),
              wantToDisrupt := want\<rparr>, [], changed))
   | CheckTimerFired \<Rightarrow>
       (let grown = checkInterval s + checkInterval s div 2;
            bound = (if wantToDisrupt s then intervalCheckDisrupt else intervalCheckNonDisrupt);
            next = (if grown > bound then bound else grown)
        in (s\<lparr>checkInterval := next, checkTimer := Some (now' + next)\<rparr>, [ManagerCheck], False))
   | InitialCancelTimerFired \<Rightarrow>
       if allowCancels s then (s\<lparr>initialCancelTimer := None\<rparr>, [], False)
       else (s\<lparr>initialCancelTimer := None, allowCancels := True, lastCommandTime := None\<rparr>, [], True)
   | ResultEvent state \<Rightarrow>
       if state \<noteq> currentState s then (s\<lparr>currentState := state, lastCommandTime := None\<rparr>, [], True)
       else (s, [], False))"

definition sendAfter :: "int \<Rightarrow> int \<Rightarrow> manager_command \<Rightarrow> loop_state \<Rightarrow> loop_state \<times> manager_command list" where
  "sendAfter now' interval command s =
     (if sinceExceeds now' (lastCommandTime s) interval then (s\<lparr>lastCommandTime := Some now'\<rparr>, [command])
      else (s, []))"

definition resetCheck :: "int \<Rightarrow> bool \<Rightarrow> int \<Rightarrow> loop_state \<Rightarrow> loop_state" where
  "resetCheck now' reset interval s =
     (if reset then s\<lparr>checkInterval := interval, checkTimer := Some (now' + interval)\<rparr> else s)"

definition loopDecide :: "int \<Rightarrow> bool \<Rightarrow> loop_state \<Rightarrow> loop_state \<times> manager_command list" where
  "loopDecide now' reset s =
     (if wantToDisrupt s then
        (case (case currentState s of
                 DisruptionStateRequested \<Rightarrow> sendAfter now' intervalRequestWhenRequested ManagerRequest s
               | DisruptionStateDenied \<Rightarrow> sendAfter now' intervalRequestWhenDenied ManagerRequest s
               | _ \<Rightarrow> (s, []))
         of (s, sent) \<Rightarrow> (resetCheck now' reset intervalCheckChangeToDisrupt s, sent))
      else if allowCancels s then
        (case (case currentState s of
                 DisruptionStatePermitted \<Rightarrow> sendAfter now' intervalCancelWhenPermitted ManagerCancel s
               | DisruptionStateRequested \<Rightarrow> sendAfter now' intervalCancelWhenRequested ManagerCancel s
               | _ \<Rightarrow> (s, []))
         of (s, sent) \<Rightarrow> (resetCheck now' reset intervalCheckChangeToNonDisrupt s, sent))
      else (s, []))"

definition loopStep :: "int \<Rightarrow> loop_event \<Rightarrow> loop_state \<Rightarrow> loop_state \<times> manager_command list" where
  "loopStep now' e s =
     (case loopReceive now' e s of (s, sent, reset) \<Rightarrow>
        case loopDecide now' reset s of (s, rest) \<Rightarrow> (s, sent @ rest))"

text \<open>A run of the loop over timed events, with everything it sends.\<close>

fun loopRun :: "(int \<times> loop_event) list \<Rightarrow> loop_state \<Rightarrow> loop_state \<times> (int \<times> manager_command) list" where
  "loopRun [] s = (s, [])"
| "loopRun ((now', e) # es) s =
     (case loopStep now' e s of (s, sent) \<Rightarrow>
        case loopRun es s of (s, rest) \<Rightarrow> (s, map (Pair now') sent @ rest))"

section \<open>The queue\<close>

record queue_state =
  running :: "manager_command option"
  delayTimer :: "int option"
  lastRunTime :: "int option"
  lastMutatingCommandTime :: "int option"
  lastMutatingCommand :: "manager_command option"
  nextCommand :: "manager_command option"

datatype queue_event =
    DelayTimerFired
  | CommandEvent manager_command
  | RunResultEvent "manager_error + disruption_state"

definition queueStart :: "int \<Rightarrow> queue_state" where
  "queueStart now' = \<lparr>running = None, delayTimer = Some now', lastRunTime = None,
     lastMutatingCommandTime = None, lastMutatingCommand = None, nextCommand = None\<rparr>"

text \<open>
  The timer is set to what is left of the minimum interval: at once if the time since the last
  run is longer.
\<close>

definition delayUntil :: "int \<Rightarrow> int option \<Rightarrow> int" where
  "delayUntil now' prev = (case prev of None \<Rightarrow> now' | Some t \<Rightarrow> max now' (t + intervalResendMinimum))"

text \<open>The next state, the command that is started, and the result passed on to the loop.\<close>

definition queueStep ::
    "int \<Rightarrow> queue_event \<Rightarrow> queue_state \<Rightarrow> queue_state \<times> manager_command option \<times> disruption_state option" where
  "queueStep now' e q = (case e of
     DelayTimerFired \<Rightarrow>
       (case (running q, nextCommand q) of
          (None, Some c) \<Rightarrow> (q\<lparr>delayTimer := None, running := Some c, nextCommand := None\<rparr>, Some c, None)
        | _ \<Rightarrow> (q\<lparr>delayTimer := None\<rparr>, None, None))
   | CommandEvent c \<Rightarrow>
       if c \<noteq> ManagerCheck \<and> Some c = lastMutatingCommand q
          \<and> (case lastMutatingCommandTime q of None \<Rightarrow> False | Some t \<Rightarrow> now' - t < intervalResendSameMutation)
       then (q, None, None)
       else (q\<lparr>delayTimer := Some (delayUntil now' (lastRunTime q)),
               nextCommand := (if c \<noteq> ManagerCheck \<or> nextCommand q = None then Some c else nextCommand q)\<rparr>,
             None, None)
   | RunResultEvent result \<Rightarrow>
       (case running q of
          None \<Rightarrow> (q, None, None)
        | Some c \<Rightarrow>
            (let q = q\<lparr>running := None, lastRunTime := Some now'\<rparr>
             in case result of
                  Inl err \<Rightarrow>
                    if c \<noteq> ManagerCheck \<and> nextCommand q = None then
                      (q\<lparr>nextCommand := Some c, delayTimer := Some (now' + seconds 60)\<rparr>, None, None)
                    else (q, None, None)
                | Inr state \<Rightarrow>
                    (if c \<noteq> ManagerCheck then q\<lparr>lastMutatingCommand := Some c, lastMutatingCommandTime := Some now'\<rparr>
                     else q, None, Some state))))"

section \<open>Properties of the loop\<close>

definition loopInv :: "int \<Rightarrow> loop_state \<Rightarrow> bool" where
  "loopInv t s \<longleftrightarrow> seconds 1 \<le> checkInterval s
     \<and> checkInterval s \<le> (if wantToDisrupt s then intervalCheckDisrupt else intervalCheckNonDisrupt)
     \<and> (\<exists>due. checkTimer s = Some due \<and> due \<le> t + checkInterval s)"

lemma sendAfter_fields [simp]:
  "checkInterval (fst (sendAfter t d c s)) = checkInterval s"
  "checkTimer (fst (sendAfter t d c s)) = checkTimer s"
  "currentState (fst (sendAfter t d c s)) = currentState s"
  "allowCancels (fst (sendAfter t d c s)) = allowCancels s"
  "wantToDisrupt (fst (sendAfter t d c s)) = wantToDisrupt s"
  by (simp_all add: sendAfter_def)

lemma loopDecide_inv:
  assumes "loopDecide t reset s = (s', sent)"
    and "seconds 1 \<le> checkInterval s" "checkInterval s \<le> intervalCheckNonDisrupt"
    and "\<exists>due. checkTimer s = Some due \<and> due \<le> t + checkInterval s"
    and "reset \<or> (wantToDisrupt s \<longrightarrow> checkInterval s \<le> intervalCheckDisrupt)"
  shows "loopInv t s'"
proof -
  have reset: "loopInv t (resetCheck t reset (if wantToDisrupt s then intervalCheckChangeToDisrupt
      else intervalCheckChangeToNonDisrupt) u)"
    if "checkInterval u = checkInterval s" "checkTimer u = checkTimer s" "wantToDisrupt u = wantToDisrupt s" for u
    using assms(2-5) that by (auto simp: loopInv_def resetCheck_def interval_defs)
  show ?thesis
  proof (cases "wantToDisrupt s")
    case True
    then have "\<exists>u. s' = resetCheck t reset intervalCheckChangeToDisrupt u \<and> checkInterval u = checkInterval s
        \<and> checkTimer u = checkTimer s \<and> wantToDisrupt u = wantToDisrupt s"
      using assms(1) by (auto simp: loopDecide_def sendAfter_def split: disruption_state.splits if_splits)
    then show ?thesis using reset True by auto
  next
    case False
    then have "s' = s \<or> (\<exists>u. s' = resetCheck t reset intervalCheckChangeToNonDisrupt u
        \<and> checkInterval u = checkInterval s \<and> checkTimer u = checkTimer s \<and> wantToDisrupt u = wantToDisrupt s)"
      using assms(1) by (auto simp: loopDecide_def sendAfter_def split: disruption_state.splits if_splits)
    moreover have "loopInv t s" using False assms(2-4) by (simp add: loopInv_def)
    ultimately show ?thesis using reset False by auto
  qed
qed

lemma loopStep_inv:
  assumes "loopInv t s" "t \<le> t'"
  shows "loopInv t' (fst (loopStep t' e s))"
proof -
  obtain u sent reset where u: "loopReceive t' e s = (u, sent, reset)" by (cases "loopReceive t' e s")
  obtain s' rest where s': "loopDecide t' reset u = (s', rest)" by (cases "loopDecide t' reset u")
  have "seconds 1 \<le> checkInterval u" "checkInterval u \<le> intervalCheckNonDisrupt"
    using u assms by (auto simp: loopInv_def loopReceive_def interval_defs Let_def
        split: loop_event.splits if_splits)
  moreover have "\<exists>due. checkTimer u = Some due \<and> due \<le> t' + checkInterval u"
    using u assms by (fastforce simp: loopInv_def loopReceive_def Let_def split: loop_event.splits if_splits)
  moreover have "reset \<or> (wantToDisrupt u \<longrightarrow> checkInterval u \<le> intervalCheckDisrupt)"
    using u assms by (auto simp: loopInv_def loopReceive_def Let_def split: loop_event.splits if_splits)
  ultimately show ?thesis using loopDecide_inv [OF s'] by (simp add: loopStep_def u s')
qed



text \<open>An event that brings no news: the loop goes on wanting the same in the same state.\<close>

definition quiet :: "loop_state \<Rightarrow> loop_event \<Rightarrow> bool" where
  "quiet s e = (case e of ControlEvent want \<Rightarrow> want = wantToDisrupt s | CheckTimerFired \<Rightarrow> True
     | InitialCancelTimerFired \<Rightarrow> allowCancels s | ResultEvent state \<Rightarrow> state = currentState s)"

definition mutations :: "(int \<times> manager_command) list \<Rightarrow> (int \<times> manager_command) list" where
  "mutations = filter (\<lambda>(t, c). c \<noteq> ManagerCheck)"

definition mutationInterval :: "bool \<Rightarrow> int" where
  "mutationInterval want = (if want then intervalRequestWhenDenied else intervalCancelWhenRequested)"

lemma loopReceive_quiet:
  assumes "loopReceive t e s = (s', sent, reset)" "quiet s e"
  shows "wantToDisrupt s' = wantToDisrupt s \<and> currentState s' = currentState s
    \<and> lastCommandTime s' = lastCommandTime s \<and> mutations (map (Pair t) sent) = []"
  using assms by (cases e) (auto simp: loopReceive_def quiet_def mutations_def Let_def)

lemma sinceExceeds_mono: "sinceExceeds t prev d \<Longrightarrow> d' \<le> d \<Longrightarrow> sinceExceeds t prev d'"
  by (auto simp: sinceExceeds_def split: option.splits)

lemma sendAfter_spaced:
  assumes "sendAfter t d c s = (s', sent)" "d' \<le> d" "c \<noteq> ManagerCheck"
  shows "mutations (map (Pair t) sent) = [] \<and> lastCommandTime s' = lastCommandTime s
      \<or> mutations (map (Pair t) sent) = [(t, c)] \<and> lastCommandTime s' = Some t
        \<and> sinceExceeds t (lastCommandTime s) d'"
  using assms by (auto simp: sendAfter_def mutations_def sinceExceeds_mono split: if_splits)

lemma loopDecide_spaced:
  assumes "loopDecide t reset s = (s', sent)"
  shows "wantToDisrupt s' = wantToDisrupt s \<and> currentState s' = currentState s
    \<and> (mutations (map (Pair t) sent) = [] \<and> lastCommandTime s' = lastCommandTime s
      \<or> mutations (map (Pair t) sent) = [(t, if wantToDisrupt s then ManagerRequest else ManagerCancel)]
        \<and> lastCommandTime s' = Some t
        \<and> sinceExceeds t (lastCommandTime s) (mutationInterval (wantToDisrupt s)))"
proof (cases "(if wantToDisrupt s then currentState s \<in> {DisruptionStateRequested, DisruptionStateDenied}
     else allowCancels s \<and> currentState s \<in> {DisruptionStatePermitted, DisruptionStateRequested})")
  case True
  let ?c = "if wantToDisrupt s then ManagerRequest else ManagerCancel"
  define d where "d = (case currentState s of DisruptionStateRequested \<Rightarrow> seconds (15 * 60)
    | DisruptionStateDenied \<Rightarrow> seconds 60 | _ \<Rightarrow> seconds (31 * 60))"
  define i where "i = (if wantToDisrupt s then intervalCheckChangeToDisrupt else intervalCheckChangeToNonDisrupt)"
  have eq: "(s', sent) = (resetCheck t reset i (fst (sendAfter t d ?c s)), snd (sendAfter t d ?c s))"
    using True assms unfolding d_def i_def
    by (cases "wantToDisrupt s"; cases "currentState s") (simp_all add: loopDecide_def interval_defs split_beta)
  have d: "mutationInterval (wantToDisrupt s) \<le> d"
    using True by (auto simp: d_def mutationInterval_def interval_defs)
  note d = d prod.inject [THEN iffD1, OF eq, THEN conjunct1] prod.inject [THEN iffD1, OF eq, THEN conjunct2]
  show ?thesis using sendAfter_spaced [OF _ d(1), of t ?c s "fst (sendAfter t d ?c s)" sent]
    by (auto simp: d(2,3) resetCheck_def)
next
  case False
  then show ?thesis using assms
    by (auto simp: loopDecide_def resetCheck_def mutations_def split: disruption_state.splits if_splits)
qed

lemma loopRun_spaced:
  assumes "loopRun es s = (s', out)"
    and "\<forall>i < length es. quiet (fst (loopRun (take i es) s)) (snd (es ! i))"
  shows "snd ` set (mutations out) \<subseteq> {if wantToDisrupt s then ManagerRequest else ManagerCancel}
    \<and> sorted_wrt (\<lambda>t t'. mutationInterval (wantToDisrupt s) < t' - t)
        ((case lastCommandTime s of None \<Rightarrow> [] | Some t \<Rightarrow> [t]) @ map fst (mutations out))"
  using assms
proof (induction es arbitrary: s s' out)
  case Nil
  then show ?case by (simp add: mutations_def split: option.splits)
next
  case (Cons te es)
  let ?d = "mutationInterval (wantToDisrupt s)"
  obtain t e where te: "te = (t, e)" by (cases te)
  obtain u sent reset where u: "loopReceive t e s = (u, sent, reset)" by (cases "loopReceive t e s")
  obtain s1 rest where s1: "loopDecide t reset u = (s1, rest)" by (cases "loopDecide t reset u")
  obtain s2 out2 where s2: "loopRun es s1 = (s2, out2)" by (cases "loopRun es s1")
  have step: "loopStep t e s = (s1, sent @ rest)" by (simp add: loopStep_def u s1)
  have out: "out = map (Pair t) sent @ map (Pair t) rest @ out2" using Cons.prems(1) by (simp add: te step s2)
  have "quiet s e" using Cons.prems(2) te by (force dest: spec [of _ 0])
  note q = loopReceive_quiet [OF u this] loopDecide_spaced [OF s1]
  have rest: "\<forall>i < length es. quiet (fst (loopRun (take i es) s1)) (snd (es ! i))"
  proof (intro allI impI)
    fix i assume "i < length es"
    then have "quiet (fst (loopRun (take (Suc i) (te # es)) s)) (snd ((te # es) ! Suc i))"
      using Cons.prems(2) by (metis Suc_less_eq length_Cons)
    then show "quiet (fst (loopRun (take i es) s1)) (snd (es ! i))" by (simp add: te step split_beta)
  qed
  have m: "mutations out = mutations (map (Pair t) rest) @ mutations out2"
    using q(1) by (simp add: out mutations_def)
  have gap: "?d < y - x" if "?d < t - x" "?d < y - t" for x y
    using that by (auto simp: mutationInterval_def interval_defs split: if_splits)
  show ?case using Cons.IH [OF s2 rest] q gap
    by (auto simp: m sinceExceeds_def split: option.splits)
qed

text \<open>
  C26. Without news the manager is not flooded: while neither the wish to disrupt nor the state
  of the manager changes, the loop sends only requests if a disruption is wanted and only
  cancellations otherwise, and any two of them are more than a minute, respectively a
  quarter of an hour, apart.
\<close>

theorem mutations_spaced:
  assumes "loopRun es s = (s', out)"
    and "\<forall>i < length es. quiet (fst (loopRun (take i es) s)) (snd (es ! i))"
  shows "snd ` set (mutations out) \<subseteq> {if wantToDisrupt s then ManagerRequest else ManagerCancel}
    \<and> sorted_wrt (\<lambda>t t'. (if wantToDisrupt s then seconds 60 else seconds (15 * 60)) < t' - t)
        (map fst (mutations out))"
  using loopRun_spaced [OF assms]
  by (cases "wantToDisrupt s")
     (simp_all add: mutationInterval_def sorted_wrt_append intervalRequestWhenDenied_def intervalCancelWhenRequested_def)

definition deniedState :: loop_state where
  "deniedState = (loopStart 0)\<lparr>wantToDisrupt := True, currentState := DisruptionStateDenied\<rparr>"

definition deniedEvents :: "(int \<times> loop_event) list" where
  "deniedEvents = [(seconds 1, ResultEvent DisruptionStateDenied), (seconds 62, ControlEvent True)]"

lemma deniedEvents_run:
  "mutations (snd (loopRun deniedEvents deniedState)) = [(seconds 1, ManagerRequest), (seconds 62, ManagerRequest)]"
  "\<forall>i < length deniedEvents. quiet (fst (loopRun (take i deniedEvents) deniedState)) (snd (deniedEvents ! i))"
  by (simp_all add: deniedEvents_def deniedState_def loopStart_def loopStep_def loopReceive_def loopDecide_def
      sendAfter_def sinceExceeds_def resetCheck_def mutations_def quiet_def less_Suc_eq interval_defs)

theorem mutations_spaced_witness:
  "seconds 60 < seconds 62 - seconds 1
   \<and> sorted_wrt (\<lambda>t t'. seconds 60 < t' - t) (map fst (mutations (snd (loopRun deniedEvents deniedState))))"
proof -
  have w: "wantToDisrupt deniedState" by (simp add: deniedState_def)
  show ?thesis
    using mutations_spaced [OF prod.collapse [symmetric] deniedEvents_run(2)] deniedEvents_run(1)
    by (simp add: w seconds_def)
qed

section \<open>Properties of the queue\<close>

text \<open>
  The delay timer may fire while a command runs; the next command then waits although the timer
  is not set again when the running one ends. It is the next check that gets it going.
\<close>

lemma queue_may_wait:
  fixes q defines "q \<equiv> foldl (\<lambda>q (t, e). fst (queueStep t e q)) (queueStart 0)
    [(0, CommandEvent ManagerCheck), (0, DelayTimerFired), (1, CommandEvent ManagerRequest), (1, DelayTimerFired),
     (2, RunResultEvent (Inr DisruptionStateDenied))]"
  shows "running q = None \<and> delayTimer q = None \<and> nextCommand q = Some ManagerRequest"
  by (simp add: q_def queueStep_def queueStart_def delayUntil_def)



end
