(* ===== verification/Missing_Objects.thy ===== *)
theory Missing_Objects
  imports Update_Safety
begin

text \<open>
  Which objects a sub is missing, and that the dominator cannot panic while it builds the
  request for a sub that misses none: \<open>buildMissingLists\<close> and \<open>buildUpdateRequest\<close> work
  together.
\<close>

section \<open>The missing lists\<close>

definition tableObjects :: "inode_table \<Rightarrow> hash set" where
  "tableObjects t = {ri_Hash r |i r. (i, Some (RegularInode r)) \<in> set t \<and> ri_Size r > 0}"

definition objectsOf :: "file_system \<Rightarrow> hash set" where
  "objectsOf fs = tableObjects (InodeTable fs)"

fun computedObject :: "(string \<rightharpoonup> regular_inode) \<Rightarrow> string list \<Rightarrow> generic_inode option \<Rightarrow> hash set" where
  "computedObject computed (n # ns) (Some (ComputedRegularInode c)) =
     (case computed n of None \<Rightarrow> {} | Some r \<Rightarrow> {ri_Hash r})"
| "computedObject computed _ _ = {}"

definition tableComputed :: "(string \<rightharpoonup> regular_inode) \<Rightarrow> (u64 \<times> string list) list \<Rightarrow> inode_table \<Rightarrow> hash set" where
  "tableComputed computed names t =
     (\<Union>e \<in> set t. computedObject computed (indexTable names (fst e)) (snd e))"

text \<open>The object of a computed file is looked up under the first name of its inode.\<close>

definition computedObjects :: "(string \<rightharpoonup> regular_inode) \<Rightarrow> file_system \<Rightarrow> hash set" where
  "computedObjects computed fs = tableComputed computed (InodeToFilenamesTable fs) (InodeTable fs)"

lemma tableObjects_Cons:
  "tableObjects ((i, ino) # t) =
     (case ino of Some (RegularInode r) \<Rightarrow> if ri_Size r > 0 then insert (ri_Hash r) (tableObjects t) else tableObjects t
      | _ \<Rightarrow> tableObjects t)"
  by (auto simp: tableObjects_def split: option.splits generic_inode.splits)

lemma tableComputed_Cons:
  "tableComputed computed names ((i, ino) # t) =
     computedObject computed (indexTable names i) ino \<union> tableComputed computed names t"
  by (simp add: tableComputed_def)

lemma first_index_cases: "first_index xs = Inr x \<longleftrightarrow> (\<exists>ys. xs = x # ys)"
  by (cases xs) auto

lemma updateMissingLoop_True:
  "updateMissingLoop computed names push ignore t ls = Inr (True, ls') \<Longrightarrow>
     fst ` set (fst ls') = fst ` set (fst ls) \<union> tableObjects t
     \<and> fst ` set (snd ls') = fst ` set (snd ls) \<union> (if push then tableComputed computed names t else {})"
proof (induction computed names push ignore t ls arbitrary: ls' rule: updateMissingLoop.induct)
  case (1 computed names push ignore ls)
  then show ?case by (simp add: tableObjects_def tableComputed_def)
next
  case (2 computed names push ignore inum ino t fetch pushes)
  show ?case
  proof (cases "\<exists>c. ino = Some (ComputedRegularInode c) \<and> push")
    case True
    then obtain c n ns where c: "ino = Some (ComputedRegularInode c)" "push" and n: "indexTable names inum = n # ns"
      using "2.prems" by (auto simp: first_index_cases)
    show ?thesis using 2 c n
      by (cases "computed n") (auto simp: tableObjects_Cons tableComputed_Cons split: if_splits)
  next
    case False
    then show ?thesis using 2
      by (cases ino; cases "the ino"; cases push) (auto simp: tableObjects_Cons tableComputed_Cons split: if_splits)
  qed
qed

lemma updateMissingLists_True:
  assumes "updateMissingLists s img push ignore ls = Inr (True, ls')"
  shows "fst ` set (fst ls') = fst ` set (fst ls) \<union> (case img of None \<Rightarrow> {} | Some im \<Rightarrow> objectsOf (img_FileSystem im))
    \<and> fst ` set (snd ls') = fst ` set (snd ls) \<union>
        (case img of None \<Rightarrow> {}
         | Some im \<Rightarrow> if push then computedObjects (sub_ComputedInodes s) (img_FileSystem im) else {})"
proof (cases img)
  case (Some im)
  then show ?thesis using updateMissingLoop_True [of "sub_ComputedInodes s"] assms
    by (simp add: updateMissingLists_def objectsOf_def computedObjects_def)
qed (use assms in \<open>simp add: updateMissingLists_def\<close>)

lemma deletePresent_sets:
  "fst ` set (fst (deletePresent ls h)) = fst ` set (fst ls) - {h}"
  "fst ` set (snd (deletePresent ls h)) = fst ` set (snd ls) - {h}"
  by (auto simp: deletePresent_def deleteKey_def)

lemma foldl_deletePresent_sets:
  "fst ` set (fst (foldl deletePresent ls hs)) = fst ` set (fst ls) - set hs"
  "fst ` set (snd (foldl deletePresent ls hs)) = fst ` set (snd ls) - set hs"
  by (induction hs arbitrary: ls) (auto simp: deletePresent_sets)

lemma foldl_deleteInode_sets:
  "fst ` set (fst (foldl deleteInode ls t)) = fst ` set (fst ls) - tableObjects t"
  "fst ` set (snd (foldl deleteInode ls t)) = fst ` set (snd ls) - tableObjects t"
proof (induction t arbitrary: ls)
  case (Cons e t)
  {
    case 1
    show ?case using Cons.IH(1) [of "deleteInode ls e"]
      by (cases e; cases "snd e"; cases "the (snd e)") (auto simp: tableObjects_Cons deletePresent_sets)
  next
    case 2
    show ?case using Cons.IH(2) [of "deleteInode ls e"]
      by (cases e; cases "snd e"; cases "the (snd e)") (auto simp: tableObjects_Cons deletePresent_sets)
  }
qed (simp_all add: tableObjects_def)

lemma missing_sets:
  assumes "buildMissingLists s required planned push ignore = Inr (Some (fetch, pushes))"
  shows "fst ` set fetch =
      (case required of None \<Rightarrow> {} | Some im \<Rightarrow> objectsOf (img_FileSystem im))
      \<union> (case planned of None \<Rightarrow> {} | Some im \<Rightarrow> objectsOf (img_FileSystem im))
      - set (sub_ObjectCache s) - objectsOf (sub_FileSystem s)"
    and "fst ` set pushes =
      (case required of None \<Rightarrow> {}
       | Some im \<Rightarrow> if push then computedObjects (sub_ComputedInodes s) (img_FileSystem im) else {})
      - set (sub_ObjectCache s) - objectsOf (sub_FileSystem s)"
proof -
  obtain ls1 ls2 where 1: "updateMissingLists s required push ignore ([], []) = Inr (True, ls1)"
    and 2: "updateMissingLists s planned False False ls1 = Inr (True, ls2)"
    and r: "(fetch, pushes) = foldl deleteInode (foldl deletePresent ls2 (sub_ObjectCache s)) (InodeTable (sub_FileSystem s))"
    using assms by (auto simp: buildMissingLists_def split: if_splits prod.splits)
  have o: "objectsOf (sub_FileSystem s) = tableObjects (InodeTable (sub_FileSystem s))"
    by (simp add: objectsOf_def)
  note f = foldl_deleteInode_sets [of "foldl deletePresent ls2 (sub_ObjectCache s)" "InodeTable (sub_FileSystem s)",
      folded r, unfolded fst_conv snd_conv foldl_deletePresent_sets, folded o]
  note u1 = updateMissingLists_True [OF 1] and u2 = updateMissingLists_True [OF 2]
  show "fst ` set fetch =
      (case required of None \<Rightarrow> {} | Some im \<Rightarrow> objectsOf (img_FileSystem im))
      \<union> (case planned of None \<Rightarrow> {} | Some im \<Rightarrow> objectsOf (img_FileSystem im))
      - set (sub_ObjectCache s) - objectsOf (sub_FileSystem s)"
    using f(1) u1 u2 by simp
  show "fst ` set pushes =
      (case required of None \<Rightarrow> {}
       | Some im \<Rightarrow> if push then computedObjects (sub_ComputedInodes s) (img_FileSystem im) else {})
      - set (sub_ObjectCache s) - objectsOf (sub_FileSystem s)"
    using f(2) u1 u2 by (simp split: option.splits)
qed

section \<open>Consistent images\<close>

text \<open>
  What every image that was scanned or decoded satisfies: the tree and the inode table
  agree, no inode pointer is nil, and every inode of the table has a name.
\<close>

definition consistentFS :: "file_system \<Rightarrow> bool" where
  "consistentFS fs \<longleftrightarrow>
     distinct (map fst (InodeTable fs))
     \<and> (\<forall>(p, i, ino) \<in> set (pathsOf fs).
          case ino of
            None \<Rightarrow> False
          | Some (DirectoryInode d) \<Rightarrow> True
          | Some _ \<Rightarrow> map_of (InodeTable fs) i = Some ino)
     \<and> (\<forall>i \<in> fst ` set (InodeTable fs). filenamesOf i (pathsOf fs) \<noteq> [])"

fun hashInodes :: "hash \<Rightarrow> inode_table \<Rightarrow> u64 list" where
  "hashInodes h [] = []"
| "hashInodes h ((i, Some (RegularInode r)) # t) =
     (if ri_Size r > 0 \<and> ri_Hash r = h then i # hashInodes h t else hashInodes h t)"
| "hashInodes h (_ # t) = hashInodes h t"

definition addHash :: "(hash \<times> u64 list) list \<Rightarrow> u64 \<times> generic_inode option \<Rightarrow> (hash \<times> u64 list) list" where
  "addHash = (\<lambda>t (inum, ino).
         case ino of
           Some (RegularInode r) \<Rightarrow> if ri_Size r > 0 then appendTable (ri_Hash r) inum t else t
         | _ \<Rightarrow> t)"

lemma indexTable_addHash:
  "indexTable (foldl addHash t tbl) h = indexTable t h @ hashInodes h tbl"
  by (induction h tbl arbitrary: t rule: hashInodes.induct)
     (auto simp: addHash_def indexTable_appendTable)

lemma nonempty_addHash: "[] \<notin> snd ` set t \<Longrightarrow> [] \<notin> snd ` set (foldl addHash t tbl)"
proof (induction tbl arbitrary: t)
  case (Cons e tbl)
  have "[] \<notin> snd ` set (appendTable h i t)" if "[] \<notin> snd ` set t" for h :: hash and i :: u64 and t
    using that by (induction h i t rule: appendTable.induct) auto
  with Cons show ?case by (cases e) (auto simp: addHash_def split: option.splits generic_inode.splits)
qed simp

lemma map_of_HashToInodesTable:
  "map_of (HashToInodesTable fs) h =
     (if hashInodes h (InodeTable fs) = [] then None else Some (hashInodes h (InodeTable fs)))"
proof -
  have H: "HashToInodesTable fs = foldl addHash [] (InodeTable fs)"
    by (simp add: HashToInodesTable_def addHash_def)
  have "v \<noteq> []" if "map_of (HashToInodesTable fs) h = Some v" for v
    using map_of_SomeD [OF that] nonempty_addHash [of "[]" "InodeTable fs"] unfolding H by force
  then show ?thesis
    using indexTable_addHash [of "[]" "InodeTable fs" h]
    by (cases "map_of (HashToInodesTable fs) h") (auto simp: H indexTable_def)
qed

lemma hashInodes_table: "i \<in> set (hashInodes h t) \<Longrightarrow> i \<in> fst ` set t"
  by (induction h t rule: hashInodes.induct) (auto split: if_splits)

lemma hashInodes_tableObjects: "h \<in> tableObjects t \<longleftrightarrow> hashInodes h t \<noteq> []"
proof (induction h t rule: hashInodes.induct)
  case (1 h)
  then show ?case by (simp add: tableObjects_def)
qed (auto simp: tableObjects_Cons)

lemma getFileToCopy_supplied:
  assumes "consistentFS (subFS env)" and "h \<in> objectsOf (subFS env)"
  shows "\<exists>f. getFileToCopy env q h = Inr f"
proof -
  obtain i js where i: "hashInodes h (InodeTable (subFS env)) = i # js"
    using assms(2) hashInodes_tableObjects [of h "InodeTable (subFS env)"] unfolding objectsOf_def
    by (cases "hashInodes h (InodeTable (subFS env))") auto
  have "i \<in> fst ` set (InodeTable (subFS env))" using hashInodes_table [of i h] i by simp
  then have "filenamesOf i (pathsOf (subFS env)) \<noteq> []" using assms(1) by (auto simp: consistentFS_def)
  then obtain n ns where "indexTable (InodeToFilenamesTable (subFS env)) i = n # ns"
    by (auto simp: indexTable_InodeToFilenamesTable neq_Nil_conv)
  then show ?thesis by (simp add: getFileToCopy_def map_of_HashToInodesTable i)
qed

section \<open>Entries and paths\<close>

lemma entriesByName_key: "(k, e) \<in> set (entriesByName es) \<Longrightarrow> Name e = k"
proof -
  have put: "\<forall>(k, e) \<in> set (putTable (Name v) v t). Name e = k" if "\<forall>(k, e) \<in> set t. Name e = k"
    for v :: directory_entry and t
    using that by (induction "Name v" v t rule: putTable.induct) auto
  have "\<forall>(k, e) \<in> set (foldl (\<lambda>m e. putTable (Name e) e m) t es). Name e = k" if "\<forall>(k, e) \<in> set t. Name e = k" for t
    using that
  proof (induction es arbitrary: t)
    case (Cons a es)
    from Cons.IH [OF put [OF Cons.prems, of a]] show ?case by simp
  qed simp
  from this [of "[]"] show "(k, e) \<in> set (entriesByName es) \<Longrightarrow> Name e = k"
    by (auto simp: entriesByName_def)
qed

lemma lookupEntry_SomeD:
  "lookupEntry sd n = Some se \<Longrightarrow> \<exists>d. sd = Some d \<and> se \<in> set (EntryList d) \<and> Name se = n"
  using set_entriesByName entriesByName_key
  by (cases sd) (fastforce simp: lookupEntry_def dest!: map_of_SomeD)+

lemma paths_of_entry:
  "e \<in> set es \<Longrightarrow> (pathJoin p (Name e), InodeNumber e, inode e) \<in> set (pathsOfEntries es p)
     \<and> set (pathsOfInode (inode e) (pathJoin p (Name e))) \<subseteq> set (pathsOfEntries es p)"
proof (induction es)
  case (Cons a es)
  then show ?case by (cases a) auto
qed simp

lemma pathsOfDirectory_eq: "pathsOfDirectory d p = pathsOfEntries (EntryList d) p"
  by (cases d) simp

definition placed :: "build_env \<Rightarrow> directory_inode option \<Rightarrow> directory_inode \<Rightarrow> string \<Rightarrow> bool" where
  "placed env sd rd p \<longleftrightarrow>
     set (pathsOfDirectory rd p) \<subseteq> set (pathsOf (requiredFS env))
     \<and> (\<forall>d. sd = Some d \<longrightarrow> set (pathsOfDirectory d p) \<subseteq> set (pathsOf (subFS env)))"

lemma placed_entry:
  "placed env sd rd p \<Longrightarrow> e \<in> set (sortedEntries rd)
     \<Longrightarrow> (pathJoin p (Name e), InodeNumber e, inode e) \<in> set (pathsOf (requiredFS env))"
  using paths_of_entry [of e "EntryList rd" p] set_sortedEntries [of rd]
  by (auto simp: placed_def pathsOfDirectory_eq)

lemma placed_subEntry:
  assumes "placed env sd rd p" and "lookupEntry sd n = Some se"
  shows "(pathJoin p n, InodeNumber se, inode se) \<in> set (pathsOf (subFS env))"
proof -
  obtain d where d: "sd = Some d" "se \<in> set (EntryList d)" "Name se = n"
    using lookupEntry_SomeD [OF assms(2)] by auto
  then show ?thesis using assms(1) paths_of_entry [of se "EntryList d" p]
    by (auto simp: placed_def pathsOfDirectory_eq)
qed

lemma subDirectoryOf_SomeD:
  "subDirectoryOf se = Some d \<Longrightarrow> \<exists>e. se = Some e \<and> inode e = Some (DirectoryInode d)"
  by (induction se rule: subDirectoryOf.induct) auto

lemma placed_descend:
  assumes pl: "placed env sd rd p" and e: "e \<in> set (sortedEntries rd)" and d: "inode e = Some (DirectoryInode d)"
  shows "placed env (subDirectoryOf (lookupEntry sd (Name e))) d (pathJoin p (Name e))"
proof -
  have "set (pathsOfDirectory d (pathJoin p (Name e))) \<subseteq> set (pathsOf (requiredFS env))"
    using paths_of_entry [of e "EntryList rd" p] set_sortedEntries [of rd] e pl d
    by (auto simp: placed_def pathsOfDirectory_eq)
  moreover have "set (pathsOfDirectory sd' (pathJoin p (Name e))) \<subseteq> set (pathsOf (subFS env))"
    if sd': "subDirectoryOf (lookupEntry sd (Name e)) = Some sd'" for sd'
  proof -
    obtain se where se: "lookupEntry sd (Name e) = Some se" "inode se = Some (DirectoryInode sd')"
      using subDirectoryOf_SomeD [OF sd'] by auto
    obtain d0 where d0: "sd = Some d0" "se \<in> set (EntryList d0)" "Name se = Name e"
      using lookupEntry_SomeD [OF se(1)] by auto
    have "set (pathsOfDirectory sd' (pathJoin p (Name se))) \<subseteq> set (pathsOfDirectory d0 p)"
      using paths_of_entry [OF d0(2), of p] se(2) by (simp add: pathsOfDirectory_eq)
    then show ?thesis using pl d0 unfolding placed_def by auto
  qed
  ultimately show ?thesis unfolding placed_def by blast
qed

section \<open>No panic while a request is built\<close>

definition availableIn :: "hash set \<Rightarrow> generic_inode option \<Rightarrow> bool" where
  "availableIn objs ino =
     (case ino of
        None \<Rightarrow> False
      | Some (RegularInode r) \<Rightarrow> ri_Size r > 0 \<longrightarrow> ri_Hash r \<in> objs
      | _ \<Rightarrow> True)"

definition suppliedEnv :: "hash set \<Rightarrow> build_env \<Rightarrow> bool" where
  "suppliedEnv cache env \<longleftrightarrow>
     consistentFS (subFS env)
     \<and> (\<forall>(p, i, ino) \<in> set (pathsOf (requiredFS env)). availableIn (cache \<union> objectsOf (subFS env)) ino)"

definition suppliedBuilder :: "hash set \<Rightarrow> build_env \<Rightarrow> 're builder \<Rightarrow> bool" where
  "suppliedBuilder cache env st \<longleftrightarrow>
     (\<forall>i \<in> ran (requiredInodeToSubInode st). filenamesOf i (pathsOf (subFS env)) \<noteq> [])
     \<and> cache \<subseteq> dom (map_of (subObjectCacheUsage st))
     \<and> (\<forall>(p, i, ino) \<in> set (pathsOf (requiredFS env)).
          case (ino, ComputedInodes st p) of
            (Some (ComputedRegularInode c), Some r) \<Rightarrow>
              availableIn (cache \<union> objectsOf (subFS env)) (Some (RegularInode r))
          | _ \<Rightarrow> True)"

definition linkView :: "'re builder \<Rightarrow> (u64 \<rightharpoonup> u64) \<times> (hash \<rightharpoonup> u64) \<times> (string \<rightharpoonup> regular_inode)" where
  "linkView st = (requiredInodeToSubInode st, map_of (subObjectCacheUsage st), ComputedInodes st)"

lemma suppliedBuilder_view:
  "linkView st' = linkView st \<Longrightarrow> suppliedBuilder cache env st \<Longrightarrow> suppliedBuilder cache env st'"
  by (simp add: suppliedBuilder_def linkView_def)

lemma linkView_simps [simp]:
  "linkView (makeDirectory d q c st) = linkView st"
  "linkView (makeHardlink q t st) = linkView st"
  "linkView (deletePath q st) = linkView st"
  by (simp_all add: linkView_def makeDirectory_def makeHardlink_def deletePath_def Let_def)

lemma useObject_supplied:
  assumes env: "suppliedEnv cache env" and st: "suppliedBuilder cache env st"
    and ino: "availableIn (cache \<union> objectsOf (subFS env)) (Some ino)"
  shows "\<exists>st'. useObject env ino q st = Inr st' \<and> suppliedBuilder cache env st'"
proof (cases "\<exists>r. ino = RegularInode r \<and> ri_Size r > 0")
  case False
  then have "useObject env ino q st = Inr st"
    by (auto simp: useObject_def split: generic_inode.splits)
  then show ?thesis using st by simp
next
  case True
  then obtain r where r: "ino = RegularInode r" "ri_Size r > 0" by auto
  then have avail: "ri_Hash r \<in> cache \<union> objectsOf (subFS env)" using ino by (simp add: availableIn_def)
  show ?thesis
  proof (cases "map_of (subObjectCacheUsage st) (ri_Hash r)")
    case (Some old)
    then show ?thesis using r st
      by (auto simp: useObject_def suppliedBuilder_def map_of_putTable subset_iff)
  next
    case None
    then have "ri_Hash r \<notin> cache" using st by (auto simp: suppliedBuilder_def)
    then obtain f where "getFileToCopy env q (ri_Hash r) = Inr f"
      using avail getFileToCopy_supplied [of env "ri_Hash r" q] env by (auto simp: suppliedEnv_def)
    then show ?thesis using None r st
      by (auto simp: useObject_def suppliedBuilder_def map_of_putTable subset_iff)
  qed
qed

lemma addInode_supplied:
  assumes "suppliedEnv cache env" "suppliedBuilder cache env st"
    and "availableIn (cache \<union> objectsOf (subFS env)) (inode e)"
  shows "\<exists>st'. addInode env e q st = Inr st' \<and> suppliedBuilder cache env st'"
proof -
  obtain ino where ino: "inode e = Some ino" using assms(3) by (cases "inode e") (auto simp: availableIn_def)
  obtain st1 where st1: "useObject env ino q st = Inr st1" "suppliedBuilder cache env st1"
    using useObject_supplied [OF assms(1,2), of ino q] assms(3) ino by auto
  have "suppliedBuilder cache env (makeInode i q ino st1)" for i
    using st1(2) by (rule suppliedBuilder_view [rotated]) (simp add: linkView_def makeInode_def)
  moreover have "suppliedBuilder cache env (makeHardlink q t st)" for t
    using assms(2) by (rule suppliedBuilder_view [rotated]) simp
  ultimately show ?thesis using st1(1)
    by (simp add: addInode_def ino Let_def makeInode_def split: option.splits)
qed

lemma relink_supplied:
  assumes st: "suppliedBuilder cache env st" and se: "filenamesOf (InodeNumber se) (pathsOf (subFS env)) \<noteq> []"
  shows "\<exists>b st'. relink env se e q st = Inr (b, st') \<and> suppliedBuilder cache env st'"
proof (cases "requiredInodeToSubInode st (InodeNumber e)")
  case None
  then show ?thesis using st se by (auto simp: relink_def suppliedBuilder_def ran_def)
next
  case (Some i)
  then have "filenamesOf i (pathsOf (subFS env)) \<noteq> []" using st by (auto simp: suppliedBuilder_def ran_def)
  then obtain n ns where "indexTable (InodeToFilenamesTable (subFS env)) i = n # ns"
    by (auto simp: indexTable_InodeToFilenamesTable neq_Nil_conv)
  moreover have "suppliedBuilder cache env (makeHardlink q n st)"
    using st by (rule suppliedBuilder_view [rotated]) simp
  ultimately show ?thesis using Some st by (auto simp: relink_def)
qed

lemma updateMetadata_supplied:
  assumes "suppliedBuilder cache env st" "availableIn objs (inode e)"
  shows "\<exists>st'. updateMetadata e q st = Inr st' \<and> suppliedBuilder cache env st'"
  using assms by (auto simp: updateMetadata_def availableIn_def suppliedBuilder_def split: option.splits)

lemma compareEntries_supplied:
  assumes env: "suppliedEnv cache env" and st: "suppliedBuilder cache env st"
    and e: "availableIn (cache \<union> objectsOf (subFS env)) (inode e)"
    and se: "filenamesOf (InodeNumber se) (pathsOf (subFS env)) \<noteq> []"
  shows "\<exists>st'. compareEntries env se e q st = Inr st' \<and> suppliedBuilder cache env st'"
proof (cases "\<exists>d. inode e = Some (DirectoryInode d)")
  case True
  then obtain d where "inode e = Some (DirectoryInode d)" by auto
  moreover have "suppliedBuilder cache env (makeDirectory d q c st)" for c
    using st by (rule suppliedBuilder_view [rotated]) simp
  ultimately show ?thesis using st by (simp add: compareEntries_def split: prod.splits)
next
  case False
  obtain b st1 where r: "relink env se e q st = Inr (b, st1)" "suppliedBuilder cache env st1"
    using relink_supplied [OF st se, of e q] by auto
  obtain ino where ino: "inode e = Some ino" using e by (cases "inode e") (auto simp: availableIn_def)
  show ?thesis
    using addInode_supplied [OF env st e, of q] addInode_supplied [OF env r(2) e, of q]
      updateMetadata_supplied [OF r(2) e, of q] r False
    by (cases ino) (auto simp: compareEntries_def ino split: prod.split)
qed

lemma addOrCompare_supplied:
  assumes env: "suppliedEnv cache env" and st: "suppliedBuilder cache env st"
    and e: "availableIn (cache \<union> objectsOf (subFS env)) (inode e)"
    and se: "\<And>s. se = Some s \<Longrightarrow> filenamesOf (InodeNumber s) (pathsOf (subFS env)) \<noteq> []"
  shows "\<exists>st'. addOrCompare env se e q st = Inr st' \<and> suppliedBuilder cache env st'"
proof (cases se)
  case None
  have "suppliedBuilder cache env (makeDirectory d q c st)" for d c
    using st by (rule suppliedBuilder_view [rotated]) simp
  then show ?thesis using addInode_supplied [OF env st e, of q] None
    by (auto simp: addOrCompare_def addEntry_def split: option.splits generic_inode.splits)
next
  case (Some s)
  then show ?thesis using compareEntries_supplied [OF env st e se [OF Some], of q]
    by (simp add: addOrCompare_def)
qed

lemma filenamesOf_mem: "(q, i, ino) \<in> set ps \<Longrightarrow> filenamesOf i ps \<noteq> []"
  using set_filenamesOf [of q i ps] by auto

lemma suppliedBuilder_mtime:
  assumes st: "suppliedBuilder cache env st"
    and r: "ComputedInodes st q = Some r" "anyMtime r' = anyMtime r"
  shows "suppliedBuilder cache env (st\<lparr>ComputedInodes := (ComputedInodes st)(q \<mapsto> r')\<rparr>)"
proof -
  have "availableIn objs (Some (RegularInode r')) = availableIn objs (Some (RegularInode r))" for objs
    using anyMtime_contents [OF r(2)] by (simp add: availableIn_def)
  then have "(case (ino, ((ComputedInodes st)(q \<mapsto> r')) p) of
            (Some (ComputedRegularInode c), Some r) \<Rightarrow> availableIn objs (Some (RegularInode r)) | _ \<Rightarrow> True) =
          (case (ino, ComputedInodes st p) of
            (Some (ComputedRegularInode c), Some r) \<Rightarrow> availableIn objs (Some (RegularInode r)) | _ \<Rightarrow> True)"
    for p objs ino
    using r(1) by (cases "p = q") (simp_all split: option.split generic_inode.split)
  then show ?thesis using st by (simp add: suppliedBuilder_def)
qed

lemma available_replaced:
  assumes env: "suppliedEnv cache env" and st: "suppliedBuilder cache env st"
    and mem: "(q, i, inode e) \<in> set (pathsOf (requiredFS env))" and e': "replacedBy st q e e'"
  shows "availableIn (cache \<union> objectsOf (subFS env)) (inode e')"
proof (cases "\<exists>c. inode e = Some (ComputedRegularInode c)")
  case True
  then show ?thesis using st mem e' unfolding suppliedBuilder_def replacedBy_def by fastforce
next
  case False
  then have "e' = e" using e' by (auto simp: replacedBy_def split: option.splits generic_inode.splits)
  then show ?thesis using env mem unfolding suppliedEnv_def by auto
qed

interpretation available: builder_steps env "placed env"
  "\<lambda>st. suppliedEnv cache env \<and> suppliedBuilder cache env st" "\<lambda>_. False" for env cache
proof (unfold_locales, goal_cases)
  case (1 sd rd p e d)
  then show ?case by (simp add: placed_descend)
next
  case (2 sd rd p st q)
  then show ?case by (auto intro: suppliedBuilder_view)
next
  case (3 sd rd p st e c)
  then show ?case by (auto intro: suppliedBuilder_view)
next
  case (4 st q r r')
  then show ?case by (simp add: suppliedBuilder_mtime)
next
  case (5 sd rd p st e e')
  let ?q = "pathJoin p (Name e)"
  have mem: "(?q, InodeNumber e, inode e) \<in> set (pathsOf (requiredFS env))"
    using placed_entry 5(1,3) by simp
  have "availableIn (cache \<union> objectsOf (subFS env)) (inode e')"
    using available_replaced [OF _ _ mem 5(5)] 5(2) by simp
  moreover have "filenamesOf (InodeNumber s) (pathsOf (subFS env)) \<noteq> []" if "lookupEntry sd (Name e) = Some s" for s
    using placed_subEntry [OF 5(1) that] by (rule filenamesOf_mem)
  ultimately obtain st' where "addOrCompare env (lookupEntry sd (Name e)) e' ?q st = Inr st'"
    and "suppliedBuilder cache env st'"
    using addOrCompare_supplied [of cache env st e' "lookupEntry sd (Name e)" ?q] 5(2) by blast
  then show ?case using 5(2) by simp
qed

definition singleNamedComputed :: "file_system \<Rightarrow> bool" where
  "singleNamedComputed fs \<longleftrightarrow>
     (\<forall>(i, ino) \<in> set (InodeTable fs).
        case ino of
          Some (ComputedRegularInode c) \<Rightarrow> length (filenamesOf i (pathsOf fs)) = 1
        | _ \<Rightarrow> True)"

lemma consistent_entry:
  assumes "consistentFS fs" "(p, i, ino) \<in> set (pathsOf fs)"
  shows "case ino of None \<Rightarrow> False | Some (DirectoryInode d) \<Rightarrow> True
    | Some _ \<Rightarrow> map_of (InodeTable fs) i = Some ino"
  using assms unfolding consistentFS_def by blast

lemma consistent_table:
  assumes "consistentFS fs" "(p, i, Some ino) \<in> set (pathsOf fs)" "\<And>d. ino \<noteq> DirectoryInode d"
  shows "(i, Some ino) \<in> set (InodeTable fs)"
  using assms(3) consistent_entry [OF assms(1,2)]
  by (cases ino) (auto dest: map_of_SomeD)

lemma computed_single:
  assumes "consistentFS fs" "singleNamedComputed fs" "(p, i, Some (ComputedRegularInode c)) \<in> set (pathsOf fs)"
    and "computed p = Some r"
  shows "ri_Hash r \<in> computedObjects computed fs"
proof -
  have mem: "(i, Some (ComputedRegularInode c)) \<in> set (InodeTable fs)"
    using consistent_table [OF assms(1,3)] by simp
  then have "length (filenamesOf i (pathsOf fs)) = 1" using assms(2) by (auto simp: singleNamedComputed_def)
  moreover have "p \<in> set (filenamesOf i (pathsOf fs))" using assms(3) by (auto simp: set_filenamesOf)
  ultimately have "filenamesOf i (pathsOf fs) = [p]" by (auto simp: length_Suc_conv)
  then show ?thesis using mem assms(4) unfolding computedObjects_def tableComputed_def
    by (intro UN_I [of "(i, Some (ComputedRegularInode c))"]) (simp_all add: indexTable_InodeToFilenamesTable)
qed

lemma supplied_start:
  assumes missing: "buildMissingLists s (Some img) planned True ign = Inr (Some ([], []))"
    and fs: "consistentFS (sub_FileSystem s)" "consistentFS (img_FileSystem img)"
      "singleNamedComputed (img_FileSystem img)"
  shows "suppliedEnv (set (sub_ObjectCache s)) (buildEnv n s img dm im)"
    and "suppliedBuilder (set (sub_ObjectCache s)) (buildEnv n s img dm im) (rootBuilder s img req)"
proof -
  let ?objs = "set (sub_ObjectCache s) \<union> objectsOf (sub_FileSystem s)" and ?fs = "img_FileSystem img"
  note ms = missing_sets [OF missing]
  have fetched: "objectsOf ?fs \<subseteq> ?objs" and pushed: "computedObjects (sub_ComputedInodes s) ?fs \<subseteq> ?objs"
    using ms by auto
  have "availableIn ?objs ino" if mem: "(p, i, ino) \<in> set (pathsOf ?fs)" for p i ino
  proof (cases "\<exists>r. ino = Some (RegularInode r) \<and> ri_Size r > 0")
    case True
    then obtain r where r: "ino = Some (RegularInode r)" "ri_Size r > 0" by auto
    then have "(i, Some (RegularInode r)) \<in> set (InodeTable ?fs)"
      using consistent_table [OF fs(2), of p i "RegularInode r"] mem by simp
    then have "ri_Hash r \<in> objectsOf ?fs" using r(2) by (auto simp: objectsOf_def tableObjects_def)
    then show ?thesis using fetched r by (auto simp: availableIn_def)
  next
    case False
    have "ino \<noteq> None" using consistent_entry [OF fs(2) mem] by (cases ino) auto
    then show ?thesis using False by (auto simp: availableIn_def split: option.splits generic_inode.splits)
  qed
  then show "suppliedEnv (set (sub_ObjectCache s)) (buildEnv n s img dm im)"
    using fs(1) by (auto simp: suppliedEnv_def buildEnv_def)
  have "availableIn ?objs (Some (RegularInode r))"
    if "(p, i, Some (ComputedRegularInode c)) \<in> set (pathsOf ?fs)" "sub_ComputedInodes s p = Some r" for p i c r
    using computed_single [OF fs(2,3) that(1), of "sub_ComputedInodes s", OF that(2)] pushed
    by (auto simp: availableIn_def)
  then have "suppliedBuilder (set (sub_ObjectCache s)) (buildEnv n s img dm im) (startBuilder s img req)"
    by (auto simp: suppliedBuilder_def startBuilder_def buildEnv_def map_of_startUsage domIff
        split: option.splits generic_inode.splits)
  then show "suppliedBuilder (set (sub_ObjectCache s)) (buildEnv n s img dm im) (rootBuilder s img req)"
    by (auto simp: rootBuilder_def intro: suppliedBuilder_view)
qed

lemma placed_root:
  "placed (buildEnv n s img dm im) (Some (fs_root (sub_FileSystem s))) (fs_root (img_FileSystem img)) ''/''"
  by (simp add: placed_def buildEnv_def pathsOf_def)

section \<open>Properties\<close>



lemma supplied_no_panic:
  assumes "buildMissingLists s (Some img) planned True ign = Inr (Some ([], []))"
    and "consistentFS (sub_FileSystem s)" "consistentFS (img_FileSystem img)"
      "singleNamedComputed (img_FileSystem img)"
  shows "\<exists>missing req'. buildUpdateRequest n s img req dm im = Inr (missing, req')"
proof -
  from available.compare_inv(1) [OF placed_root [of n s img dm im] conjI [OF supplied_start [OF assms]] refl]
  obtain failed st where "compareDirectories (buildEnv n s img dm im) (Some (fs_root (sub_FileSystem s)))
      (fs_root (img_FileSystem img)) ''/'' (rootBuilder s img req) = Inr (failed, st)"
    by (force split: sum.splits)
  then show ?thesis by (auto simp: buildUpdateRequest_def Let_def rootBuilder_def)
qed



end
