(* ===== verification/Update_Compliance.thy ===== *)
theory Update_Compliance
  imports Missing_Objects
begin

text \<open>
  What an empty update request means. A sub for which the dominator finds nothing to do
  complies with the image: every directory, every file, and the hard links among them.
\<close>

section \<open>Compliance\<close>

text \<open>A request without an action; the multiply-used counts are no action.\<close>

definition inactive :: "'re update_request \<Rightarrow> bool" where
  "inactive r \<longleftrightarrow> noActions (r\<lparr>MultiplyUsedObjects := []\<rparr>)"

definition sameInode :: "generic_inode option \<Rightarrow> generic_inode option \<Rightarrow> bool" where
  "sameInode l r \<longleftrightarrow> compareInodePointers l r = (True, True, True)"


text \<open>
  Compliance of one required entry. \<open>links\<close> gives the inode of the sub for an inode of the
  image, \<open>computed\<close> the contents of the computed files; for these the modification time is
  free.
\<close>

definition entryComplies ::
    "(u64 \<rightharpoonup> u64) \<Rightarrow> (string \<rightharpoonup> regular_inode) \<Rightarrow> build_env \<Rightarrow> directory_inode option \<Rightarrow> string
       \<Rightarrow> directory_entry \<Rightarrow> bool" where
  "entryComplies links computed env sd p e \<longleftrightarrow>
     (let q = pathJoin p (Name e); se = lookupEntry sd (Name e)
      in filtered env q \<or>
        (case inode e of
           Some (DirectoryInode d) \<Rightarrow>
             \<exists>s d'. se = Some s \<and> inode s = Some (DirectoryInode d') \<and> compareDirectoriesMetadata d' d
         | Some (ComputedRegularInode c) \<Rightarrow>
             (case computed q of
                None \<Rightarrow> deleteMissingComputedFiles env \<longrightarrow> se = None
              | Some r \<Rightarrow>
                  \<exists>s r'. se = Some s \<and> anyMtime r' = anyMtime r \<and> sameInode (inode s) (Some (RegularInode r'))
                    \<and> links (InodeNumber e) = Some (InodeNumber s))
         | _ \<Rightarrow>
             \<exists>s. se = Some s \<and> sameInode (inode s) (inode e) \<and> links (InodeNumber e) = Some (InodeNumber s)))"

definition directoryComplies ::
    "(u64 \<rightharpoonup> u64) \<Rightarrow> (string \<rightharpoonup> regular_inode) \<Rightarrow> build_env \<Rightarrow> directory_inode option \<Rightarrow> directory_inode
       \<Rightarrow> string \<Rightarrow> bool" where
  "directoryComplies links computed env sd rd p \<longleftrightarrow>
     sd \<noteq> None \<and> deletions env sd rd p = []
     \<and> (\<forall>e \<in> set (sortedEntries rd). entryComplies links computed env sd p e)"

text \<open>The pairs of directories below a pair, as the comparison descends.\<close>

inductive below ::
    "build_env \<Rightarrow> directory_inode option \<Rightarrow> directory_inode \<Rightarrow> string
       \<Rightarrow> directory_inode option \<Rightarrow> directory_inode \<Rightarrow> string \<Rightarrow> bool"
  for env :: build_env where
  here: "below env sd rd p sd rd p"
| deeper: "e \<in> set (sortedEntries rd) \<Longrightarrow> inode e = Some (DirectoryInode d)
    \<Longrightarrow> \<not> filtered env (pathJoin p (Name e))
    \<Longrightarrow> below env (subDirectoryOf (lookupEntry sd (Name e))) d (pathJoin p (Name e)) sd' rd' p'
    \<Longrightarrow> below env sd rd p sd' rd' p'"


definition treeComplies ::
    "(u64 \<rightharpoonup> u64) \<Rightarrow> (string \<rightharpoonup> regular_inode) \<Rightarrow> build_env \<Rightarrow> directory_inode option \<Rightarrow> directory_inode
       \<Rightarrow> string \<Rightarrow> bool" where
  "treeComplies links computed env sd rd p \<longleftrightarrow>
     (\<forall>sd' rd' p'. below env sd rd p sd' rd' p' \<longrightarrow> directoryComplies links computed env sd' rd' p')"

section \<open>What the construction keeps\<close>

definition computedAgree :: "(string \<rightharpoonup> regular_inode) \<Rightarrow> (string \<rightharpoonup> regular_inode) \<Rightarrow> bool" where
  "computedAgree c c' \<longleftrightarrow> (\<forall>q. map_option anyMtime (c q) = map_option anyMtime (c' q))"

text \<open>
  The builder \<open>st\<close> was reached from \<open>st0\<close>: it is inactive only if \<open>st0\<close> was and no inode was
  changed, the mapping of inodes grew and is injective.
\<close>

definition grown :: "(string \<rightharpoonup> regular_inode) \<Rightarrow> 're builder \<Rightarrow> 're builder \<Rightarrow> bool" where
  "grown computed st0 st \<longleftrightarrow>
     (inactive (request st) \<longrightarrow> inactive (request st0) \<and> inodesChanged st = {})
     \<and> requiredInodeToSubInode st0 \<subseteq>\<^sub>m requiredInodeToSubInode st
     \<and> inj_on (requiredInodeToSubInode st) (dom (requiredInodeToSubInode st))
     \<and> ran (requiredInodeToSubInode st) = inodesMapped st
     \<and> computedAgree computed (ComputedInodes st)"

definition linkState :: "'re builder \<Rightarrow> (u64 \<rightharpoonup> u64) \<times> u64 set \<times> (string \<rightharpoonup> regular_inode)" where
  "linkState st = (requiredInodeToSubInode st, inodesMapped st, ComputedInodes st)"

lemma grown_step:
  assumes "grown computed st0 st" "linkState st' = linkState st"
    and "inactive (request st') \<Longrightarrow> inactive (request st) \<and> inodesChanged st' = inodesChanged st"
  shows "grown computed st0 st'"
  using assms by (auto simp: grown_def linkState_def)

lemma linkState_simps [simp]:
  "linkState (makeDirectory d q c st) = linkState st"
  "linkState (makeHardlink q t st) = linkState st"
  "linkState (deletePath q st) = linkState st"
  "linkState (makeInode i q ino st) = linkState st"
  by (simp_all add: linkState_def makeDirectory_def makeHardlink_def deletePath_def makeInode_def Let_def)

lemma active_simps [simp]:
  "\<not> inactive (request (makeDirectory d q c st))"
  "\<not> inactive (request (makeHardlink q t st))"
  "\<not> inactive (request (deletePath q st))"
  "\<not> inactive (request (makeInode i q ino st))"
  by (simp_all add: inactive_def noActions_def makeDirectory_def makeHardlink_def deletePath_def makeInode_def Let_def)

lemma linkState_useObject: "useObject env ino q st = Inr st' \<Longrightarrow> linkState st' = linkState st"
  by (auto simp: useObject_def linkState_def split: generic_inode.splits if_splits option.splits)

lemma grown_addInode:
  assumes g: "grown computed st0 st" and a: "addInode env e q st = Inr st'"
  shows "grown computed st0 st' \<and> \<not> inactive (request st')"
  using a
proof (cases rule: addInode_cases)
  case (1 t)
  then show ?thesis using grown_step [OF g, of st'] by simp
next
  case (2 ino st1)
  then show ?thesis using grown_step [OF g, of st'] linkState_useObject [of env ino q st st1] by simp
qed

lemma inj_on_map_upd:
  "inj_on m (dom m) \<Longrightarrow> v \<notin> ran m \<Longrightarrow> inj_on (m(k \<mapsto> v)) (dom (m(k \<mapsto> v)))"
  by (auto simp: inj_on_def ran_def)

lemma grown_relink:
  assumes g: "grown computed st0 st" and r: "relink env se e q st = Inr (b, st')"
  shows "grown computed st0 st' \<and> (inactive (request st') \<longrightarrow> inactive (request st))
    \<and> (inactive (request st') \<longrightarrow> b \<longrightarrow> requiredInodeToSubInode st' (InodeNumber e) = Some (InodeNumber se))"
proof (cases "requiredInodeToSubInode st (InodeNumber e)")
  case None
  show ?thesis
  proof (cases "InodeNumber se \<in> inodesMapped st")
    case True
    then show ?thesis using None g r by (auto simp: relink_def)
  next
    case False
    let ?m = "(requiredInodeToSubInode st)(InodeNumber e \<mapsto> InodeNumber se)"
    have st': "st' = st\<lparr>requiredInodeToSubInode := ?m, inodesMapped := insert (InodeNumber se) (inodesMapped st)\<rparr>" "b"
      using None False r by (auto simp: relink_def)
    have "inj_on ?m (dom ?m)"
      using g False by (intro inj_on_map_upd) (auto simp: grown_def)
    moreover have "requiredInodeToSubInode st0 \<subseteq>\<^sub>m ?m"
      using g None by (auto simp: grown_def map_le_def dest!: bspec)
    moreover have "ran ?m = insert (InodeNumber se) (inodesMapped st)"
      using g None by (auto simp: grown_def)
    ultimately show ?thesis using g unfolding st' grown_def by simp
  qed
next
  case (Some i)
  then show ?thesis using g r grown_step [OF g, of st']
    by (cases "i = InodeNumber se") (auto simp: relink_def)
qed

lemma grown_updateMetadata:
  assumes g: "grown computed st0 st" and u: "updateMetadata e q st = Inr st'"
  shows "grown computed st0 st' \<and> \<not> inactive (request st')"
proof (cases "InodeNumber e \<in> inodesChanged st")
  case True
  then show ?thesis using g u by (auto simp: updateMetadata_def grown_def)
next
  case False
  then obtain ino where "st' = st\<lparr>request := (request st)\<lparr>InodesToChange :=
      InodesToChange (request st) @ [\<lparr>ni_Name = q, ni_Inode = ino\<rparr>]\<rparr>,
      inodesChanged := insert (InodeNumber e) (inodesChanged st)\<rparr>"
    using u by (auto simp: updateMetadata_def split: option.splits)
  then show ?thesis using g by (auto simp: grown_def inactive_def noActions_def)
qed

lemma grown_refl: "grown computed st0 st \<Longrightarrow> grown computed st st"
  by (simp add: grown_def)

definition entryMatches :: "(u64 \<rightharpoonup> u64) \<Rightarrow> directory_entry option \<Rightarrow> directory_entry \<Rightarrow> bool" where
  "entryMatches links se e \<longleftrightarrow>
     (\<exists>s. se = Some s \<and>
        (case inode e of
           Some (DirectoryInode d) \<Rightarrow>
             \<exists>d'. inode s = Some (DirectoryInode d') \<and> compareDirectoriesMetadata d' d
         | _ \<Rightarrow> sameInode (inode s) (inode e) \<and> links (InodeNumber e) = Some (InodeNumber s)))"

lemma compareInodePointers_directory:
  "compareInodePointers ino (Some (DirectoryInode d)) = (t, m, data) \<Longrightarrow>
     (t \<longrightarrow> (\<exists>d'. ino = Some (DirectoryInode d'))) \<and> (m \<longleftrightarrow> (\<exists>d'. ino = Some (DirectoryInode d') \<and> compareDirectoriesMetadata d' d))"
  by (cases ino; cases "the ino") (auto simp: compareInodes_def)

lemma grown_compareEntries:
  assumes g: "grown computed st0 st" and c: "compareEntries env s e q st = Inr st'"
  shows "grown computed st0 st'
    \<and> (inactive (request st') \<longrightarrow> entryMatches (requiredInodeToSubInode st') (Some s) e)"
proof (cases "\<exists>d. inode e = Some (DirectoryInode d)")
  case True
  then obtain d where d: "inode e = Some (DirectoryInode d)" by auto
  obtain t m data where cmp: "compareInodePointers (inode s) (Some (DirectoryInode d)) = (t, m, data)"
    by (cases "compareInodePointers (inode s) (Some (DirectoryInode d))") auto
  show ?thesis
  proof (cases m)
    case True
    then show ?thesis using c g compareInodePointers_directory [OF cmp]
      by (auto simp: compareEntries_def d cmp entryMatches_def)
  next
    case False
    then obtain b where "st' = makeDirectory d q b st"
      using c by (auto simp: compareEntries_def d cmp split: if_splits)
    then show ?thesis using grown_step [OF g, of st'] by simp
  qed
next
  case False
  obtain t m data where cmp: "compareInodePointers (inode s) (inode e) = (t, m, data)"
    by (cases "compareInodePointers (inode s) (inode e)") auto
  have no_dir: "(case inode e of Some (DirectoryInode d) \<Rightarrow> A d | _ \<Rightarrow> B) = B"
    for A and B :: 'z
    using False by (auto split: option.splits generic_inode.splits)
  have added: ?thesis if "grown computed st0 st1" "addInode env e q st1 = Inr st'" for st1
    using grown_addInode [OF that] by simp
  show ?thesis
  proof (cases "t \<and> data \<and> (m \<or> compareInodeLinks env (InodeNumber e) (InodeNumber s))")
    case False
    then have "addInode env e q st = Inr st'" using c by (auto simp: compareEntries_def cmp no_dir)
    then show ?thesis using added g by blast
  next
    case same: True
    then obtain b st1 where r: "relink env s e q st = Inr (b, st1)"
      and rest: "(if m then if b then Inr st1 else addInode env e q st1
        else if b then updateMetadata e q st1 else addInode env e q st1) = Inr st'"
      using c by (auto simp: compareEntries_def cmp no_dir split: if_splits)
    note g1 = grown_relink [OF g r]
    show ?thesis
    proof (cases "m \<and> b")
      case True
      then have "st' = st1" using rest by simp
      then show ?thesis using g1 True same cmp
        by (simp add: entryMatches_def sameInode_def no_dir)
    next
      case False
      then show ?thesis using rest added g1 grown_updateMetadata [of computed st0 st1 e q st']
        by (auto split: if_splits)
    qed
  qed
qed

lemma grown_addOrCompare:
  assumes g: "grown computed st0 st" and c: "addOrCompare env se e q st = Inr st'"
  shows "grown computed st0 st'
    \<and> (inactive (request st') \<longrightarrow> entryMatches (requiredInodeToSubInode st') se e)"
proof (cases se)
  case (Some s)
  then show ?thesis using grown_compareEntries [OF g] c by (simp add: addOrCompare_def)
next
  case None
  then have a: "addEntry env e q st = Inr st'" using c by (simp add: addOrCompare_def)
  show ?thesis
  proof (cases "\<exists>d. inode e = Some (DirectoryInode d)")
    case True
    then obtain d where "st' = makeDirectory d q True st" using a by (auto simp: addEntry_def)
    then show ?thesis using grown_step [OF g, of st'] by simp
  next
    case False
    then have "addInode env e q st = Inr st'"
      using a by (auto simp: addEntry_def split: option.splits generic_inode.splits)
    then show ?thesis using grown_addInode [OF g] by blast
  qed
qed

lemma grown_mtime:
  assumes g: "grown computed st0 st" and "anyMtime r' = anyMtime r" "ComputedInodes st q = Some r"
  shows "grown computed st0 (st\<lparr>ComputedInodes := (ComputedInodes st)(q \<mapsto> r')\<rparr>)"
  using assms by (auto simp: grown_def computedAgree_def)


interpretation growth: builder_steps env "\<lambda>_ _ _. True" "grown computed st0" "\<lambda>_. True" for env computed st0
proof (unfold_locales, goal_cases)
  case (2 sd rd p st q)
  then show ?case using grown_step [of computed st0 st "deletePath q st"] by simp
next
  case (3 sd rd p st e c)
  then show ?case using grown_step [of computed st0 st "deletePath (pathJoin p (Name e)) st"] by simp
next
  case (4 st q r r')
  then show ?case using grown_mtime by blast
next
  case (5 sd rd p st e e')
  then show ?case using grown_addOrCompare [of computed st0 st env] by (auto split: sum.splits)
qed simp

section \<open>An inactive request means compliance\<close>

lemma entryComplies_mono:
  "entryComplies links computed env sd p e \<Longrightarrow> links \<subseteq>\<^sub>m links' \<Longrightarrow> entryComplies links' computed env sd p e"
proof -
  assume le: "links \<subseteq>\<^sub>m links'" and c: "entryComplies links computed env sd p e"
  have "links' i = Some j" if "links i = Some j" for i j using le that by (force simp: map_le_def)
  then show ?thesis using c unfolding entryComplies_def Let_def
    by (fastforce split: option.splits generic_inode.splits)
qed

lemma treeComplies_mono:
  "treeComplies links computed env sd rd p \<Longrightarrow> links \<subseteq>\<^sub>m links' \<Longrightarrow> treeComplies links' computed env sd rd p"
  unfolding treeComplies_def directoryComplies_def by (blast intro: entryComplies_mono)

text \<open>No computed file of the image stops the comparison.\<close>

definition tolerant :: "(string \<rightharpoonup> regular_inode) \<Rightarrow> build_env \<Rightarrow> bool" where
  "tolerant computed env \<longleftrightarrow>
     deleteMissingComputedFiles env \<or> ignoreMissingComputedFiles env
     \<or> (\<forall>(p, i, ino) \<in> set (pathsOf (requiredFS env)).
          case ino of Some (ComputedRegularInode c) \<Rightarrow> computed p \<noteq> None | _ \<Rightarrow> True)"

lemma computedAgree_None: "computedAgree c c' \<Longrightarrow> c' q = None \<longleftrightarrow> c q = None"
  unfolding computedAgree_def by (metis option.map_disc_iff)

lemma compareComputed_complies:
  assumes cc: "compareComputed env (lookupEntry sd (Name e)) e (pathJoin p (Name e)) st = Inr (stp, st')"
    and g: "grown computed st st" and quiet: "inactive (request st')"
    and ino: "inode e = Some (ComputedRegularInode c)"
  shows "entryComplies (requiredInodeToSubInode st') computed env sd p e"
proof (cases "ComputedInodes st (pathJoin p (Name e))")
  case None
  then have "computed (pathJoin p (Name e)) = None"
    using g computedAgree_None unfolding grown_def by blast
  moreover have "lookupEntry sd (Name e) = None" if "deleteMissingComputedFiles env"
    using cc quiet None that by (auto simp: compareComputed_def split: if_splits)
  ultimately show ?thesis using ino by (simp add: entryComplies_def Let_def)
next
  case (Some r)
  let ?q = "pathJoin p (Name e)" and ?se = "lookupEntry sd (Name e)"
  let ?r = "setComputedFileMtime (now env) r ?se"
  let ?st = "st\<lparr>ComputedInodes := (ComputedInodes st)(?q \<mapsto> ?r)\<rparr>"
  have a: "addOrCompare env ?se (DirectoryEntry (Name e) (InodeNumber e) (Some (RegularInode ?r))) ?q ?st = Inr st'"
    using cc Some by (simp add: compareComputed_def Let_def)
  have "grown computed st ?st" using grown_mtime [OF g _ Some, of ?r] by simp
  from grown_addOrCompare [OF this a] quiet
  obtain s where s: "?se = Some s" "sameInode (inode s) (Some (RegularInode ?r))"
      "requiredInodeToSubInode st' (InodeNumber e) = Some (InodeNumber s)"
    by (auto simp: entryMatches_def)
  have "map_option anyMtime (computed ?q) = Some (anyMtime r)"
    using g Some by (simp add: grown_def computedAgree_def)
  then obtain r0 where "computed ?q = Some r0" "anyMtime r0 = anyMtime r" by auto
  then show ?thesis using ino s unfolding entryComplies_def Let_def
    by (intro disjI2) (auto intro!: exI [of _ ?r])
qed

lemma compareName_complies:
  assumes cn: "compareName env sd e p st = Inr (stp, st')"
    and g: "grown computed st st" and quiet: "inactive (request st')"
  shows "entryComplies (requiredInodeToSubInode st') computed env sd p e"
proof (cases "filtered env (pathJoin p (Name e))")
  case True
  then show ?thesis by (simp add: entryComplies_def Let_def)
next
  case nf: False
  show ?thesis
  proof (cases "\<exists>c. inode e = Some (ComputedRegularInode c)")
    case True
    then show ?thesis using compareComputed_complies [OF _ g quiet] cn nf
      by (auto simp: compareName_def Let_def)
  next
    case False
    then have "addOrCompare env (lookupEntry sd (Name e)) e (pathJoin p (Name e)) st = Inr st'"
      using cn nf by (auto simp: compareName_def Let_def split: option.splits generic_inode.splits)
    from grown_addOrCompare [OF g this] quiet
    have "entryMatches (requiredInodeToSubInode st') (lookupEntry sd (Name e)) e" by simp
    then show ?thesis using False unfolding entryMatches_def entryComplies_def Let_def
      by (auto split: option.splits generic_inode.splits)
  qed
qed

lemma compareName_Return:
  assumes "compareName env sd e p st = Inr (Return, st')" "grown computed st st" "tolerant computed env"
    "placed env sd rd p" "e \<in> set (sortedEntries rd)"
  shows False
proof -
  let ?q = "pathJoin p (Name e)"
  obtain c where c: "inode e = Some (ComputedRegularInode c)" "ComputedInodes st ?q = None"
    and no: "\<not> deleteMissingComputedFiles env" "\<not> ignoreMissingComputedFiles env"
    using assms(1)
    by (auto simp: compareName_def compareComputed_def Let_def split: if_splits option.splits generic_inode.splits)
  have "computed ?q = None" using c(2) assms(2) computedAgree_None unfolding grown_def by blast
  moreover have "(?q, InodeNumber e, Some (ComputedRegularInode c)) \<in> set (pathsOf (requiredFS env))"
    using placed_entry [OF assms(4,5)] c(1) by simp
  ultimately show False using assms(3) no unfolding tolerant_def by force
qed

lemma treeCompliesI:
  assumes "sd \<noteq> None" "deletions env sd rd p = []"
    and "\<And>e. e \<in> set (sortedEntries rd) \<Longrightarrow> entryComplies links computed env sd p e"
    and "\<And>e d. e \<in> set (sortedEntries rd) \<Longrightarrow> inode e = Some (DirectoryInode d)
      \<Longrightarrow> \<not> filtered env (pathJoin p (Name e))
      \<Longrightarrow> treeComplies links computed env (subDirectoryOf (lookupEntry sd (Name e))) d (pathJoin p (Name e))"
  shows "treeComplies links computed env sd rd p"
  unfolding treeComplies_def
proof (intro allI impI)
  fix sd' rd' p'
  assume "below env sd rd p sd' rd' p'"
  then show "directoryComplies links computed env sd' rd' p'"
  proof (cases rule: below.cases)
    case here
    then show ?thesis using assms(1-3) by (simp add: directoryComplies_def)
  next
    case (deeper e d)
    then show ?thesis using assms(4) unfolding treeComplies_def by blast
  qed
qed

lemma compareNames_grown:
  assumes "compareNames env sd es p st = Inr (b, st')" "grown computed st st" "set es \<subseteq> set (sortedEntries rd)"
  shows "grown computed st st'"
  using growth.compare_inv(2) [OF TrueI assms(3) assms(2) refl, of env sd p] assms(1) by simp

lemma foldl_deletePath_inactive:
  "inactive (request (foldl (\<lambda>st q. deletePath q st) st qs)) \<Longrightarrow> qs = []"
proof (induction qs rule: rev_induct)
  case (snoc q qs)
  then show ?case by simp
qed simp

lemma comparison_complies:
  "compareDirectories env' sd rd p st = Inr (b, st') \<Longrightarrow> env' = env \<Longrightarrow> grown computed st st
     \<Longrightarrow> inactive (request st') \<Longrightarrow> sd \<noteq> None \<Longrightarrow> tolerant computed env \<Longrightarrow> placed env sd rd p
     \<Longrightarrow> \<not> b \<and> treeComplies (requiredInodeToSubInode st') computed env sd rd p"
  "compareNames env' sd es p st = Inr (b, st') \<Longrightarrow> env' = env \<Longrightarrow> grown computed st st
     \<Longrightarrow> inactive (request st') \<Longrightarrow> tolerant computed env \<Longrightarrow> placed env sd rd' p
     \<Longrightarrow> set es \<subseteq> set (sortedEntries rd')
     \<Longrightarrow> \<not> b \<and> (\<forall>e \<in> set es. entryComplies (requiredInodeToSubInode st') computed env sd p e
           \<and> (\<forall>d. inode e = Some (DirectoryInode d) \<longrightarrow> \<not> filtered env (pathJoin p (Name e))
                \<longrightarrow> treeComplies (requiredInodeToSubInode st') computed env
                      (subDirectoryOf (lookupEntry sd (Name e))) d (pathJoin p (Name e))))"
proof (induction env' sd rd p st and env' sd es p st arbitrary: b st' and b st' rd'
    rule: compareDirectories_compareNames.induct)
  case (1 env' sd rd p st)
  let ?st = "foldl (\<lambda>st q. deletePath q st) st (deletions env sd rd p)"
  have cn: "compareNames env sd (sortedEntries rd) p ?st = Inr (b, st')"
    using 1(2,3) by (simp add: compareDirectories.simps)
  have g: "grown computed ?st ?st"
    using grown_refl [OF growth.foldl_deletePath_inv [OF TrueI 1(4) subset_refl]] .
  have "inactive (request ?st)"
    using compareNames_grown [OF cn g subset_refl] 1(5) by (simp add: grown_def)
  then have del: "deletions env sd rd p = []" by (rule foldl_deletePath_inactive)
  note ih = 1(1) [unfolded 1(3), OF cn refl g 1(5,7,8) subset_refl]
  then have "treeComplies (requiredInodeToSubInode st') computed env sd rd p"
    using del 1(6) by - (rule treeCompliesI, simp_all)
  then show ?case using ih by simp
next
  case (2 env' sd p st)
  then show ?case by simp
next
  case (3 env' sd e es p st)
  note env = 3(5)
  obtain stp st1 where cn: "compareName env sd e p st = Inr (stp, st1)"
    and rest: "(case stp of
         Return \<Rightarrow> Inr (True, st1)
       | Next \<Rightarrow> compareNames env sd es p st1
       | Descend d \<Rightarrow>
           bindP (compareDirectories env (subDirectoryOf (lookupEntry sd (Name e))) d
                    (pathJoin p (Name e)) st1) (\<lambda>(failed, st).
             compareNames env sd es p st)) = Inr (b, st')"
    using 3(4) unfolding env by (auto simp: compareNames.simps(2) split: prod.splits)
  have e: "e \<in> set (sortedEntries rd')" and es: "set es \<subseteq> set (sortedEntries rd')" using 3(10) by auto
  have g1: "grown computed st st1" using growth.compareName_inv [OF TrueI 3(6) e, of env sd p] cn by simp
  note g11 = grown_refl [OF g1]
  have rhs: "entryComplies (requiredInodeToSubInode st') computed env sd p e"
    if "grown computed st1 st'"
    using entryComplies_mono [OF compareName_complies [OF cn 3(6)]] that 3(7) by (simp add: grown_def)
  show ?case
  proof (cases stp)
    case Return
    then show ?thesis using compareName_Return [OF _ 3(6,8,9) e] cn by simp
  next
    case Next
    then have r: "compareNames env sd es p st1 = Inr (b, st')" using rest by simp
    have "entryComplies (requiredInodeToSubInode st') computed env sd p e"
      by (rule rhs [OF compareNames_grown [OF r g11 es]])
    moreover have "inode e = Some (DirectoryInode d) \<Longrightarrow> filtered env (pathJoin p (Name e))" for d
      using cn Next by (auto simp: compareName_def Let_def split: if_splits)
    ultimately show ?thesis
      using 3(1) [unfolded env, OF cn refl Next r refl g11 3(7,8,9) es] by auto
  next
    case (Descend d)
    let ?sd = "subDirectoryOf (lookupEntry sd (Name e))" and ?q = "pathJoin p (Name e)"
    have d: "inode e = Some (DirectoryInode d)" "\<not> filtered env ?q"
      using cn Descend compareName_Descend growth.compareName_Descend_unfiltered by blast+
    obtain failed st2 where cd: "compareDirectories env ?sd d ?q st1 = Inr (failed, st2)"
      and r: "compareNames env sd es p st2 = Inr (b, st')"
      using rest Descend by (auto split: prod.splits)
    have g2: "grown computed st1 st2" using growth.compare_inv(1) [OF TrueI g11 refl, of env ?sd d ?q] cd by simp
    note g22 = grown_refl [OF g2]
    note g3 = compareNames_grown [OF r g22 es]
    have quiet2: "inactive (request st2)" using g3 3(7) by (simp add: grown_def)
    then have c: "entryComplies (requiredInodeToSubInode st1) computed env sd p e"
      using compareName_complies [OF cn 3(6)] g2 by (simp add: grown_def)
    have sub: "?sd \<noteq> None"
    proof -
      obtain s d' where "lookupEntry sd (Name e) = Some s" "inode s = Some (DirectoryInode d')"
        using c d by (auto simp: entryComplies_def Let_def)
      then show ?thesis by (cases s) simp
    qed
    have "treeComplies (requiredInodeToSubInode st2) computed env ?sd d ?q"
      using 3(2) [unfolded env, OF cn refl Descend cd refl g11 quiet2 sub 3(8) placed_descend [OF 3(9) e d(1)]]
      by simp
    then have "treeComplies (requiredInodeToSubInode st') computed env ?sd d ?q"
      by (rule treeComplies_mono) (use g3 in \<open>simp add: grown_def\<close>)
    moreover have "requiredInodeToSubInode st1 \<subseteq>\<^sub>m requiredInodeToSubInode st'"
      using g2 g3 map_le_trans by (simp add: grown_def) blast
    with c have "entryComplies (requiredInodeToSubInode st') computed env sd p e"
      by (rule entryComplies_mono)
    ultimately show ?thesis
      using 3(3) [unfolded env, OF cn refl Descend cd refl r refl g22 3(7,8,9) es] d by auto
  qed
qed

section \<open>Compliance means an inactive request\<close>

definition plainFS :: "file_system \<Rightarrow> bool" where
  "plainFS fs \<longleftrightarrow>
     (\<forall>(p, i, ino) \<in> set (pathsOf fs). case ino of Some (ComputedRegularInode c) \<Rightarrow> False | _ \<Rightarrow> True)"

definition settledAt ::
    "(u64 \<rightharpoonup> u64) \<Rightarrow> (string \<rightharpoonup> regular_inode) \<Rightarrow> build_env \<Rightarrow> directory_inode option \<Rightarrow> directory_inode
       \<Rightarrow> string \<Rightarrow> bool" where
  "settledAt links computed env sd rd p \<longleftrightarrow>
     inj_on links (dom links) \<and> plainFS (requiredFS env) \<and> placed env sd rd p
     \<and> treeComplies links computed env sd rd p"

definition settled :: "(u64 \<rightharpoonup> u64) \<Rightarrow> 're builder \<Rightarrow> bool" where
  "settled links st \<longleftrightarrow>
     inactive (request st) \<and> requiredInodeToSubInode st \<subseteq>\<^sub>m links
     \<and> inodesMapped st = ran (requiredInodeToSubInode st)"

lemma relink_settled:
  assumes st: "settled links st" and inj: "inj_on links (dom links)"
    and l: "links (InodeNumber e) = Some (InodeNumber s)"
  shows "\<exists>st'. relink env s e q st = Inr (True, st') \<and> settled links st'"
proof (cases "requiredInodeToSubInode st (InodeNumber e)")
  case None
  let ?m = "requiredInodeToSubInode st"
  have le: "links j = Some k" if "?m j = Some k" for j k
    using st that by (force simp: settled_def map_le_def)
  have "InodeNumber s \<notin> ran ?m"
  proof
    assume "InodeNumber s \<in> ran ?m"
    then obtain j where j: "?m j = Some (InodeNumber s)" by (auto simp: ran_def)
    then have "j = InodeNumber e"
      using inj_onD [OF inj, of j "InodeNumber e"] le [OF j] l by (simp add: domIff)
    then show False using None j by simp
  qed
  then show ?thesis using None st l
    by (auto simp: relink_def settled_def map_le_def)
next
  case (Some k)
  then have "links (InodeNumber e) = Some k" using st by (force simp: settled_def map_le_def)
  then show ?thesis using Some st l by (simp add: relink_def)
qed

lemma addOrCompare_settled:
  assumes st: "settled links st" and inj: "inj_on links (dom links)" and m: "entryMatches links se e"
  shows "\<exists>st'. addOrCompare env se e q st = Inr st' \<and> settled links st'"
proof -
  obtain s where s: "se = Some s" using m by (auto simp: entryMatches_def)
  show ?thesis
  proof (cases "\<exists>d. inode e = Some (DirectoryInode d)")
    case True
    then show ?thesis using m s st
      by (auto simp: entryMatches_def addOrCompare_def compareEntries_def compareInodes_def)
  next
    case False
    then have same: "compareInodePointers (inode s) (inode e) = (True, True, True)"
      and l: "links (InodeNumber e) = Some (InodeNumber s)"
      using m s by (auto simp: entryMatches_def sameInode_def split: option.splits generic_inode.splits)
    obtain st' where "relink env s e q st = Inr (True, st')" "settled links st'"
      using relink_settled [OF st inj l] by blast
    then show ?thesis using False same s
      by (auto simp: addOrCompare_def compareEntries_def split: option.splits generic_inode.splits)
  qed
qed

lemma treeComplies_here: "treeComplies links computed env sd rd p \<Longrightarrow> directoryComplies links computed env sd rd p"
  unfolding treeComplies_def by (blast intro: below.here)

interpretation settle: builder_steps env "settledAt links computed env" "settled links" "\<lambda>_. False"
  for env links computed
proof (unfold_locales, goal_cases)
  case (1 sd rd p e d)
  then have "treeComplies links computed env (subDirectoryOf (lookupEntry sd (Name e))) d (pathJoin p (Name e))"
    unfolding settledAt_def treeComplies_def by (blast intro: below.deeper)
  with 1 show ?case unfolding settledAt_def using placed_descend by blast
next
  case (2 sd rd p st q)
  then have "deletions env sd rd p = []"
    using treeComplies_here by (auto simp: settledAt_def directoryComplies_def)
  with 2 show ?case by simp
next
  case (3 sd rd p st e c)
  then show ?case using placed_entry [of env sd rd p e] by (force simp: settledAt_def plainFS_def)
next
  case (4 st q r r')
  then show ?case by (simp add: settled_def)
next
  case (5 sd rd p st e e')
  have "(pathJoin p (Name e), InodeNumber e, inode e) \<in> set (pathsOf (requiredFS env))"
    using placed_entry [of env sd rd p e] 5(1,3) by (simp add: settledAt_def)
  then have plain: "inode e \<noteq> Some (ComputedRegularInode c)" for c
    using 5(1) unfolding settledAt_def plainFS_def by force
  then have e': "e' = e"
    using 5(5) by (auto simp: replacedBy_def split: option.splits generic_inode.splits)
  have "entryComplies links computed env sd p e"
    using 5(1,3) treeComplies_here unfolding settledAt_def directoryComplies_def by blast
  then have "entryMatches links (lookupEntry sd (Name e)) e"
    using 5(4) plain unfolding entryComplies_def entryMatches_def Let_def
    by (auto split: option.splits generic_inode.splits)
  then obtain st' where "addOrCompare env (lookupEntry sd (Name e)) e (pathJoin p (Name e)) st = Inr st'"
    "settled links st'"
    using addOrCompare_settled [OF 5(2)] 5(1) unfolding settledAt_def by blast
  then show ?case using e' by simp
qed

section \<open>Properties\<close>

lemma grown_start: "grown (sub_ComputedInodes s) (rootBuilder s img req) (rootBuilder s img req)"
  by (simp add: grown_def rootBuilder_def startBuilder_def makeDirectory_def Let_def computedAgree_def)

lemma inactive_result:
  "inactive (if failed then request st else (request st)\<lparr>MultiplyUsedObjects := u\<rparr>) = inactive (request st)"
  by (simp add: inactive_def)

lemma inactive_complies:
  assumes "buildUpdateRequest n s img req dm im = Inr (failed, req')" and "inactive req'"
    and "tolerant (sub_ComputedInodes s) (buildEnv n s img dm im)"
  shows "\<not> failed \<and> compareDirectoriesMetadata (fs_root (sub_FileSystem s)) (fs_root (img_FileSystem img))
    \<and> (\<exists>links. inj_on links (dom links)
        \<and> treeComplies links (sub_ComputedInodes s) (buildEnv n s img dm im)
            (Some (fs_root (sub_FileSystem s))) (fs_root (img_FileSystem img)) ''/'')"
proof -
  let ?env = "buildEnv n s img dm im" and ?root = "Some (fs_root (sub_FileSystem s))"
  obtain st where st: "compareDirectories ?env ?root (fs_root (img_FileSystem img)) ''/'' (rootBuilder s img req)
      = Inr (failed, st)" and quiet: "inactive (request st)"
    using assms(1,2) by (elim buildUpdateRequest_Inr) (simp add: inactive_result)
  from growth.compare_inv(1) [OF TrueI grown_start [of s img req] refl, of ?env ?root "fs_root (img_FileSystem img)" "''/''"] st
  have g: "grown (sub_ComputedInodes s) (rootBuilder s img req) st" by simp
  then have "inactive (request (rootBuilder s img req))" using quiet by (simp add: grown_def)
  then have "compareDirectoriesMetadata (fs_root (sub_FileSystem s)) (fs_root (img_FileSystem img))"
    by (auto simp: rootBuilder_def split: if_splits)
  then show ?thesis
    using comparison_complies(1) [OF st refl grown_start quiet _ assms(3) placed_root] g
    by (auto simp: grown_def)
qed


lemma exampleRun_same:
  "buildUpdateRequest 0 (exampleSub\<lparr>sub_FileSystem := img_FileSystem exampleRequired\<rparr>) exampleRequired
     emptyRequest False False = Inr (False, emptyRequest)"
  by (simp add: evaluate_build exampleSub_def exampleRequired_def exampleFile_def emptyRequest_def
      compareEntries_def compareInodes_def compareRegularInodesMetadata_def compareRegularInodesData_def relink_def)


text \<open>
  C14. Conversely a sub that complies is left alone: for an image without computed files the
  construction does not panic and the request has no action. Together the two give that
  updating stops: once a sub complies, every further request is empty.
\<close>

theorem compliant_sub_left_alone:
  assumes "compareDirectoriesMetadata (fs_root (sub_FileSystem s)) (fs_root (img_FileSystem img))"
    and "inj_on links (dom links)"
    and "treeComplies links (sub_ComputedInodes s) (buildEnv n s img dm im)
           (Some (fs_root (sub_FileSystem s))) (fs_root (img_FileSystem img)) ''/''"
    and "plainFS (img_FileSystem img)" and "inactive req"
  shows "\<exists>req'. buildUpdateRequest n s img req dm im = Inr (False, req') \<and> inactive req'"
proof -
  let ?env = "buildEnv n s img dm im" and ?root = "Some (fs_root (sub_FileSystem s))"
  have root: "rootBuilder s img req = startBuilder s img req" using assms(1) by (simp add: rootBuilder_def)
  have at: "settledAt links (sub_ComputedInodes s) ?env ?root (fs_root (img_FileSystem img)) ''/''"
    using assms(2-4) placed_root by (simp add: settledAt_def) (simp add: buildEnv_def)
  have "settled links (rootBuilder s img req)"
    using assms(5) by (simp add: root settled_def startBuilder_def inactive_def noActions_def)
  from settle.compare_inv(1) [OF at this refl]
  obtain failed st where st: "compareDirectories ?env ?root (fs_root (img_FileSystem img)) ''/''
      (rootBuilder s img req) = Inr (failed, st)" and quiet: "inactive (request st)"
    by (auto simp: settled_def split: sum.splits)
  have "tolerant (sub_ComputedInodes s) ?env"
    using assms(4) unfolding tolerant_def plainFS_def buildEnv_def by (fastforce split: option.splits generic_inode.splits)
  then have "\<not> failed"
    using comparison_complies(1) [OF st refl grown_start quiet _ _ placed_root] by simp
  then show ?thesis using st quiet assms(1)
    by (simp add: buildUpdateRequest_def Let_def root inactive_def)
qed

theorem compliant_sub_left_alone_witness:
  "\<exists>req'. buildUpdateRequest 0 (exampleSub\<lparr>sub_FileSystem := img_FileSystem exampleRequired\<rparr>) exampleRequired
      emptyRequest False False = Inr (False, req') \<and> inactive (req' :: unit update_request)"
proof (rule compliant_sub_left_alone)
  let ?env = "buildEnv 0 (exampleSub\<lparr>sub_FileSystem := img_FileSystem exampleRequired\<rparr>) exampleRequired False False"
  let ?links = "[9 :: u64 \<mapsto> 9 :: u64]"
  show "inj_on ?links (dom ?links)" by (simp add: inj_on_def)
  show "inactive (emptyRequest :: unit update_request)"
    by (simp add: inactive_def emptyRequest_def noActions_def)
  show "plainFS (img_FileSystem exampleRequired)" by (simp add: plainFS_def pathsOf_def exampleRequired_def)
  show "compareDirectoriesMetadata (fs_root (sub_FileSystem (exampleSub\<lparr>sub_FileSystem := img_FileSystem exampleRequired\<rparr>)))
      (fs_root (img_FileSystem exampleRequired))"
    by (simp add: exampleRequired_def compareDirectoriesMetadata_def)
  show "treeComplies ?links (sub_ComputedInodes (exampleSub\<lparr>sub_FileSystem := img_FileSystem exampleRequired\<rparr>)) ?env
      (Some (fs_root (sub_FileSystem (exampleSub\<lparr>sub_FileSystem := img_FileSystem exampleRequired\<rparr>))))
      (fs_root (img_FileSystem exampleRequired)) ''/''"
    by (rule treeCompliesI)
       (simp_all add: exampleRequired_def exampleFile_def buildEnv_def deletions_def sortedEntries_def
         entriesByName_def entryComplies_def filtered_def lookupEntry_def sameInode_def compareInodes_def
         compareRegularInodesMetadata_def compareRegularInodesData_def Let_def)
qed

definition nestedImage :: "unit image" where
  "nestedImage =
     exampleRequired\<lparr>img_FileSystem :=
       \<lparr>InodeTable = [(1, Some (ComputedRegularInode \<lparr>ci_Mode = 0, ci_Uid = 0, ci_Gid = 0, ci_Source = ''x''\<rparr>)),
                      (9, Some (RegularInode exampleFile))],
        NumRegularInodes = 1, TotalDataBytes = 3, DirectoryCount = 2,
        fs_root = Directory [DirectoryEntry ''d'' 2 (Some (DirectoryInode (Directory
          [DirectoryEntry ''a'' 1 (Some (ComputedRegularInode
              \<lparr>ci_Mode = 0, ci_Uid = 0, ci_Gid = 0, ci_Source = ''x''\<rparr>)),
           DirectoryEntry ''b'' 9 (Some (RegularInode exampleFile))] 0 0 0)))] 0 0 0\<rparr>\<rparr>"

definition nestedSub :: sub where
  "nestedSub =
     \<lparr>sub_FileSystem = \<lparr>InodeTable = [], NumRegularInodes = 0, TotalDataBytes = 0, DirectoryCount = 2,
        fs_root = Directory [DirectoryEntry ''d'' 2 (Some (DirectoryInode (Directory [] 0 0 0)))] 0 0 0\<rparr>,
      sub_ObjectCache = [[7]], sub_ComputedInodes = Map.empty\<rparr>"

text \<open>
  A missing computed file below a directory goes unnoticed. The image has \<^verbatim>\<open>/d/a\<close>, a
  computed file without contents that is neither to be deleted nor to be ignored, and
  \<^verbatim>\<open>/d/b\<close>, which the sub does not have. The comparison of \<^verbatim>\<open>/d\<close> stops at the former and
  reports it, but the caller drops that result: the request is empty and complete.
\<close>

theorem nested_missing_computed_unnoticed:
  "buildUpdateRequest 0 nestedSub nestedImage emptyRequest False False = Inr (False, emptyRequest)
   \<and> ''/d/b'' \<in> fst ` set (pathsOf (img_FileSystem nestedImage))
   \<and> ''/d/b'' \<notin> fst ` set (pathsOf (sub_FileSystem nestedSub))"
proof -
  have "buildUpdateRequest 0 nestedSub nestedImage emptyRequest False False = Inr (False, emptyRequest)"
    by (simp add: evaluate_build nestedSub_def nestedImage_def exampleRequired_def exampleFile_def emptyRequest_def
        compareEntries_def compareInodes_def compareComputed_def)
  then show ?thesis
    by (simp add: pathsOf_def nestedSub_def nestedImage_def pathJoin_def pathClean_def cleanStep_def)
qed

end
