(* ===== verification/Herd_Poll.thy ===== *)
theory Herd_Poll
  imports Update_Compliance Sub_Update
begin

text \<open>
  The dominator's side of a sub, \<^verbatim>\<open>dom/herd/sub.go\<close> and \<^verbatim>\<open>dom/herd/subUpdate.go\<close>: one poll of a
  sub, which fetches missing objects, sends an update, and cleans up. The answers of the sub to
  the calls of a poll are an argument; the calls that were made are recorded in the state. A
  time is in nanoseconds, the zero time is \<open>0\<close> and the clock is read once for a poll. An image
  comes with the identity of the pointer to it, which is what the code compares.
\<close>

section \<open>State\<close>

datatype sub_status =
    StatusUnknown | StatusConnecting | StatusDNSError | StatusConnectionRefused
  | StatusNoRouteToHost | StatusConnectTimeout | StatusMissingCertificate | StatusBadCertificate
  | StatusFailedToConnect | StatusWaitingToPoll | StatusPolling | StatusPollDenied
  | StatusFailedToPoll | StatusUnwritable | StatusSubNotReady | StatusImageUndefined
  | StatusImageNotReady | StatusNotEnoughFreeSpace | StatusLocked | StatusFetching
  | StatusFetchDenied | StatusFailedToFetch | StatusPushing | StatusPushDenied
  | StatusFailedToPush | StatusFailedToGetObject | StatusComputingUpdate | StatusSendingUpdate
  | StatusMissingComputedFile | StatusUpdatesDisabled | StatusUnsafeUpdate
  | StatusDisruptionRequested | StatusDisruptionDenied | StatusUpdating | StatusUpdateDenied
  | StatusFailedToUpdate | StatusRebootBlocked | StatusWaitingForNextFullPoll | StatusSynced

record aws_metadata =
  AccountId :: string
  AccountName :: string
  InstanceId :: string
  Region :: string
  aws_Tags :: "string \<rightharpoonup> string"

record machine =
  Hostname :: string
  DataSourceIdentifier :: string
  DataSourceType :: string
  IpAddress :: string
  Location :: string
  RequiredImage :: string
  PlannedImage :: string
  DisableUpdates :: bool
  OwnerGroup :: string
  OwnerGroups :: "string list"
  OwnerUsers :: "string list"
  Tags :: "string \<rightharpoonup> string"
  AwsMetadata :: "aws_metadata option"

record sub_configuration =
  CpuPercent :: u64
  conf_OwnerGroups :: "string list"
  conf_OwnerUsers :: "string list"
  NetworkSpeedPercent :: u64
  ScanSpeedPercent :: u64
  ScanExclusionList :: "string list"

record poll_request =
  HaveGeneration :: u64
  ShortPollOnly :: bool

record poll_reply =
  reply_CurrentConfiguration :: sub_configuration
  reply_FetchInProgress :: bool
  reply_UpdateInProgress :: bool
  reply_LastFetchError :: string
  reply_LastNote :: string
  reply_LastSuccessfulImageName :: string
  reply_LastUpdateError :: string
  reply_LastWriteError :: string
  reply_LockedByAnotherClient :: bool
  reply_FreeSpace :: "u64 option"
  reply_StartTime :: int
  reply_ScanCount :: u64
  reply_GenerationCount :: u64
  reply_DisruptionState :: disruption_state
  reply_FileSystem :: "file_system option"
  reply_ObjectCache :: "hash list"

text \<open>The calls a poll makes, in order.\<close>

datatype 're herd_call =
    PollCall poll_request
  | SetConfigurationCall sub_configuration
  | FetchCall "hash list" u8
  | PushCall "hash list"
  | UpdateCall "'re update_request"
  | CleanupCall "hash list"

type_synonym 're image_pointer = "nat \<times> 're image"

record 're herd_sub =
  mdb :: machine
  requiredImageName :: string
  requiredImage :: "'re image_pointer option"
  plannedImageName :: string
  plannedImage :: "'re image_pointer option"
  computedInodes :: "(string \<rightharpoonup> regular_inode) option"
  busy :: bool
  deleting :: bool
  havePlannedImage :: bool
  startTime :: int
  fileSystem :: "file_system option"
  objectCache :: "hash list"
  generationCount :: u64
  freeSpaceThreshold :: "u64 option"
  computedFilesChangeTime :: int
  scanCountAtLastUpdateEnd :: u64
  isInsecure :: bool
  status :: sub_status
  publishedStatus :: sub_status
  pendingForceDisruptiveUpdate :: bool
  pendingSafetyClear :: bool
  lastDisruptionState :: disruption_state
  lastPollWasFull :: bool
  lastUpdateTime :: int
  lastSyncTime :: int
  lastSuccessfulImageName :: string
  lastNote :: string
  lastWriteError :: string
  calls :: "'re herd_call list"

text \<open>What a poll needs of the herd and its flags, and the answers of the sub.\<close>

record 're herd_env =
  updatesDisabledReason :: string
  configurationForSubs :: sub_configuration
  updateConfigurationsForSubs :: bool
  he_compile :: "string \<Rightarrow> 're option"
  he_match :: "'re \<Rightarrow> string \<Rightarrow> bool"
  stackDepth :: nat
  pollClock :: int

datatype poll_error = PollEOF | PollAccessDenied | PollFailed
datatype call_error = CallAccessDenied | CallFailed
datatype push_error = PushAccessDenied | FailedToGetObject | PushFailed

record 're sub_answers =
  answerPoll :: "poll_request \<Rightarrow> poll_error + poll_reply"
  answerFetch :: "hash list \<Rightarrow> call_error option"
  answerPush :: "hash list \<Rightarrow> push_error option"
  answerUpdate :: "'re update_request \<Rightarrow> call_error option"
  cancelPending :: bool

definition called :: "'re herd_call \<Rightarrow> 're herd_sub \<Rightarrow> 're herd_sub" where
  "called c st = st\<lparr>calls := calls st @ [c]\<rparr>"

definition reclaim :: "'re herd_sub \<Rightarrow> 're herd_sub" where
  "reclaim st = st\<lparr>fileSystem := None, objectCache := []\<rparr>"

section \<open>Fetching missing objects\<close>

definition checkForEnoughSpace ::
    "u64 option \<Rightarrow> (hash \<times> u64) list \<Rightarrow> 're herd_sub \<Rightarrow> bool \<times> 're herd_sub" where
  "checkForEnoughSpace freeSpace objects st =
     (case freeSpace of
        None \<Rightarrow> (True, st\<lparr>freeSpaceThreshold := None\<rparr>)
      | Some free \<Rightarrow>
          (let totalUsage = foldl (\<lambda>total e. total + roundUpOrder 12 (snd e)) 0 objects
           in if free > totalUsage then (True, st\<lparr>freeSpaceThreshold := None\<rparr>)
              else (False, st\<lparr>freeSpaceThreshold := Some totalUsage\<rparr>)))"

definition subObject :: "file_system \<Rightarrow> 're herd_sub \<Rightarrow> sub" where
  "subObject fs st = \<lparr>sub_FileSystem = fs, sub_ObjectCache = objectCache st,
     sub_ComputedInodes = (case computedInodes st of None \<Rightarrow> Map.empty | Some c \<Rightarrow> c)\<rparr>"

text \<open>The result is whether all objects are available, and a status.\<close>

definition fetchMissingObjects ::
    "'re sub_answers \<Rightarrow> file_system \<Rightarrow> 're image option \<Rightarrow> u64 option \<Rightarrow> bool \<Rightarrow> bool \<Rightarrow> 're herd_sub
       \<Rightarrow> panic + (bool \<times> sub_status \<times> 're herd_sub)" where
  "fetchMissingObjects ans fs img freeSpace isRequiredImage fast st =
     (case img of
        None \<Rightarrow> Inr (False, StatusImageNotReady, st)
      | Some img \<Rightarrow>
          bindP (buildMissingLists (subObject fs st) (Some img) None isRequiredImage False) (\<lambda>lists.
            case lists of
              None \<Rightarrow> Inr (False, StatusMissingComputedFile, st)
            | Some (objectsToFetch, objectsToPush) \<Rightarrow>
                (case (if objectsToFetch \<noteq> [] then checkForEnoughSpace freeSpace objectsToFetch st else (True, st)) of
                   (False, st) \<Rightarrow> Inr (False, StatusNotEnoughFreeSpace, st)
                 | (True, st) \<Rightarrow>
                     (let hashes = map fst objectsToFetch;
                          pushes = map fst objectsToPush;
                          failed = (if objectsToFetch \<noteq> [] then answerFetch ans hashes else None);
                          st = (if objectsToFetch \<noteq> [] then called (FetchCall hashes (if fast then 100 else 0)) st else st)
                      in case failed of
                           Some CallAccessDenied \<Rightarrow> Inr (False, StatusFetchDenied, st)
                         | Some CallFailed \<Rightarrow> Inr (False, StatusFailedToFetch, st)
                         | None \<Rightarrow>
                             if objectsToPush = [] then
                               Inr (objectsToFetch = [], if objectsToFetch = [] then StatusSynced else StatusFetching, st)
                             else
                               (let st = called (PushCall pushes) (st\<lparr>status := StatusPushing\<rparr>)
                                in case answerPush ans pushes of
                                     Some PushAccessDenied \<Rightarrow> Inr (False, StatusPushDenied, st)
                                   | Some FailedToGetObject \<Rightarrow> Inr (False, StatusFailedToGetObject, st)
                                   | Some PushFailed \<Rightarrow> Inr (False, StatusFailedToPush, st)
                                   | None \<Rightarrow>
                                       if objectsToFetch = [] then
                                         Inr (True, StatusSynced, st\<lparr>objectCache := objectCache st @ pushes\<rparr>)
                                       else Inr (False, StatusFetching, st))))))"

section \<open>Sending an update\<close>

text \<open>
  \<^verbatim>\<open>Sub.buildUpdateRequest\<close>: the result is whether there is nothing to do, whether computed files
  are missing, and the request.
\<close>

definition subBuildUpdateRequest ::
    "'re herd_env \<Rightarrow> file_system \<Rightarrow> 're image \<Rightarrow> 're herd_sub \<Rightarrow> panic + (bool \<times> bool \<times> 're update_request)" where
  "subBuildUpdateRequest env fs img st =
     bindP (buildUpdateRequest (pollClock env div 10 ^ 9) (subObject fs st) img
              (emptyRequest\<lparr>ImageName := requiredImageName st, request_Triggers := img_Triggers img\<rparr>)
              False False) (\<lambda>(missing, req).
       if missing then Inr (False, True, req)
       else if FilesToCopyToCache req \<noteq> [] \<or> InodesToMake req \<noteq> [] \<or> HardlinksToMake req \<noteq> []
            \<or> PathsToDelete req \<noteq> [] \<or> DirectoriesToMake req \<noteq> [] \<or> InodesToChange req \<noteq> []
            \<or> (img_Filter img \<noteq> None \<and> lastSuccessfulImageName st \<noteq> requiredImageName st)
       then Inr (False, False, req)
       else Inr (True, False, req))"

definition checkForUnsafeChange :: "file_system \<Rightarrow> 're image \<Rightarrow> 're update_request \<Rightarrow> 're herd_sub \<Rightarrow> bool" where
  "checkForUnsafeChange fs img req st =
     (if img_Filter img = None then False
      else if Tags (mdb st) ''DisableSafetyCheck'' \<noteq> None then False
      else if length (InodeTable (img_FileSystem img)) < length (InodeTable fs) div 2 then True
      else length (PathsToDelete req) > length (InodeTable fs) div 2)"

text \<open>\<^verbatim>\<open>strings.EqualFold\<close> with \<^verbatim>\<open>"true"\<close>, whose letters have no foldings outside ASCII.\<close>

definition isTrueFold :: "string \<Rightarrow> bool" where
  "isTrueFold value \<longleftrightarrow> map (\<lambda>c. if CHR ''A'' \<le> c \<and> c \<le> CHR ''Z'' then char_of (of_char c + (32 :: nat)) else c) value = ''true''"

definition sendUpdate ::
    "'re herd_env \<Rightarrow> 're sub_answers \<Rightarrow> file_system \<Rightarrow> 're image \<Rightarrow> bool \<Rightarrow> 're herd_sub
       \<Rightarrow> panic + (bool \<times> sub_status \<times> 're herd_sub)" where
  "sendUpdate env ans fs img failOnReboot st =
     bindP (subBuildUpdateRequest env fs img st) (\<lambda>(idle, missing, req).
       if missing then Inr (False, StatusMissingComputedFile, st)
       else if idle then Inr (True, StatusSynced, st)
       else if DisableUpdates (mdb st) \<or> updatesDisabledReason env \<noteq> '''' then Inr (False, StatusUpdatesDisabled, st)
       else if \<not> pendingSafetyClear st \<and> checkForUnsafeChange fs img req st then Inr (False, StatusUnsafeUpdate, st)
       else
         bindP (if failOnReboot
                then bindP (matchTriggersInUpdate (he_compile env) (he_match env) req)
                       (\<lambda>triggers. Inr (snd (checkImpact triggers)))
                else Inr False) (\<lambda>blocked.
           if blocked then Inr (False, StatusRebootBlocked, st)
           else
             (let forced = (case Tags (mdb st) ''ForceDisruptiveUpdate'' of None \<Rightarrow> False | Some v \<Rightarrow> isTrueFold v)
                             \<or> pendingForceDisruptiveUpdate st;
                  req = (if forced then req\<lparr>ForceDisruption := True\<rparr> else req);
                  st = called (UpdateCall req) (st\<lparr>status := StatusSendingUpdate, lastUpdateTime := pollClock env\<rparr>)
              in case answerUpdate ans req of
                   Some CallAccessDenied \<Rightarrow> Inr (False, StatusUpdateDenied, st)
                 | Some CallFailed \<Rightarrow> Inr (False, StatusFailedToUpdate, st)
                 | None \<Rightarrow> Inr (False, StatusUpdating,
                     st\<lparr>pendingSafetyClear := False, pendingForceDisruptiveUpdate := False\<rparr>))))"

section \<open>Cleaning up\<close>

text \<open>
  The objects to remove: those of the cache, except what the planned image needs and the file
  system does not have. The table maps an object to whether it must be removed.
\<close>

fun markUsed :: "(hash \<times> bool) list \<Rightarrow> u64 \<times> generic_inode option \<Rightarrow> (hash \<times> bool) list" where
  "markUsed unused (_, Some (RegularInode r)) =
     (if ri_Size r > 0 \<and> map_of unused (ri_Hash r) \<noteq> None then putTable (ri_Hash r) True unused else unused)"
| "markUsed unused _ = unused"

fun keepPlanned :: "(hash \<times> bool) list \<Rightarrow> u64 \<times> generic_inode option \<Rightarrow> (hash \<times> bool) list" where
  "keepPlanned unused (_, Some (RegularInode r)) =
     (if ri_Size r > 0 \<and> map_of unused (ri_Hash r) = Some False then deleteKey (ri_Hash r) unused else unused)"
| "keepPlanned unused _ = unused"

definition unusedObjects :: "file_system \<Rightarrow> 're image option \<Rightarrow> hash list \<Rightarrow> (hash \<times> bool) list" where
  "unusedObjects fs planned cache =
     (let unused = foldl (\<lambda>t h. putTable h False t) [] cache;
          unused = foldl markUsed unused (InodeTable fs)
      in case planned of None \<Rightarrow> unused
         | Some img \<Rightarrow> foldl keepPlanned unused (InodeTable (img_FileSystem img)))"

definition cleanup :: "file_system \<Rightarrow> 're herd_sub \<Rightarrow> 're herd_sub" where
  "cleanup fs st =
     (let unused = unusedObjects fs (map_option snd (plannedImage st)) (objectCache st)
      in if unused = [] \<and> lastDisruptionState st = DisruptionStateAnytime then st
         else called (CleanupCall (map fst unused)) st)"

section \<open>The configuration of subs\<close>

definition compareConfigs :: "sub_configuration \<Rightarrow> sub_configuration \<Rightarrow> bool" where
  "compareConfigs oldConf newConf \<longleftrightarrow>
     CpuPercent newConf = CpuPercent oldConf \<and> NetworkSpeedPercent newConf = NetworkSpeedPercent oldConf
     \<and> ScanSpeedPercent newConf = ScanSpeedPercent oldConf
     \<and> length (ScanExclusionList newConf) = length (ScanExclusionList oldConf)
     \<and> list_all2 (=) (ScanExclusionList newConf) (ScanExclusionList oldConf)"

definition updateConfiguration :: "'re herd_env \<Rightarrow> poll_reply \<Rightarrow> 're herd_sub \<Rightarrow> 're herd_sub" where
  "updateConfiguration env reply st =
     (if \<not> updateConfigurationsForSubs env \<or> reply_ScanCount reply < 1 then st
      else
        (let old = reply_CurrentConfiguration reply;
             conf = configurationForSubs env;
             conf = (if CpuPercent conf < 1 then conf\<lparr>CpuPercent := CpuPercent old\<rparr> else conf);
             conf = (if NetworkSpeedPercent conf < 1 then conf\<lparr>NetworkSpeedPercent := NetworkSpeedPercent old\<rparr> else conf);
             conf = (if ScanSpeedPercent conf < 1 then conf\<lparr>ScanSpeedPercent := ScanSpeedPercent old\<rparr> else conf)
         in if compareConfigs old conf then st else called (SetConfigurationCall conf) st))"

section \<open>One poll\<close>

text \<open>The reasons to ask for the whole file system, whatever its generation.\<close>

definition forceFullPoll :: "'re herd_env \<Rightarrow> sub_status \<Rightarrow> 're herd_sub \<Rightarrow> 're herd_sub" where
  "forceFullPoll env previousStatus st =
     (let planned = previousStatus = StatusSynced \<and> \<not> havePlannedImage st \<and> plannedImage st \<noteq> None;
          st = (if planned then st\<lparr>havePlannedImage := True\<rparr> else st)
      in if planned
            \<or> previousStatus = StatusSynced \<and> computedFilesChangeTime st > lastSyncTime st
            \<or> previousStatus = StatusUpdatesDisabled \<and> updatesDisabledReason env = '''' \<and> \<not> DisableUpdates (mdb st)
            \<or> previousStatus = StatusUnsafeUpdate \<and> pendingSafetyClear st
            \<or> previousStatus \<in> {StatusDisruptionRequested, StatusDisruptionDenied} \<and> pendingForceDisruptiveUpdate st
         then st\<lparr>generationCount := 0\<rparr> else st)"

definition haveImage :: "'re herd_sub \<Rightarrow> bool" where
  "haveImage st \<longleftrightarrow> requiredImage st \<noteq> None \<or> plannedImage st \<noteq> None"

definition makePollRequest :: "'re herd_sub \<Rightarrow> poll_request \<times> 're herd_sub" where
  "makePollRequest st =
     (\<lparr>HaveGeneration = generationCount st, ShortPollOnly = \<not> haveImage st\<rparr>,
      if haveImage st then st else st\<lparr>generationCount := 0\<rparr>)"

text \<open>Taking over the reply: \<open>None\<close> if the pointers of the file system cannot be rebuilt.\<close>

definition receiveReply :: "'re herd_env \<Rightarrow> poll_reply \<Rightarrow> 're herd_sub \<Rightarrow> panic + ('re herd_sub + 're herd_sub)" where
  "receiveReply env reply st =
     (let st = st\<lparr>lastDisruptionState := reply_DisruptionState reply,
                  lastSuccessfulImageName := reply_LastSuccessfulImageName reply,
                  lastNote := reply_LastNote reply, lastWriteError := reply_LastWriteError reply\<rparr>;
          st = (if reply_GenerationCount reply = 0 then (reclaim st)\<lparr>generationCount := 0\<rparr> else st)
      in case reply_FileSystem reply of
           None \<Rightarrow>
             (let restarted = startTime st \<noteq> reply_StartTime reply;
                  roomy = (case (freeSpaceThreshold st, reply_FreeSpace reply) of
                             (Some threshold, Some free) \<Rightarrow> free > threshold | _ \<Rightarrow> False);
                  st = st\<lparr>lastPollWasFull := False,
                          generationCount := (if restarted \<or> roomy then 0 else generationCount st)\<rparr>
              in Inr (Inr (st\<lparr>startTime := reply_StartTime reply\<rparr>)))
         | Some fs \<Rightarrow>
             (let st = st\<lparr>lastPollWasFull := True, freeSpaceThreshold := None\<rparr>
              in case rebuildInodePointers (\<lambda>_ _. False) (stackDepth env) fs of
                   None \<Rightarrow> Inl (ExplicitPanic ''stack overflow'')
                 | Some (Inl err) \<Rightarrow> Inr (Inl (st\<lparr>status := StatusFailedToPoll\<rparr>))
                 | Some (Inr fs) \<Rightarrow>
                     Inr (Inr (st\<lparr>fileSystem := Some fs, objectCache := reply_ObjectCache reply,
                                  generationCount := reply_GenerationCount reply,
                                  startTime := reply_StartTime reply\<rparr>))))"

text \<open>
  The state of the sub that the reply shows: \<open>Inl\<close> if the poll ends here.
\<close>

definition updateEndStatus :: "string \<Rightarrow> sub_status" where
  "updateEndStatus lastUpdateError =
     (if lastUpdateError = '''' then StatusWaitingForNextFullPoll
      else if lastUpdateError = ''disruption pending'' then StatusDisruptionRequested
      else if lastUpdateError = ''disruption denied'' then StatusDisruptionDenied
      else StatusFailedToUpdate)"

definition checkSubState :: "sub_status \<Rightarrow> poll_reply \<Rightarrow> 're herd_sub \<Rightarrow> 're herd_sub + 're herd_sub" where
  "checkSubState previousStatus reply st =
     (if reply_FetchInProgress reply then Inl (st\<lparr>status := StatusFetching\<rparr>)
      else if reply_UpdateInProgress reply then Inl (st\<lparr>status := StatusUpdating\<rparr>)
      else if reply_LastWriteError reply \<noteq> '''' then Inl (reclaim (st\<lparr>status := StatusUnwritable\<rparr>))
      else if reply_GenerationCount reply < 1 then Inl (st\<lparr>status := StatusSubNotReady\<rparr>)
      else if reply_LockedByAnotherClient reply then Inl (reclaim (st\<lparr>status := StatusLocked\<rparr>))
      else if previousStatus = StatusLocked \<and> fileSystem st = None then Inl (st\<lparr>generationCount := 0\<rparr>)
      else if previousStatus = StatusFetching \<and> reply_LastFetchError reply \<noteq> '''' then
        if fileSystem st = None then Inl (st\<lparr>status := StatusFailedToFetch, generationCount := 0\<rparr>)
        else Inr (st\<lparr>status := StatusFailedToFetch\<rparr>)
      else if previousStatus = StatusUpdating then
        Inl (reclaim (st\<lparr>scanCountAtLastUpdateEnd := reply_ScanCount reply,
                         status := updateEndStatus (reply_LastUpdateError reply)\<rparr>))
      else Inr st)"

text \<open>Whether to go on, and with which previous status.\<close>

definition checkProgress ::
    "sub_status \<Rightarrow> poll_reply \<Rightarrow> bool \<Rightarrow> bool \<Rightarrow> 're herd_sub \<Rightarrow> 're herd_sub + (sub_status \<times> 're herd_sub)" where
  "checkProgress previousStatus reply haveImg cancelled st =
     (if cancelled then Inl st
      else if \<not> haveImg then
        Inl (st\<lparr>status := (if requiredImageName st = '''' then StatusImageUndefined else StatusImageNotReady)\<rparr>)
      else if previousStatus \<in> {StatusFailedToUpdate, StatusWaitingForNextFullPoll} then
        if scanCountAtLastUpdateEnd st = reply_ScanCount reply then
          Inl ((if fileSystem st \<noteq> None then reclaim st else st)\<lparr>status := previousStatus\<rparr>)
        else if fileSystem st = None then Inl (st\<lparr>generationCount := 0, status := previousStatus\<rparr>)
        else Inr (previousStatus, st)
      else if previousStatus \<in> {StatusDisruptionRequested, StatusDisruptionDenied} then
        (case reply_DisruptionState reply of
           DisruptionStateAnytime \<Rightarrow> Inr (previousStatus, st\<lparr>generationCount := 0\<rparr>)
         | DisruptionStatePermitted \<Rightarrow> Inr (previousStatus, st\<lparr>generationCount := 0\<rparr>)
         | DisruptionStateRequested \<Rightarrow> Inr (StatusDisruptionRequested, st)
         | DisruptionStateDenied \<Rightarrow> Inr (StatusDisruptionDenied, st))
      else Inr (previousStatus, st))"

definition checkReply ::
    "sub_status \<Rightarrow> poll_reply \<Rightarrow> bool \<Rightarrow> bool \<Rightarrow> 're herd_sub \<Rightarrow> 're herd_sub + (sub_status \<times> 're herd_sub)" where
  "checkReply previousStatus reply haveImg cancelled st =
     (case checkSubState previousStatus reply st of
        Inl st \<Rightarrow> Inl st
      | Inr st \<Rightarrow> checkProgress previousStatus reply haveImg cancelled st)"

text \<open>The work of a poll, with the file system at hand.\<close>

definition workRequired ::
    "'re herd_env \<Rightarrow> 're sub_answers \<Rightarrow> poll_reply \<Rightarrow> bool \<Rightarrow> bool \<Rightarrow> file_system \<Rightarrow> 're herd_sub
       \<Rightarrow> panic + (bool \<times> 're herd_sub)" where
  "workRequired env ans reply fast failOnReboot fs st =
     (case requiredImage st of
        None \<Rightarrow> Inr (True, st\<lparr>status := StatusImageNotReady\<rparr>)
      | Some (i, img) \<Rightarrow>
          bindP (fetchMissingObjects ans fs (Some img) (reply_FreeSpace reply) True fast st) (\<lambda>(idle, stat, st).
            if \<not> idle then Inr (False, reclaim (st\<lparr>status := stat\<rparr>))
            else
              bindP (sendUpdate env ans fs img failOnReboot (st\<lparr>status := StatusComputingUpdate\<rparr>)) (\<lambda>(idle, stat, st).
                if \<not> idle then Inr (False, reclaim (st\<lparr>status := stat\<rparr>)) else Inr (True, st))))"

definition workPlanned ::
    "'re sub_answers \<Rightarrow> poll_reply \<Rightarrow> bool \<Rightarrow> file_system \<Rightarrow> 're herd_sub \<Rightarrow> panic + (bool \<times> 're herd_sub)" where
  "workPlanned ans reply fast fs st =
     (if map_option fst (plannedImage st) = map_option fst (requiredImage st) then Inr (True, st)
      else
        bindP (fetchMissingObjects ans fs (map_option snd (plannedImage st)) (reply_FreeSpace reply) False fast st)
          (\<lambda>(idle, stat, st).
            if \<not> idle \<and> stat \<noteq> StatusImageNotReady \<and> stat \<noteq> StatusNotEnoughFreeSpace
            then Inr (False, reclaim (st\<lparr>status := stat\<rparr>)) else Inr (True, st)))"

definition pollWork ::
    "'re herd_env \<Rightarrow> 're sub_answers \<Rightarrow> sub_status \<Rightarrow> poll_reply \<Rightarrow> bool \<Rightarrow> bool \<Rightarrow> 're herd_sub \<Rightarrow> panic + 're herd_sub" where
  "pollWork env ans previousStatus reply fast failOnReboot st =
     (case fileSystem st of
        None \<Rightarrow> Inr (st\<lparr>status := previousStatus\<rparr>)
      | Some fs \<Rightarrow>
          bindP (workRequired env ans reply fast failOnReboot fs st) (\<lambda>(go, st).
            if \<not> go then Inr st
            else
              bindP (workPlanned ans reply fast fs st) (\<lambda>(go, st).
                if \<not> go then Inr st
                else
                  (let st = (if previousStatus = StatusWaitingForNextFullPoll \<and> lastUpdateTime st \<noteq> 0
                             then st\<lparr>lastSyncTime := pollClock env\<rparr> else st)
                   in Inr (reclaim (cleanup fs (st\<lparr>status := StatusSynced\<rparr>)))))))"

text \<open>The result is whether a retry is reasonable.\<close>

definition poll ::
    "'re herd_env \<Rightarrow> 're sub_answers \<Rightarrow> sub_status \<Rightarrow> bool \<Rightarrow> bool \<Rightarrow> 're herd_sub \<Rightarrow> panic + (bool \<times> 're herd_sub)" where
  "poll env ans previousStatus fast failOnReboot st =
     (case makePollRequest (forceFullPoll env previousStatus st) of
        (pollRequest, st) \<Rightarrow>
          (let haveImg = \<not> ShortPollOnly pollRequest;
               st = called (PollCall pollRequest) st
           in case answerPoll ans pollRequest of
                Inl PollEOF \<Rightarrow> Inr (True, st)
              | Inl PollAccessDenied \<Rightarrow> Inr (False, st\<lparr>status := StatusPollDenied\<rparr>)
              | Inl PollFailed \<Rightarrow> Inr (True, st\<lparr>status := StatusFailedToPoll\<rparr>)
              | Inr reply \<Rightarrow>
                  bindP (receiveReply env reply st) (\<lambda>received.
                    case received of
                      Inl st \<Rightarrow> Inr (False, st)
                    | Inr st \<Rightarrow>
                        (case checkReply previousStatus reply haveImg (cancelPending ans)
                                (updateConfiguration env reply st) of
                           Inl st \<Rightarrow> Inr (False, st)
                         | Inr (previousStatus, st) \<Rightarrow>
                             bindP (pollWork env ans previousStatus reply fast failOnReboot st)
                               (\<lambda>st. Inr (False, st))))))"

section \<open>Connecting\<close>

definition getImageNames :: "bool \<Rightarrow> 're herd_sub \<Rightarrow> string \<times> string" where
  "getImageNames swapImages st =
     (if swapImages then (PlannedImage (mdb st), RequiredImage (mdb st))
      else (RequiredImage (mdb st), PlannedImage (mdb st)))"

text \<open>The images come from the image manager; the result is whether they changed.\<close>

definition loadConfiguration ::
    "(string \<Rightarrow> 're image_pointer option) \<Rightarrow> string \<Rightarrow> bool \<Rightarrow> 're herd_sub \<Rightarrow> bool \<times> 're herd_sub" where
  "loadConfiguration getImage defaultImageName swapImages st =
     (case getImageNames swapImages st of
        (required, planned) \<Rightarrow>
          (let required = (if required = '''' then defaultImageName else required)
           in (map_option fst (requiredImage st) \<noteq> map_option fst (getImage required)
                 \<or> map_option fst (plannedImage st) \<noteq> map_option fst (getImage planned),
               st\<lparr>requiredImageName := required, requiredImage := getImage required,
                  plannedImageName := planned, plannedImage := getImage planned\<rparr>)))"

record file_info =
  fi_Pathname :: string
  fi_Hash :: hash
  fi_Length :: u64

definition computedInode :: "computed_regular_inode \<Rightarrow> file_info \<Rightarrow> regular_inode" where
  "computedInode c info =
     \<lparr>ri_Mode = ci_Mode c, ri_Uid = ci_Uid c, ri_Gid = ci_Gid c, ri_MtimeNanoSeconds = 0,
      ri_MtimeSeconds = -1, ri_Size = fi_Length info, ri_Hash = fi_Hash info\<rparr>"

definition processFileInfo ::
    "file_system \<Rightarrow> bool \<times> (string \<rightharpoonup> regular_inode) \<Rightarrow> file_info \<Rightarrow> bool \<times> (string \<rightharpoonup> regular_inode)" where
  "processFileInfo fs acc info =
     (if fi_Hash info = zeroHash then acc
      else case FilenameToInodeTable fs (fi_Pathname info) of
        None \<Rightarrow> acc
      | Some inum \<Rightarrow>
          (case map_of (InodeTable fs) inum of
             Some (Some (ComputedRegularInode c)) \<Rightarrow> (True, (snd acc)(fi_Pathname info \<mapsto> computedInode c info))
           | _ \<Rightarrow> acc))"

text \<open>The received computed files become inodes of the required image; without one they are discarded.\<close>

definition processFileUpdates :: "file_info list list \<Rightarrow> 're herd_sub \<Rightarrow> bool \<times> 're herd_sub" where
  "processFileUpdates received st =
     (case requiredImage st of
        None \<Rightarrow> (False, st)
      | Some (_, img) \<Rightarrow>
          (let fresh = (computedInodes st = None);
               st = (if fresh then st\<lparr>computedInodes := Some Map.empty\<rparr> else st)
           in if fresh \<and> deleting st then (False, st)
              else
                (case foldl (processFileInfo (img_FileSystem img)) (False, the (computedInodes st)) (concat received) of
                   (haveUpdates, computed) \<Rightarrow> (haveUpdates, st\<lparr>computedInodes := Some computed\<rparr>))))"

datatype dial_result =
    Dialed bool
  | DialResourceLimit | DialDNSError | DialTimeout | DialConnectionRefused | DialNoRouteToHost
  | DialMissingCertificate | DialBadCertificate | DialFailed

definition dialStatus :: "dial_result \<Rightarrow> sub_status" where
  "dialStatus d = (case d of
     DialDNSError \<Rightarrow> StatusDNSError
   | DialTimeout \<Rightarrow> StatusConnectTimeout
   | DialConnectionRefused \<Rightarrow> StatusConnectionRefused
   | DialNoRouteToHost \<Rightarrow> StatusNoRouteToHost
   | DialMissingCertificate \<Rightarrow> StatusMissingCertificate
   | DialBadCertificate \<Rightarrow> StatusBadCertificate
   | DialFailed \<Rightarrow> StatusFailedToConnect
   | _ \<Rightarrow> StatusConnecting)"

text \<open>What is done about the installer of subs at the end: add the sub, remove it, or nothing.\<close>

datatype installer_action = InstallerAdd | InstallerRemove | InstallerNothing

definition installerAction :: "sub_status \<Rightarrow> installer_action" where
  "installerAction s =
     (if s \<in> {StatusUnknown, StatusConnecting, StatusDNSError, StatusNoRouteToHost} then InstallerNothing
      else if s \<in> {StatusConnectionRefused, StatusConnectTimeout, StatusFailedToConnect} then InstallerAdd
      else InstallerRemove)"

definition connectAndPoll2 ::
    "'re herd_env \<Rightarrow> (string \<Rightarrow> 're image_pointer option) \<Rightarrow> string \<Rightarrow> file_info list list \<Rightarrow> dial_result \<Rightarrow> bool
       \<Rightarrow> 're sub_answers \<Rightarrow> bool \<Rightarrow> bool \<Rightarrow> bool \<Rightarrow> 're herd_sub
       \<Rightarrow> panic + (bool \<times> installer_action \<times> 're herd_sub)" where
  "connectAndPoll2 env getImage defaultImageName received dial cancelled ans swapImages failOnReboot fast st =
     (case loadConfiguration getImage defaultImageName swapImages st of
        (changed, st) \<Rightarrow>
          (let st = (if changed then st\<lparr>generationCount := 0\<rparr> else st)
           in case processFileUpdates received st of
                (haveUpdates, st) \<Rightarrow>
                  (let st = (if haveUpdates then st\<lparr>generationCount := 0\<rparr> else st);
                       previousStatus = status st;
                       publish = (\<lambda>st. st\<lparr>publishedStatus := status st\<rparr>)
                   in if deleting st then Inr (False, InstallerNothing, st)
                      else case dial of
                        Dialed encrypted \<Rightarrow>
                          (let st = st\<lparr>isInsecure := \<not> encrypted, status := StatusConnecting\<rparr>
                           in if cancelled then Inr (False, installerAction (status st), publish st)
                              else
                                bindP (poll env ans previousStatus fast failOnReboot (st\<lparr>status := StatusPolling\<rparr>))
                                  (\<lambda>(retry, st). Inr (retry, installerAction (status st), publish st)))
                      | _ \<Rightarrow>
                          (let st = st\<lparr>isInsecure := False, status := dialStatus dial\<rparr>
                           in Inr (False, installerAction (status st), publish st)))))"

section \<open>Administration\<close>

definition ownerMatches :: "auth_information \<Rightarrow> string list \<Rightarrow> string list \<Rightarrow> bool" where
  "ownerMatches auth groups users \<longleftrightarrow>
     list_ex (\<lambda>g. g \<in> GroupList auth) groups \<or> Username auth \<noteq> '''' \<and> list_ex (\<lambda>u. u = Username auth) users"

text \<open>The configuration of the sub itself is \<open>None\<close> if it cannot be had.\<close>

definition checkAdminAccess :: "sub_configuration option \<Rightarrow> auth_information option \<Rightarrow> 're herd_sub \<Rightarrow> bool" where
  "checkAdminAccess conf authInfo st =
     (case authInfo of
        None \<Rightarrow> False
      | Some auth \<Rightarrow>
          HaveMethodAccess auth \<or> ownerMatches auth (OwnerGroups (mdb st)) (OwnerUsers (mdb st))
          \<or> (case conf of None \<Rightarrow> False | Some c \<Rightarrow> ownerMatches auth (conf_OwnerGroups c) (conf_OwnerUsers c)))"

datatype admin_error = NoPendingUnsafeUpdate | NotWaitingForDisruption | NoAccessToSub

definition clearSafetyShutoff ::
    "sub_configuration option \<Rightarrow> auth_information option \<Rightarrow> 're herd_sub \<Rightarrow> admin_error + 're herd_sub" where
  "clearSafetyShutoff conf authInfo st =
     (if status st \<noteq> StatusUnsafeUpdate then Inl NoPendingUnsafeUpdate
      else if \<not> checkAdminAccess conf authInfo st then Inl NoAccessToSub
      else Inr (st\<lparr>pendingSafetyClear := True\<rparr>))"

definition forceDisruptiveUpdate ::
    "sub_configuration option \<Rightarrow> auth_information option \<Rightarrow> 're herd_sub \<Rightarrow> admin_error + 're herd_sub" where
  "forceDisruptiveUpdate conf authInfo st =
     (if status st \<notin> {StatusDisruptionRequested, StatusDisruptionDenied} then Inl NotWaitingForDisruption
      else if \<not> checkAdminAccess conf authInfo st then Inl NoAccessToSub
      else Inr (st\<lparr>pendingForceDisruptiveUpdate := True\<rparr>))"

text \<open>
  What a fast update does before the state machine: it makes the sub busy, or times out; one
  round of its loop stops at a final status.
\<close>

definition tryMakeBusy :: "'re herd_sub \<Rightarrow> bool \<times> 're herd_sub" where
  "tryMakeBusy st = (if busy st then (False, st) else (True, st\<lparr>busy := True\<rparr>))"

definition makeUnbusy :: "'re herd_sub \<Rightarrow> 're herd_sub" where
  "makeUnbusy st = st\<lparr>busy := False\<rparr>"

definition fastUpdateDone :: "sub_status \<Rightarrow> bool" where
  "fastUpdateDone s \<longleftrightarrow> s \<in> {StatusSynced, StatusUpdatesDisabled, StatusUnsafeUpdate, StatusRebootBlocked}"

end
