(* ===== verification/Herd_Safety.thy ===== *)
theory Herd_Safety
  imports Herd_Poll
begin

text \<open>
  What a poll of a sub guarantees: it does not panic, it declares a sub synced only if the sub
  complies with its image, it sends an update only if that is allowed and safe, and it cleans
  up only objects that are not needed.
\<close>

section \<open>Missing objects\<close>

text \<open>Building the lists depends on the object cache only in what is deleted at the end.\<close>

lemma buildMissingLists_cache:
  assumes "buildMissingLists s img planned push ign = Inr (Some ls)"
    and "sub_FileSystem s' = sub_FileSystem s" "sub_ComputedInodes s' = sub_ComputedInodes s"
  shows "\<exists>ls'. buildMissingLists s' img planned push ign = Inr (Some ls')"
proof -
  have same: "updateMissingLists s' im p ig l = updateMissingLists s im p ig l" for im :: "'re image option" and p ig l
    by (cases im) (simp_all add: updateMissingLists_def assms)
  obtain ls1 ls2 where "updateMissingLists s img push ign ([], []) = Inr (True, ls1)"
    "updateMissingLists s planned False False ls1 = Inr (True, ls2)"
    using assms(1) by (auto simp: buildMissingLists_def split: if_splits prod.splits)
  then show ?thesis by (simp add: buildMissingLists_def same)
qed

lemma pushed_lists_empty:
  assumes "buildMissingLists (subObject fs st) (Some img) None True False = Inr (Some ([], pushes))"
  shows "buildMissingLists (subObject fs (st\<lparr>objectCache := objectCache st @ map fst pushes\<rparr>)) (Some img) None True False
    = Inr (Some ([], []))"
proof -
  let ?s' = "subObject fs (st\<lparr>objectCache := objectCache st @ map fst pushes\<rparr>)"
  obtain fetch' pushes' where b: "buildMissingLists ?s' (Some img) None True False = Inr (Some (fetch', pushes'))"
    using buildMissingLists_cache [OF assms, of ?s'] by (auto simp: subObject_def)
  note old = missing_sets [OF assms] and new = missing_sets [OF b]
  have "fst ` set fetch' = {}" "fst ` set pushes' = {}" using old new by (auto simp: subObject_def)
  then show ?thesis using b by simp
qed

text \<open>Lists of missing objects exist only if no computed file is missing.\<close>

lemma updateMissingLoop_computed:
  "updateMissingLoop computed names True False t ls = Inr (True, ls') \<Longrightarrow>
     (i, Some (ComputedRegularInode c)) \<in> set t \<Longrightarrow>
     \<exists>n ns. indexTable names i = n # ns \<and> computed n \<noteq> None"
proof (induction computed names True False t ls arbitrary: ls' rule: updateMissingLoop.induct)
  case (2 computed names inum ino t fetch pushes)
  show ?case
  proof (cases "\<exists>d. ino = Some (ComputedRegularInode d)")
    case True
    then obtain d n ns r where d: "ino = Some (ComputedRegularInode d)" and n: "indexTable names inum = n # ns"
      "computed n = Some r"
      using "2.prems"(1) by (auto simp: first_index_cases split: option.splits)
    then show ?thesis using 2 by (cases "i = inum \<and> c = d") auto
  next
    case False
    then show ?thesis using 2 by (cases ino; cases "the ino") (auto split: if_splits)
  qed
qed simp

lemma missing_lists_tolerant:
  assumes "buildMissingLists s (Some img) planned True False = Inr (Some ls)"
    and "consistentFS (img_FileSystem img)" "singleNamedComputed (img_FileSystem img)"
  shows "tolerant (sub_ComputedInodes s) (buildEnv n s img dm im)"
proof -
  let ?fs = "img_FileSystem img"
  obtain ls1 where loop: "updateMissingLoop (sub_ComputedInodes s) (InodeToFilenamesTable ?fs) True False
      (InodeTable ?fs) ([], []) = Inr (True, ls1)"
    using assms(1) by (auto simp: buildMissingLists_def updateMissingLists_def split: if_splits sum.splits)
  have "sub_ComputedInodes s p \<noteq> None" if p: "(p, i, Some (ComputedRegularInode c)) \<in> set (pathsOf ?fs)" for p i c
  proof -
    have mem: "(i, Some (ComputedRegularInode c)) \<in> set (InodeTable ?fs)"
      using consistent_table [OF assms(2) p] by simp
    from updateMissingLoop_computed [OF loop mem] obtain n ns
      where n: "filenamesOf i (pathsOf ?fs) = n # ns" "sub_ComputedInodes s n \<noteq> None"
      by (auto simp: indexTable_InodeToFilenamesTable)
    moreover have "length (filenamesOf i (pathsOf ?fs)) = 1"
      using mem assms(3) by (auto simp: singleNamedComputed_def)
    moreover have "p \<in> set (filenamesOf i (pathsOf ?fs))" using p by (auto simp: set_filenamesOf)
    ultimately show ?thesis by auto
  qed
  then show ?thesis by (auto simp: tolerant_def buildEnv_def split: option.splits generic_inode.splits)
qed

section \<open>Fetching and sending\<close>

text \<open>What the calls of a poll leave of the state of a sub.\<close>

definition identityOf :: "'re herd_sub \<Rightarrow> 're herd_sub" where
  "identityOf st = st\<lparr>objectCache := [], status := StatusUnknown, freeSpaceThreshold := None, calls := [],
     lastUpdateTime := 0, pendingSafetyClear := False, pendingForceDisruptiveUpdate := False\<rparr>"

lemma identityOf_fields:
  assumes "identityOf st' = identityOf st"
  shows "mdb st' = mdb st" "requiredImage st' = requiredImage st" "plannedImage st' = plannedImage st"
    "requiredImageName st' = requiredImageName st" "computedInodes st' = computedInodes st"
    "fileSystem st' = fileSystem st" "lastSuccessfulImageName st' = lastSuccessfulImageName st"
    "generationCount st' = generationCount st"
  using arg_cong [OF assms, of mdb] arg_cong [OF assms, of requiredImage] arg_cong [OF assms, of plannedImage]
    arg_cong [OF assms, of requiredImageName] arg_cong [OF assms, of computedInodes] arg_cong [OF assms, of fileSystem]
    arg_cong [OF assms, of lastSuccessfulImageName] arg_cong [OF assms, of generationCount]
  by (simp_all add: identityOf_def)

lemma called_simps [simp]:
  "identityOf (called c st) = identityOf st" "objectCache (called c st) = objectCache st"
  "calls (called c st) = calls st @ [c]" "status (called c st) = status st"
  "pendingSafetyClear (called c st) = pendingSafetyClear st"
  by (simp_all add: called_def identityOf_def)

lemma checkForEnoughSpace_keeps:
  assumes "checkForEnoughSpace free objects st = (ok, st')"
  shows "identityOf st' = identityOf st \<and> objectCache st' = objectCache st \<and> calls st' = calls st
    \<and> pendingSafetyClear st' = pendingSafetyClear st \<and> status st' = status st"
  using assms by (auto simp: checkForEnoughSpace_def identityOf_def Let_def split: option.splits if_splits)

text \<open>The calls for objects: everything but fetching and pushing is left to others.\<close>

definition objectCalls :: "'re herd_call list \<Rightarrow> bool" where
  "objectCalls = list_all (\<lambda>c. case c of FetchCall _ _ \<Rightarrow> True | PushCall _ \<Rightarrow> True | _ \<Rightarrow> False)"

lemma fetchMissingObjects_keeps:
  assumes "fetchMissingObjects ans fs img free req fast st = Inr (idle, stat, st')"
  shows "identityOf st' = identityOf st \<and> pendingSafetyClear st' = pendingSafetyClear st
    \<and> (\<exists>cs. calls st' = calls st @ cs \<and> objectCalls cs)"
proof (cases img)
  case None
  then show ?thesis using assms by (simp add: fetchMissingObjects_def objectCalls_def)
next
  case (Some im)
  obtain lists where lists: "buildMissingLists (subObject fs st) (Some im) None req False = Inr lists"
    using assms Some by (auto simp: fetchMissingObjects_def)
  show ?thesis
  proof (cases lists)
    case None
    then show ?thesis using assms Some lists by (simp add: fetchMissingObjects_def objectCalls_def)
  next
    case (Some ls)
    obtain fetch pushes where ls: "ls = (fetch, pushes)" by (cases ls)
    obtain ok st1 where st1: "(if fetch \<noteq> [] then checkForEnoughSpace free fetch st else (True, st)) = (ok, st1)"
      by (cases "if fetch \<noteq> [] then checkForEnoughSpace free fetch st else (True, st)")
    have k: "identityOf st1 = identityOf st" "objectCache st1 = objectCache st" "calls st1 = calls st"
      "pendingSafetyClear st1 = pendingSafetyClear st"
      using st1 checkForEnoughSpace_keeps [of free fetch st ok st1] by (auto split: if_splits)
    have id: "identityOf (u\<lparr>status := x\<rparr>) = identityOf u" "identityOf (u\<lparr>objectCache := y\<rparr>) = identityOf u"
      for u :: "'a herd_sub" and x y by (simp_all add: identityOf_def)
    show ?thesis using assms k
      unfolding fetchMissingObjects_def \<open>img = Some im\<close> option.case lists Some ls
      by (cases ok) (auto simp: st1 Let_def objectCalls_def id
          split: option.splits call_error.splits push_error.splits if_splits)
  qed
qed

lemma fetchMissingObjects_idle:
  assumes "fetchMissingObjects ans fs (Some im) free True fast st = Inr (True, stat, st')"
  shows "buildMissingLists (subObject fs st') (Some im) None True False = Inr (Some ([], []))"
proof -
  obtain fetch pushes where lists: "buildMissingLists (subObject fs st) (Some im) None True False = Inr (Some (fetch, pushes))"
    using assms by (auto simp: fetchMissingObjects_def split: option.splits)
  have f: "fetch = []"
    using assms lists by (auto simp: fetchMissingObjects_def Let_def split: option.splits call_error.splits push_error.splits
        if_splits prod.splits bool.splits)
  have same: "subObject fs (called c (st\<lparr>status := x\<rparr>)\<lparr>objectCache := y\<rparr>) = subObject fs (st\<lparr>objectCache := y\<rparr>)"
    for c x y by (simp add: subObject_def called_def)
  show ?thesis
  proof (cases "pushes = []")
    case True
    then show ?thesis using assms lists f by (simp add: fetchMissingObjects_def)
  next
    case False
    then have "st' = called (PushCall (map fst pushes)) (st\<lparr>status := StatusPushing\<rparr>)
        \<lparr>objectCache := objectCache st @ map fst pushes\<rparr>"
      using assms lists f by (auto simp: fetchMissingObjects_def Let_def split: option.splits push_error.splits)
    then show ?thesis using pushed_lists_empty [of fs st im pushes] lists f by (simp add: same)
  qed
qed

lemma buildMissingLists_no_panic:
  assumes "consistentFS (img_FileSystem im) \<or> \<not> push"
  shows "\<exists>r. buildMissingLists s (Some im) None push ign = Inr r"
proof -
  have "\<exists>r. updateMissingLoop computed names push ign t ls = Inr r"
    if "\<forall>i \<in> fst ` set t. indexTable names i \<noteq> [] \<or> \<not> push" for computed names t ls
    using that
  proof (induction computed names push ign t ls rule: updateMissingLoop.induct)
    case (2 computed names push ign inum ino t fetch pushes)
    then show ?case
      by (cases "indexTable names inum"; cases ino; cases "the ino"; cases "computed (hd (indexTable names inum))")
         (auto split: if_splits)
  qed auto
  moreover have "\<forall>i \<in> fst ` set (InodeTable (img_FileSystem im)).
      indexTable (InodeToFilenamesTable (img_FileSystem im)) i \<noteq> [] \<or> \<not> push"
    using assms by (auto simp: consistentFS_def indexTable_InodeToFilenamesTable)
  ultimately obtain r where "updateMissingLoop (sub_ComputedInodes s) (InodeToFilenamesTable (img_FileSystem im)) push ign
      (InodeTable (img_FileSystem im)) ([], []) = Inr r" by blast
  then show ?thesis by (cases r) (simp add: buildMissingLists_def updateMissingLists_def)
qed

lemma fetchMissingObjects_no_panic:
  assumes "case img of None \<Rightarrow> True | Some im \<Rightarrow> consistentFS (img_FileSystem im) \<or> \<not> req"
  shows "\<exists>r. fetchMissingObjects ans fs img free req fast st = Inr r"
proof (cases img)
  case (Some im)
  then obtain lists where lists: "buildMissingLists (subObject fs st) (Some im) None req False = Inr lists"
    using buildMissingLists_no_panic [of im req "subObject fs st" False] assms by auto
  show ?thesis unfolding fetchMissingObjects_def Some option.case lists
    by (auto simp: Let_def split: option.splits prod.splits bool.splits call_error.splits push_error.splits if_splits)
qed (auto simp: fetchMissingObjects_def)

text \<open>The request of the library, and whether there is nothing to do.\<close>

lemma subBuildUpdateRequest_eq:
  assumes "buildUpdateRequest (pollClock env div 10 ^ 9) (subObject fs st) img
    (emptyRequest\<lparr>ImageName := requiredImageName st, request_Triggers := img_Triggers img\<rparr>) False False
    = Inr (missing, req)"
  shows "subBuildUpdateRequest env fs img st = Inr (\<not> missing \<and> inactive req
    \<and> (img_Filter img \<noteq> None \<longrightarrow> lastSuccessfulImageName st = requiredImageName st), missing, req)"
  unfolding subBuildUpdateRequest_def assms bindP_simps prod.case by (simp add: inactive_def noActions_def) auto

lemma sendUpdate_cases:
  assumes "sendUpdate env ans fs img failOnReboot st = Inr (idle, stat, st')"
  obtains (idle) req where "idle" "st' = st"
      "buildUpdateRequest (pollClock env div 10 ^ 9) (subObject fs st) img
         (emptyRequest\<lparr>ImageName := requiredImageName st, request_Triggers := img_Triggers img\<rparr>) False False
       = Inr (False, req)" "inactive req"
      "img_Filter img \<noteq> None \<Longrightarrow> lastSuccessfulImageName st = requiredImageName st"
    | (stopped) "\<not> idle" "st' = st"
      "stat \<in> {StatusMissingComputedFile, StatusUpdatesDisabled, StatusUnsafeUpdate, StatusRebootBlocked}"
    | (sent) req req' where "\<not> idle" "identityOf st' = identityOf st" "calls st' = calls st @ [UpdateCall req']"
      "stat \<in> {StatusUpdateDenied, StatusFailedToUpdate, StatusUpdating}"
      "buildUpdateRequest (pollClock env div 10 ^ 9) (subObject fs st) img
         (emptyRequest\<lparr>ImageName := requiredImageName st, request_Triggers := img_Triggers img\<rparr>) False False
       = Inr (False, req)" "req' \<in> {req, req\<lparr>ForceDisruption := True\<rparr>}"
      "\<not> DisableUpdates (mdb st)" "updatesDisabledReason env = ''''"
      "pendingSafetyClear st \<or> \<not> checkForUnsafeChange fs img req st"
      "failOnReboot \<Longrightarrow> \<exists>ts. matchTriggersInUpdate (he_compile env) (he_match env) req = Inr ts \<and> \<not> snd (checkImpact ts)"

proof -
  let ?build = "buildUpdateRequest (pollClock env div 10 ^ 9) (subObject fs st) img
    (emptyRequest\<lparr>ImageName := requiredImageName st, request_Triggers := img_Triggers img\<rparr>) False False"
  let ?quiet = "\<lambda>req. inactive req \<and> (img_Filter img \<noteq> None \<longrightarrow> lastSuccessfulImageName st = requiredImageName st)"
  obtain missing req where b: "?build = Inr (missing, req)"
    using assms by (auto simp: sendUpdate_def subBuildUpdateRequest_def)
  note sub = subBuildUpdateRequest_eq [OF b]
  note * = assms [unfolded sendUpdate_def sub bindP_simps prod.case]
  show thesis
  proof (cases "missing \<or> ?quiet req")
    case True
    show thesis
    proof (cases missing)
      case True
      then have "\<not> idle" "st' = st" "stat = StatusMissingComputedFile" using * by auto
      then show thesis by (intro that(2)) auto
    next
      case nm: False
      then have q: "idle" "st' = st" "inactive req" using * True by auto
      show thesis using True nm by (intro that(1) [OF q(1,2) _ q(3)]) (use b in auto)
    qed
  next
    case False
    then have nq: "\<not> missing" "\<not> ?quiet req" by auto
    show thesis
    proof (cases "DisableUpdates (mdb st) \<or> updatesDisabledReason env \<noteq> '''' \<or>
        \<not> pendingSafetyClear st \<and> checkForUnsafeChange fs img req st")
      case True
      then have "\<not> idle \<and> st' = st \<and> stat \<in> {StatusUpdatesDisabled, StatusUnsafeUpdate}"
        using nq * by (simp split: if_splits)
      then show thesis by (intro that(2)) auto
    next
      case allowed: False
      obtain blocked where bl: "(if failOnReboot
          then bindP (matchTriggersInUpdate (he_compile env) (he_match env) req) (\<lambda>triggers. Inr (snd (checkImpact triggers)))
          else Inr False) = Inr blocked"
        using nq allowed * by (auto split: if_splits)
      show thesis
      proof (cases blocked)
        case True
        then have "\<not> idle" "st' = st" "stat = StatusRebootBlocked"
          using nq allowed * unfolding bl bindP_simps by auto
        then show thesis by (intro that(2)) auto
      next
        case send: False
        define forced where "forced = ((case Tags (mdb st) ''ForceDisruptiveUpdate'' of None \<Rightarrow> False | Some v \<Rightarrow> isTrueFold v)
          \<or> pendingForceDisruptiveUpdate st)"
        define req' where "req' = (if forced then req\<lparr>ForceDisruption := True\<rparr> else req)"
        define st1 where "st1 = called (UpdateCall req') (st\<lparr>status := StatusSendingUpdate, lastUpdateTime := pollClock env\<rparr>)"
        have r: "(case answerUpdate ans req' of
            Some CallAccessDenied \<Rightarrow> Inr (False, StatusUpdateDenied, st1)
          | Some CallFailed \<Rightarrow> Inr (False, StatusFailedToUpdate, st1)
          | None \<Rightarrow> (Inr (False, StatusUpdating,
              st1\<lparr>pendingSafetyClear := False, pendingForceDisruptiveUpdate := False\<rparr>) :: panic + _)) = Inr (idle, stat, st')"
          using nq allowed send * unfolding bl bindP_simps forced_def [symmetric] Let_def req'_def [symmetric] st1_def [symmetric]
          by auto
        have "failOnReboot \<Longrightarrow> \<exists>ts. matchTriggersInUpdate (he_compile env) (he_match env) req = Inr ts \<and> \<not> snd (checkImpact ts)"
          using bl send by auto
        moreover have "identityOf st' = identityOf st" "calls st' = calls st @ [UpdateCall req']" "\<not> idle"
          "stat \<in> {StatusUpdateDenied, StatusFailedToUpdate, StatusUpdating}"
          using r by (auto simp: st1_def called_def identityOf_def split: option.splits call_error.splits)
        ultimately show thesis using b nq allowed by (intro that(3) [of req' req]) (auto simp: req'_def)
      qed
    qed
  qed
qed
section \<open>The course of a poll\<close>

text \<open>What is fixed during a poll, up to the work on the images.\<close>

definition subView :: "'re herd_sub \<Rightarrow> _" where
  "subView st = (mdb st, requiredImageName st, requiredImage st, plannedImage st, computedInodes st, pendingSafetyClear st)"

text \<open>The file system a poll works with: the one received, with its pointers, or the one kept.\<close>

definition polledFileSystem :: "'re herd_env \<Rightarrow> poll_reply \<Rightarrow> 're herd_sub \<Rightarrow> file_system option" where
  "polledFileSystem env reply st =
     (case reply_FileSystem reply of
        None \<Rightarrow> if reply_GenerationCount reply = 0 then None else fileSystem st
      | Some fs \<Rightarrow>
          (case rebuildInodePointers (\<lambda>_ _. False) (stackDepth env) fs of Some (Inr fs) \<Rightarrow> Some fs | _ \<Rightarrow> None))"

definition configCalls :: "'re herd_call list \<Rightarrow> bool" where
  "configCalls = list_all (\<lambda>c. case c of SetConfigurationCall _ \<Rightarrow> True | _ \<Rightarrow> False)"

lemma forceFullPoll_view:
  "subView (forceFullPoll env prev st) = subView st" "status (forceFullPoll env prev st) = status st"
  "fileSystem (forceFullPoll env prev st) = fileSystem st" "calls (forceFullPoll env prev st) = calls st"
  by (simp_all add: forceFullPoll_def subView_def Let_def)

lemma start_view:
  assumes "makePollRequest (forceFullPoll env prev st) = (r, st')"
  shows "subView st' = subView st" "status st' = status st" "fileSystem st' = fileSystem st" "calls st' = calls st"
proof -
  let ?f = "forceFullPoll env prev st"
  have "st' \<in> {?f, ?f\<lparr>generationCount := 0\<rparr>}" using assms by (auto simp: makePollRequest_def)
  moreover have "subView (?f\<lparr>generationCount := 0\<rparr>) = subView ?f" by (simp add: subView_def)
  ultimately show "subView st' = subView st" "status st' = status st" "fileSystem st' = fileSystem st" "calls st' = calls st"
    using forceFullPoll_view [of env prev st] by auto
qed

lemma receiveReply_view:
  assumes "receiveReply env reply st = Inr (Inr st')"
  shows "subView st' = subView st" "status st' = status st" "calls st' = calls st"
    "fileSystem st' = polledFileSystem env reply st"
    "lastSuccessfulImageName st' = reply_LastSuccessfulImageName reply"
proof -
  have "subView st' = subView st \<and> status st' = status st \<and> calls st' = calls st
    \<and> fileSystem st' = polledFileSystem env reply st
    \<and> lastSuccessfulImageName st' = reply_LastSuccessfulImageName reply"
  proof (cases "reply_FileSystem reply")
    case None
    then show ?thesis using assms
      by (cases "reply_GenerationCount reply = 0")
         (auto simp: receiveReply_def polledFileSystem_def subView_def reclaim_def Let_def)
  next
    case (Some fs)
    then obtain fs' where "rebuildInodePointers (\<lambda>_ _. False) (stackDepth env) fs = Some (Inr fs')"
      using assms by (auto simp: receiveReply_def Let_def split: option.splits sum.splits)
    then show ?thesis using assms Some
      by (cases "reply_GenerationCount reply = 0")
         (auto simp: receiveReply_def polledFileSystem_def subView_def reclaim_def Let_def)
  qed
  then show "subView st' = subView st" "status st' = status st" "calls st' = calls st"
    "fileSystem st' = polledFileSystem env reply st"
    "lastSuccessfulImageName st' = reply_LastSuccessfulImageName reply" by blast+
qed

lemma receiveReply_failed:
  assumes "receiveReply env reply st = Inr (Inl st')"
  shows "status st' = StatusFailedToPoll" "calls st' = calls st"
  using assms by (auto simp: receiveReply_def Let_def reclaim_def split: option.splits sum.splits)

lemma updateConfiguration_view:
  "subView (updateConfiguration env reply st) = subView st"
  "status (updateConfiguration env reply st) = status st"
  "fileSystem (updateConfiguration env reply st) = fileSystem st"
  "lastSuccessfulImageName (updateConfiguration env reply st) = lastSuccessfulImageName st"
  "\<exists>cs. calls (updateConfiguration env reply st) = calls st @ cs \<and> configCalls cs"
  by (auto simp: updateConfiguration_def subView_def called_def configCalls_def Let_def)

lemma checkSubState_view:
  "case checkSubState prev reply st of
     Inl st' \<Rightarrow> calls st' = calls st \<and> (status st' = StatusSynced \<longrightarrow> status st = StatusSynced)
   | Inr st' \<Rightarrow> st' \<in> {st, st\<lparr>status := StatusFailedToFetch\<rparr>} \<and> prev \<noteq> StatusUpdating"
  by (simp add: checkSubState_def updateEndStatus_def reclaim_def)

lemma checkProgress_view:
  "case checkProgress prev reply haveImg cancelled st of
     Inl st' \<Rightarrow> calls st' = calls st \<and> (status st' = StatusSynced \<longrightarrow> status st = StatusSynced)
   | Inr (prev', st') \<Rightarrow> st' \<in> {st, st\<lparr>generationCount := 0\<rparr>}
       \<and> (prev' = prev \<or> prev' \<in> {StatusDisruptionRequested, StatusDisruptionDenied})"
  by (auto simp: checkProgress_def reclaim_def split: disruption_state.split)
lemma checkReply_goes_on:
  assumes "checkReply prev reply haveImg cancelled st = Inr (prev', st')"
  shows "subView st' = subView st" "fileSystem st' = fileSystem st" "calls st' = calls st"
    "lastSuccessfulImageName st' = lastSuccessfulImageName st"
    "prev' = prev \<or> prev' \<in> {StatusDisruptionRequested, StatusDisruptionDenied}"
proof -
  have w: "st' \<in> {st, st\<lparr>generationCount := 0\<rparr>, st\<lparr>status := StatusFailedToFetch\<rparr>,
      st\<lparr>status := StatusFailedToFetch, generationCount := 0\<rparr>}"
    and prev': "prev' = prev \<or> prev' \<in> {StatusDisruptionRequested, StatusDisruptionDenied}"
    using assms checkSubState_view [where prev = prev and reply = reply and st = st]
      checkProgress_view [where prev = prev and reply = reply and haveImg = haveImg and cancelled = cancelled]
    by (fastforce simp: checkReply_def split: sum.splits)+
  show "prev' = prev \<or> prev' \<in> {StatusDisruptionRequested, StatusDisruptionDenied}" by (rule prev')
  show "subView st' = subView st" "fileSystem st' = fileSystem st" "calls st' = calls st"
    "lastSuccessfulImageName st' = lastSuccessfulImageName st"
    using w by (auto simp: subView_def)
qed

lemma polledFileSystem_cong: "fileSystem st' = fileSystem st \<Longrightarrow> polledFileSystem env reply st' = polledFileSystem env reply st"
  by (cases "reply_FileSystem reply") (simp_all add: polledFileSystem_def)

lemma poll_cases:
  assumes "poll env ans prev fast failOnReboot st = Inr (retry, st')"
  obtains (ended) cs where "calls st' = calls st @ cs" "\<forall>c \<in> set cs. (\<exists>r. c = PollCall r) \<or> configCalls [c]"
      "status st' = StatusSynced \<Longrightarrow> status st = StatusSynced"
    | (worked) r reply prev' st1 cs where "answerPoll ans r = Inr reply" "calls st1 = calls st @ PollCall r # cs" "configCalls cs"
      "pollWork env ans prev' reply fast failOnReboot st1 = Inr st'" "subView st1 = subView st"
      "fileSystem st1 = polledFileSystem env reply st"
      "lastSuccessfulImageName st1 = reply_LastSuccessfulImageName reply"
      "prev' = prev \<or> prev' \<in> {StatusDisruptionRequested, StatusDisruptionDenied}"
proof -
  obtain r u0 where u0: "makePollRequest (forceFullPoll env prev st) = (r, u0)"
    by (cases "makePollRequest (forceFullPoll env prev st)")
  define u where "u = called (PollCall r) u0"
  have u: "subView u = subView st" "status u = status st" "fileSystem u = fileSystem st" "calls u = calls st @ [PollCall r]"
    using start_view [OF u0] by (simp_all add: u_def called_def subView_def)
  have p: "poll env ans prev fast failOnReboot st = (case answerPoll ans r of
        Inl PollEOF \<Rightarrow> Inr (True, u)
      | Inl PollAccessDenied \<Rightarrow> Inr (False, u\<lparr>status := StatusPollDenied\<rparr>)
      | Inl PollFailed \<Rightarrow> Inr (True, u\<lparr>status := StatusFailedToPoll\<rparr>)
      | Inr reply \<Rightarrow>
          bindP (receiveReply env reply u) (\<lambda>received.
            case received of
              Inl st \<Rightarrow> Inr (False, st)
            | Inr st \<Rightarrow>
                (case checkReply prev reply (\<not> ShortPollOnly r) (cancelPending ans)
                        (updateConfiguration env reply st) of
                   Inl st \<Rightarrow> Inr (False, st)
                 | Inr (previousStatus, st) \<Rightarrow>
                     bindP (pollWork env ans previousStatus reply fast failOnReboot st) (\<lambda>st. Inr (False, st)))))"
    unfolding poll_def u0 u_def by (simp add: Let_def)
  show thesis
  proof (cases "answerPoll ans r")
    case (Inl e)
    then have "calls st' = calls st @ [PollCall r]" "status st' = StatusSynced \<Longrightarrow> status st = StatusSynced"
      using assms p u by (cases e; auto)+
    then show thesis by (intro ended [of "[PollCall r]"]) auto
  next
    case (Inr reply)
    then obtain received where rc: "receiveReply env reply u = Inr received" using assms p by auto
    show thesis
    proof (cases received)
      case (Inl v)
      then have "st' = v" using assms p Inr rc by simp
      then show thesis using receiveReply_failed [of env reply u v] rc Inl u by (intro ended [of "[PollCall r]"]) auto
    next
      case (Inr v)
      note v = receiveReply_view [OF rc [unfolded Inr]]
      let ?v = "updateConfiguration env reply v"
      obtain cs where cs: "calls ?v = calls v @ cs" "configCalls cs" using updateConfiguration_view(5) by blast
      have conf: "\<forall>c \<in> set cs. configCalls [c]" using cs(2) by (simp add: configCalls_def list_all_iff)
      have fs: "polledFileSystem env reply u = polledFileSystem env reply st" by (rule polledFileSystem_cong [OF u(3)])
      show thesis
      proof (cases "checkReply prev reply (\<not> ShortPollOnly r) (cancelPending ans) ?v")
        case (Inl w)
        then have "st' = w" using assms p \<open>answerPoll ans r = Inr reply\<close> rc Inr by simp
        moreover have "calls w = calls ?v \<and> (status w = StatusSynced \<longrightarrow> status ?v = StatusSynced)"
          using Inl checkSubState_view [where prev = prev and reply = reply and st = ?v]
            checkProgress_view [where prev = prev and reply = reply and haveImg = "\<not> ShortPollOnly r" and cancelled = "cancelPending ans"]
          by (fastforce simp: checkReply_def split: sum.splits)
        ultimately show thesis using u v cs conf
          by (intro ended [of "PollCall r # cs"]) (auto simp: updateConfiguration_view(2))
      next
        case (Inr pw)
        obtain prev' w where pw: "pw = (prev', w)" by (cases pw)
        note w = checkReply_goes_on [OF Inr [unfolded pw]]
        have "pollWork env ans prev' reply fast failOnReboot w = Inr st'"
          using assms p \<open>answerPoll ans r = Inr reply\<close> rc \<open>received = Inr v\<close> Inr pw by auto
        then show thesis
          using \<open>answerPoll ans r = Inr reply\<close> w u v cs fs
          by (intro worked [of r reply w cs prev']) (auto simp: updateConfiguration_view(1,3,4))
      qed
    qed
  qed
qed

section \<open>The calls of a poll\<close>

text \<open>When an update may be sent.\<close>

definition allowedUpdate :: "'re herd_env \<Rightarrow> bool \<Rightarrow> 're herd_sub \<Rightarrow> file_system \<Rightarrow> 're update_request \<Rightarrow> bool" where
  "allowedUpdate env failOnReboot st fs req \<longleftrightarrow>
     \<not> DisableUpdates (mdb st) \<and> updatesDisabledReason env = ''''
     \<and> (\<exists>i img. requiredImage st = Some (i, img)
          \<and> (pendingSafetyClear st \<or> \<not> checkForUnsafeChange fs img req st))
     \<and> (failOnReboot \<longrightarrow>
          (\<exists>ts. matchTriggersInUpdate (he_compile env) (he_match env) req = Inr ts \<and> \<not> snd (checkImpact ts)))"

text \<open>When objects may be removed.\<close>

definition allowedCleanup :: "'re herd_sub \<Rightarrow> file_system \<Rightarrow> hash list \<Rightarrow> bool" where
  "allowedCleanup st fs hashes \<longleftrightarrow>
     (\<exists>cache. hashes = map fst (unusedObjects fs (map_option snd (plannedImage st)) cache))"

definition allowedCall :: "'re herd_env \<Rightarrow> bool \<Rightarrow> 're herd_sub \<Rightarrow> 're herd_call \<Rightarrow> bool" where
  "allowedCall env failOnReboot st c \<longleftrightarrow>
     objectCalls [c]
     \<or> (\<exists>fs req. fileSystem st = Some fs \<and> c = UpdateCall req \<and> allowedUpdate env failOnReboot st fs req)
     \<or> (\<exists>fs hashes. fileSystem st = Some fs \<and> c = CleanupCall hashes \<and> allowedCleanup st fs hashes)"

lemma forced_same:
  "checkForUnsafeChange fs img (req\<lparr>ForceDisruption := b\<rparr>) st = checkForUnsafeChange fs img req st"
  "matchTriggersInUpdate rc rm (req\<lparr>ForceDisruption := b\<rparr>) = matchTriggersInUpdate rc rm req"
  by (simp add: checkForUnsafeChange_def) (cases "request_Triggers req"; simp add: matchTriggersInUpdate_def)

lemma checkForUnsafeChange_mdb: "mdb st' = mdb st \<Longrightarrow> checkForUnsafeChange fs img req st' = checkForUnsafeChange fs img req st"
  by (simp add: checkForUnsafeChange_def)

lemma workRequired_cases:
  assumes "workRequired env ans reply fast failOnReboot fs st = Inr (go, st')"
    and "requiredImage st = Some (i, img)"
  obtains (stopped) stat st1 where "\<not> go" "fetchMissingObjects ans fs (Some img) (reply_FreeSpace reply) True fast st = Inr (False, stat, st1)"
      "st' = reclaim (st1\<lparr>status := stat\<rparr>)"
    | (sent) stat st1 stat' st2 where
      "fetchMissingObjects ans fs (Some img) (reply_FreeSpace reply) True fast st = Inr (True, stat, st1)"
      "sendUpdate env ans fs img failOnReboot (st1\<lparr>status := StatusComputingUpdate\<rparr>) = Inr (go, stat', st2)"
      "st' = (if go then st2 else reclaim (st2\<lparr>status := stat'\<rparr>))"
  using assms by (auto simp: workRequired_def split: if_splits)

lemma workRequired_calls:
  assumes "workRequired env ans reply fast failOnReboot fs st = Inr (go, st')" "fileSystem st = Some fs"
  shows "\<exists>cs. calls st' = calls st @ cs \<and> list_all (allowedCall env failOnReboot st) cs"
    and "go \<Longrightarrow> plannedImage st' = plannedImage st"
proof -
  have "(\<exists>cs. calls st' = calls st @ cs \<and> list_all (allowedCall env failOnReboot st) cs)
    \<and> (go \<longrightarrow> plannedImage st' = plannedImage st)"
  proof (cases "requiredImage st")
    case None
    then show ?thesis using assms by (auto simp: workRequired_def)
  next
    case (Some im)
    then obtain i img where im: "requiredImage st = Some (i, img)" by (cases im) auto
    have ok: "list_all (allowedCall env failOnReboot st) cs" if "objectCalls cs" for cs
      using that by (auto simp: allowedCall_def objectCalls_def list_all_iff)
    show ?thesis
    proof (cases rule: workRequired_cases [OF assms(1) im])
      case (1 stat st1)
      then show ?thesis using fetchMissingObjects_keeps [OF 1(2)] ok by (auto simp: reclaim_def)
    next
      case (2 stat st1 stat' st2)
      note keep = fetchMissingObjects_keeps [OF 2(1)]
      then obtain cs where cs: "calls st1 = calls st @ cs" "objectCalls cs" by blast
      note id = identityOf_fields [OF conjunct1 [OF keep]]
      have ps: "pendingSafetyClear st1 = pendingSafetyClear st" using keep by blast
      show ?thesis
      proof (cases rule: sendUpdate_cases [OF 2(2)])
        case (1 req)
        then show ?thesis using 2(3) cs ok id(3) by auto
      next
        case 2
        then show ?thesis using \<open>st' = _\<close> cs ok by (auto simp: reclaim_def)
      next
        case (3 req req')
        have "checkForUnsafeChange fs img req (st1\<lparr>status := StatusComputingUpdate\<rparr>) = checkForUnsafeChange fs img req st"
          using id(1) by (intro checkForUnsafeChange_mdb) simp
        then have "allowedUpdate env failOnReboot st fs req'"
          using 3(6-10) im id(1) ps by (auto simp: allowedUpdate_def forced_same)
        then have "allowedCall env failOnReboot st (UpdateCall req')" using assms(2) by (auto simp: allowedCall_def)
        then show ?thesis using 3(1,3) 2(3) cs ok by (auto simp: reclaim_def)
      qed
    qed
  qed
  then show "\<exists>cs. calls st' = calls st @ cs \<and> list_all (allowedCall env failOnReboot st) cs"
    and "go \<Longrightarrow> plannedImage st' = plannedImage st" by blast+
qed

lemma pollWork_calls:
  assumes "pollWork env ans prev reply fast failOnReboot st = Inr st'"
  shows "\<exists>cs. calls st' = calls st @ cs \<and> list_all (allowedCall env failOnReboot st) cs"
proof (cases "fileSystem st")
  case None
  then have "st' = st\<lparr>status := prev\<rparr>" using assms by (simp add: pollWork_def)
  then show ?thesis by simp
next
  case (Some fs)
  then obtain go u where u: "workRequired env ans reply fast failOnReboot fs st = Inr (go, u)"
    and rest: "(if \<not> go then Inr u else bindP (workPlanned ans reply fast fs u) (\<lambda>(go, st).
        if \<not> go then Inr st
        else (let st = (if prev = StatusWaitingForNextFullPoll \<and> lastUpdateTime st \<noteq> 0
                        then st\<lparr>lastSyncTime := pollClock env\<rparr> else st)
              in Inr (reclaim (cleanup fs (st\<lparr>status := StatusSynced\<rparr>)))))) = Inr st'"
    using assms by (auto simp: pollWork_def)
  obtain cs where cs: "calls u = calls st @ cs" "list_all (allowedCall env failOnReboot st) cs"
    using workRequired_calls(1) [OF u Some] by blast
  show ?thesis
  proof (cases go)
    case False
    then show ?thesis using rest cs by auto
  next
    case True
    then obtain go' v where v: "workPlanned ans reply fast fs u = Inr (go', v)" using rest by auto
    have "\<exists>cs. calls v = calls u @ cs \<and> objectCalls cs \<and> (go' \<longrightarrow> plannedImage v = plannedImage u)"
    proof (cases "map_option fst (plannedImage u) = map_option fst (requiredImage u)")
      case True
      then show ?thesis using v by (simp add: workPlanned_def objectCalls_def)
    next
      case False
      then obtain idle stat w where w: "fetchMissingObjects ans fs (map_option snd (plannedImage u)) (reply_FreeSpace reply)
          False fast u = Inr (idle, stat, w)" "v \<in> {w, reclaim (w\<lparr>status := stat\<rparr>)}"
        using v by (auto simp: workPlanned_def split: if_splits)
      then show ?thesis using fetchMissingObjects_keeps [OF w(1)] identityOf_fields(3) [of w u] by (auto simp: reclaim_def)
    qed
    then obtain cs' where cs': "calls v = calls u @ cs'" "list_all (allowedCall env failOnReboot st) cs'"
      "go' \<longrightarrow> plannedImage v = plannedImage u"
      by (auto simp: objectCalls_def list_all_iff allowedCall_def)
    have "allowedCall env failOnReboot st (CleanupCall (map fst (unusedObjects fs (map_option snd (plannedImage st)) cache)))"
      for cache using Some by (auto simp: allowedCall_def allowedCleanup_def)
    moreover have "go' \<Longrightarrow> plannedImage v = plannedImage st" using cs'(3) workRequired_calls(2) [OF u Some] True by simp
    ultimately show ?thesis using rest True v cs cs'
      by (auto simp: cleanup_def reclaim_def called_def Let_def split: if_splits)
  qed
qed

section \<open>A synced sub complies\<close>

lemma fetchMissingObjects_not_idle:
  assumes "fetchMissingObjects ans fs img free req fast st = Inr (False, stat, st')"
  shows "stat \<noteq> StatusSynced"
proof (cases img)
  case (Some im)
  then obtain lists where lists: "buildMissingLists (subObject fs st) (Some im) None req False = Inr lists"
    using assms by (auto simp: fetchMissingObjects_def)
  show ?thesis using assms unfolding fetchMissingObjects_def Some option.case lists
    by (auto simp: Let_def split: option.splits prod.splits bool.splits call_error.splits push_error.splits if_splits)
qed (use assms in \<open>auto simp: fetchMissingObjects_def\<close>)

lemma pollWork_synced:
  assumes "pollWork env ans prev reply fast failOnReboot st = Inr st'" "status st' = StatusSynced"
    and "requiredImage st = Some (i, img)"
  shows "fileSystem st = None \<and> prev = StatusSynced
    \<or> (\<exists>fs stat st1 stat' st2. fileSystem st = Some fs
        \<and> fetchMissingObjects ans fs (Some img) (reply_FreeSpace reply) True fast st = Inr (True, stat, st1)
        \<and> sendUpdate env ans fs img failOnReboot (st1\<lparr>status := StatusComputingUpdate\<rparr>) = Inr (True, stat', st2))"
proof (cases "fileSystem st")
  case None
  then have "st' = st\<lparr>status := prev\<rparr>" using assms(1) by (simp add: pollWork_def)
  then show ?thesis using None assms(2) by simp
next
  case (Some fs)
  then obtain go u where u: "workRequired env ans reply fast failOnReboot fs st = Inr (go, u)" and rest: "\<not> go \<Longrightarrow> st' = u"
    using assms(1) by (auto simp: pollWork_def split: if_splits)
  show ?thesis
  proof (cases rule: workRequired_cases [OF u assms(3)])
    case (1 stat st1)
    then show ?thesis using rest assms(2) fetchMissingObjects_not_idle [OF 1(2)] by (simp add: reclaim_def)
  next
    case (2 stat st1 stat' st2)
    show ?thesis
    proof (cases go)
      case True
      then show ?thesis using 2(1,2) Some by auto
    next
      case False
      then have "stat' = StatusSynced" using 2 rest assms(2) by (simp add: reclaim_def)
      then show ?thesis using False by (cases rule: sendUpdate_cases [OF 2(2)]) auto
    qed
  qed
qed

text \<open>
  C2. A sub is declared synced only if it complies with its required image: when a poll ends
  so, then either there was nothing to look at and it was synced before, or the file system
  the poll worked with has the metadata, the entries and the hard links of the image in
  every directory the filter does not hide, every object was available, and, unless the
  image is sparse, the last successful update of the sub was to this image. This holds for
  images whose table agrees with their tree and whose computed files have one name each.
\<close>

theorem synced_sub_complies:
  assumes "poll env ans prev fast failOnReboot st = Inr (retry, st')"
    and "status st = StatusPolling" and "status st' = StatusSynced"
    and "requiredImage st = Some (i, img)"
    and "consistentFS (img_FileSystem img)" and "singleNamedComputed (img_FileSystem img)"
  shows "\<exists>r reply. PollCall r \<in> set (calls st') \<and> answerPoll ans r = Inr reply
    \<and> (case polledFileSystem env reply st of
         None \<Rightarrow> prev = StatusSynced
       | Some fs \<Rightarrow>
           (img_Filter img \<noteq> None \<longrightarrow> reply_LastSuccessfulImageName reply = requiredImageName st)
           \<and> compareDirectoriesMetadata (fs_root fs) (fs_root (img_FileSystem img))
           \<and> (\<exists>links. inj_on links (dom links)
               \<and> treeComplies links (sub_ComputedInodes (subObject fs st))
                   (buildEnv (pollClock env div 10 ^ 9) (subObject fs st) img False False)
                   (Some (fs_root fs)) (fs_root (img_FileSystem img)) ''/''))"
proof (cases rule: poll_cases [OF assms(1)])
  case (1 cs)
  then show ?thesis using assms(2,3) by simp
next
  case (2 r reply prev' st1 cs)
  have ri: "requiredImage st1 = Some (i, img)" "requiredImageName st1 = requiredImageName st"
    "computedInodes st1 = computedInodes st" using 2(5) assms(4) by (simp_all add: subView_def)
  have pc: "PollCall r \<in> set (calls st')" using pollWork_calls [OF 2(4)] 2(2) by auto
  show ?thesis
  proof (cases "polledFileSystem env reply st")
    case None
    then have "prev' = StatusSynced" using pollWork_synced [OF 2(4) assms(3) ri(1)] 2(6) by simp
    then show ?thesis using 2(1,8) pc None by auto
  next
    case (Some fs)
    then obtain stat st2 stat' st3 where
      f: "fetchMissingObjects ans fs (Some img) (reply_FreeSpace reply) True fast st1 = Inr (True, stat, st2)"
      and s: "sendUpdate env ans fs img failOnReboot (st2\<lparr>status := StatusComputingUpdate\<rparr>) = Inr (True, stat', st3)"
      using pollWork_synced [OF 2(4) assms(3) ri(1)] 2(6) by auto
    let ?st2 = "st2\<lparr>status := StatusComputingUpdate\<rparr>"
    note id = identityOf_fields [OF conjunct1 [OF fetchMissingObjects_keeps [OF f]]]
    have sub: "sub_FileSystem (subObject fs u) = fs" for u :: "'a herd_sub" by (simp add: subObject_def)
    have comp: "sub_ComputedInodes (subObject fs ?st2) = sub_ComputedInodes (subObject fs st)"
      using id(5) ri(3) by (simp add: subObject_def)
    have env: "buildEnv n (subObject fs ?st2) img False False = buildEnv n (subObject fs st) img False False" for n
      by (simp add: buildEnv_def sub)
    have ml: "buildMissingLists (subObject fs ?st2) (Some img) None True False = Inr (Some ([], []))"
      using fetchMissingObjects_idle [OF f] by (simp add: subObject_def)
    note tol = missing_lists_tolerant [OF ml assms(5,6), of "pollClock env div 10 ^ 9" False False]
    show ?thesis
    proof (cases rule: sendUpdate_cases [OF s])
      case (1 req)
      have name: "img_Filter img \<noteq> None \<longrightarrow> reply_LastSuccessfulImageName reply = requiredImageName st"
        using 1(5) id(4,7) ri(2) 2(7) by simp
      note c = inactive_complies [OF 1(3,4) tol, unfolded comp env sub]
      show ?thesis using name c 2(1) pc Some by (intro exI [of _ r] exI [of _ reply]) simp
    qed auto
  qed
qed

section \<open>Updates and cleanups that are sent\<close>

lemma checkImpact_reboot: "snd (checkImpact ts) \<longleftrightarrow> list_ex DoReboot ts"
proof -
  have "snd (foldl (\<lambda>(h, r) t. (h \<or> HighImpact t, r \<or> DoReboot t)) hr ts) \<longleftrightarrow> snd hr \<or> list_ex DoReboot ts" for hr
    by (induction ts arbitrary: hr) (auto simp: split_beta)
  then show ?thesis by (simp add: checkImpact_def)
qed

lemma poll_call_allowed:
  assumes "poll env ans prev fast failOnReboot st = Inr (retry, st')" "calls st = []" "c \<in> set (calls st')"
  obtains (plain) "(\<exists>r. c = PollCall r) \<or> configCalls [c] \<or> objectCalls [c]"
    | (update) r reply fs req where "answerPoll ans r = Inr reply" "polledFileSystem env reply st = Some fs"
        "c = UpdateCall req" "allowedUpdate env failOnReboot st fs req"
    | (cleanup) r reply fs hashes where "answerPoll ans r = Inr reply" "polledFileSystem env reply st = Some fs"
        "c = CleanupCall hashes" "allowedCleanup st fs hashes"
proof (cases rule: poll_cases [OF assms(1)])
  case (1 cs)
  then show ?thesis using plain assms(2,3) by auto
next
  case (2 r reply prev' st1 cs)
  obtain cs' where cs': "calls st' = calls st1 @ cs'" "list_all (allowedCall env failOnReboot st1) cs'"
    using pollWork_calls [OF 2(4)] by blast
  have view: "mdb st1 = mdb st" "requiredImage st1 = requiredImage st" "plannedImage st1 = plannedImage st"
    "pendingSafetyClear st1 = pendingSafetyClear st" using 2(5) by (simp_all add: subView_def)
  have same: "allowedUpdate env failOnReboot st1 fs req = allowedUpdate env failOnReboot st fs req"
    "allowedCleanup st1 fs hs = allowedCleanup st fs hs" for fs req hs
    using view by (simp_all add: allowedUpdate_def allowedCleanup_def checkForUnsafeChange_def)
  consider "c = PollCall r \<or> c \<in> set cs" | "allowedCall env failOnReboot st1 c"
    using assms(2,3) cs' 2(2) by (auto simp: list_all_iff)
  then show ?thesis
  proof cases
    case 1
    then show ?thesis using plain 2(3) by (auto simp: configCalls_def list_all_iff)
  next
    case c: 2
    then show ?thesis unfolding allowedCall_def same 2(6)
      using plain update [OF 2(1)] cleanup [OF 2(1)] by blast
  qed
qed

text \<open>
  C4. An update is sent only if it is allowed and safe: updates are not disabled, neither for
  the sub nor for the herd; unless an administrator cleared the safety shutoff, the image
  is sparse or the sub is tagged as needing no check, it deletes at most half as many paths
  as the sub has inodes and the image is not smaller than half of the sub; and if a reboot
  is to be avoided, no trigger predicted for the update reboots.
\<close>

theorem unsafe_update_never_sent:
  assumes "poll env ans prev fast failOnReboot st = Inr (retry, st')" and "calls st = []"
    and "UpdateCall req \<in> set (calls st')"
  shows "\<not> DisableUpdates (mdb st) \<and> updatesDisabledReason env = ''''
    \<and> (\<exists>r reply fs i img. answerPoll ans r = Inr reply \<and> polledFileSystem env reply st = Some fs
        \<and> requiredImage st = Some (i, img)
        \<and> (pendingSafetyClear st \<or> img_Filter img = None \<or> Tags (mdb st) ''DisableSafetyCheck'' \<noteq> None
           \<or> length (PathsToDelete req) \<le> length (InodeTable fs) div 2
             \<and> length (InodeTable fs) div 2 \<le> length (InodeTable (img_FileSystem img))))
    \<and> (failOnReboot \<longrightarrow>
        (\<exists>ts. matchTriggersInUpdate (he_compile env) (he_match env) req = Inr ts \<and> list_all (\<lambda>t. \<not> DoReboot t) ts))"
proof (cases rule: poll_call_allowed [OF assms])
  case 1
  then show ?thesis by (simp add: configCalls_def objectCalls_def)
next
  case (2 r reply fs req')
  then have *: "allowedUpdate env failOnReboot st fs req" by simp
  then obtain i img where img: "requiredImage st = Some (i, img)"
    "pendingSafetyClear st \<or> \<not> checkForUnsafeChange fs img req st" by (auto simp: allowedUpdate_def)
  have "pendingSafetyClear st \<or> img_Filter img = None \<or> Tags (mdb st) ''DisableSafetyCheck'' \<noteq> None
      \<or> length (PathsToDelete req) \<le> length (InodeTable fs) div 2
        \<and> length (InodeTable fs) div 2 \<le> length (InodeTable (img_FileSystem img))"
    using img(2) by (auto simp: checkForUnsafeChange_def split: if_splits)
  then show ?thesis using * 2(1,2) img(1)
    by (auto simp: allowedUpdate_def checkImpact_reboot list_all_iff list_ex_iff)
qed simp

lemma markUsed_fold:
  "map_of (foldl markUsed unused t) h =
     (if h \<in> tableObjects t \<and> map_of unused h \<noteq> None then Some True else map_of unused h)"
proof (induction t arbitrary: unused)
  case (Cons e t)
  obtain i ino where e: "e = (i, ino)" by (cases e)
  show ?case
  proof (cases "\<exists>r. ino = Some (RegularInode r)")
    case True
    then obtain r where "ino = Some (RegularInode r)" by auto
    then show ?thesis using Cons.IH by (auto simp: e tableObjects_Cons map_of_putTable)
  next
    case False
    then have "markUsed unused e = unused" unfolding e by (cases ino; cases "the ino") auto
    moreover have "tableObjects (e # t) = tableObjects t"
      using False unfolding e by (auto simp: tableObjects_Cons split: option.splits generic_inode.splits)
    ultimately show ?thesis using Cons.IH by simp
  qed
qed (simp add: tableObjects_def)

lemma keepPlanned_fold:
  "map_of (foldl keepPlanned unused t) h =
     (if h \<in> tableObjects t \<and> map_of unused h = Some False then None else map_of unused h)"
proof (induction t arbitrary: unused)
  case (Cons e t)
  obtain i ino where e: "e = (i, ino)" by (cases e)
  show ?case
  proof (cases "\<exists>r. ino = Some (RegularInode r)")
    case True
    then obtain r where "ino = Some (RegularInode r)" by auto
    then show ?thesis using Cons.IH by (auto simp: e tableObjects_Cons map_of_deleteKey)
  next
    case False
    then have "keepPlanned unused e = unused" unfolding e by (cases ino; cases "the ino") auto
    moreover have "tableObjects (e # t) = tableObjects t"
      using False unfolding e by (auto simp: tableObjects_Cons split: option.splits generic_inode.splits)
    ultimately show ?thesis using Cons.IH by simp
  qed
qed (simp add: tableObjects_def)

lemma unusedObjects_keys:
  "set (map fst (unusedObjects fs planned cache)) =
     set cache - ((case planned of None \<Rightarrow> {} | Some img \<Rightarrow> objectsOf (img_FileSystem img)) - objectsOf fs)"
proof -
  have "map_of (foldl (\<lambda>t h. putTable h False t) u cache) h = (if h \<in> set cache then Some False else map_of u h)"
    for u :: "(hash \<times> bool) list" and h by (induction cache arbitrary: u) (auto simp: map_of_putTable)
  then have start: "map_of (foldl (\<lambda>t h. putTable h False t) [] cache) h = (if h \<in> set cache then Some False else None)"
    for h by simp
  have "h \<in> set (map fst (unusedObjects fs planned cache)) \<longleftrightarrow> h \<in> set cache
      \<and> (h \<in> (case planned of None \<Rightarrow> {} | Some img \<Rightarrow> objectsOf (img_FileSystem img)) \<longrightarrow> h \<in> objectsOf fs)" for h
    unfolding set_map map_of_eq_None_iff [symmetric, THEN arg_cong [of _ _ Not], unfolded not_not]
    by (cases planned) (auto simp: unusedObjects_def keepPlanned_fold markUsed_fold start objectsOf_def Let_def)
  then show ?thesis by blast
qed

text \<open>
  C17. Cleaning up removes everything from the object cache of the sub but what the planned
  image still needs: an object is removed only if the planned image does not use it or a
  file of the sub has it anyway.
\<close>

theorem cleanup_keeps_planned_objects:
  assumes "poll env ans prev fast failOnReboot st = Inr (retry, st')" and "calls st = []"
    and "CleanupCall hashes \<in> set (calls st')" and "h \<in> set hashes"
    and "plannedImage st = Some (i, img)" and "h \<in> objectsOf (img_FileSystem img)"
  shows "\<exists>r reply fs. answerPoll ans r = Inr reply \<and> polledFileSystem env reply st = Some fs \<and> h \<in> objectsOf fs"
proof (cases rule: poll_call_allowed [OF assms(1-3)])
  case 1
  then show ?thesis by (simp add: configCalls_def objectCalls_def)
next
  case (3 r reply fs hashes')
  then have "h \<in> objectsOf fs" using assms(4-6) unusedObjects_keys [of fs "Some img"]
    by (auto simp: allowedCleanup_def)
  then show ?thesis using 3(1,2) by blast
qed simp

section \<open>A poll does not panic\<close>

lemma sendUpdate_no_panic:
  assumes "buildMissingLists (subObject fs st) (Some img) None True False = Inr (Some ([], []))"
    and "consistentFS fs" "consistentFS (img_FileSystem img)" "singleNamedComputed (img_FileSystem img)"
  shows "\<exists>r. sendUpdate env ans fs img False st = Inr r"
proof -
  have "consistentFS (sub_FileSystem (subObject fs st))" using assms(2) by (simp add: subObject_def)
  from supplied_no_panic [OF assms(1) this assms(3,4), of "pollClock env div 10 ^ 9"
      "emptyRequest\<lparr>ImageName := requiredImageName st, request_Triggers := img_Triggers img\<rparr>" False False]
  obtain missing req where "buildUpdateRequest (pollClock env div 10 ^ 9) (subObject fs st) img
      (emptyRequest\<lparr>ImageName := requiredImageName st, request_Triggers := img_Triggers img\<rparr>) False False
    = Inr (missing, req)" by blast
  note eq = subBuildUpdateRequest_eq [OF this]
  have "\<not> isl (sendUpdate env ans fs img False st)" unfolding sendUpdate_def eq
    by (simp add: Let_def split: option.split call_error.split)
  then show ?thesis by (cases "sendUpdate env ans fs img False st") auto
qed

lemma receiveReply_no_panic:
  assumes "\<And>fs. reply_FileSystem reply = Some fs \<Longrightarrow> \<exists>res. rebuildInodePointers (\<lambda>_ _. False) (stackDepth env) fs = Some res"
  shows "\<exists>received. receiveReply env reply st = Inr received"
proof (cases "reply_FileSystem reply")
  case (Some fs)
  then obtain res where "rebuildInodePointers (\<lambda>_ _. False) (stackDepth env) fs = Some res" using assms by blast
  then show ?thesis using Some by (cases res) (simp_all add: receiveReply_def Let_def)
qed (simp add: receiveReply_def Let_def)

lemma polledFileSystem_consistent:
  assumes "\<forall>r reply fs. answerPoll ans r = Inr reply \<longrightarrow> reply_FileSystem reply = Some fs \<longrightarrow>
      (\<exists>res. rebuildInodePointers (\<lambda>_ _. False) (stackDepth env) fs = Some res
        \<and> (case res of Inl _ \<Rightarrow> True | Inr fs' \<Rightarrow> consistentFS fs'))"
    and "answerPoll ans r = Inr reply" and "\<forall>fs. fileSystem st = Some fs \<longrightarrow> consistentFS fs"
    and "polledFileSystem env reply st = Some fs"
  shows "consistentFS fs"
proof (cases "reply_FileSystem reply")
  case None
  then show ?thesis using assms(3,4) by (simp add: polledFileSystem_def split: if_splits)
next
  case (Some fs0)
  then obtain res where "rebuildInodePointers (\<lambda>_ _. False) (stackDepth env) fs0 = Some res"
    "case res of Inl _ \<Rightarrow> True | Inr fs' \<Rightarrow> consistentFS fs'" using assms(1,2) by blast
  then show ?thesis using Some assms(4) by (cases res) (simp_all add: polledFileSystem_def)
qed

lemma pollWork_no_panic:
  assumes "\<And>fs. fileSystem st = Some fs \<Longrightarrow> consistentFS fs"
    and "\<And>i img. requiredImage st = Some (i, img) \<Longrightarrow>
      consistentFS (img_FileSystem img) \<and> singleNamedComputed (img_FileSystem img)"
  shows "\<exists>st'. pollWork env ans prev reply fast False st = Inr st'"
proof (cases "fileSystem st")
  case (Some fs)
  have "\<exists>r. workRequired env ans reply fast False fs st = Inr r"
  proof (cases "requiredImage st")
    case im: (Some im)
    obtain i img where img: "requiredImage st = Some (i, img)" using im by (cases im) auto
    note ok = assms(2) [OF img]
    have "\<exists>r. fetchMissingObjects ans fs (Some img) (reply_FreeSpace reply) True fast st = Inr r"
      by (rule fetchMissingObjects_no_panic) (simp add: ok)
    then obtain idle stat v where v: "fetchMissingObjects ans fs (Some img) (reply_FreeSpace reply) True fast st = Inr (idle, stat, v)"
      by (metis prod_cases3)
    show ?thesis
    proof (cases idle)
      case True
      let ?v = "v\<lparr>status := StatusComputingUpdate\<rparr>"
      have "buildMissingLists (subObject fs ?v) (Some img) None True False = Inr (Some ([], []))"
        using fetchMissingObjects_idle [of ans fs img _ fast st stat v] True v by (simp add: subObject_def)
      from sendUpdate_no_panic [OF this assms(1) [OF Some]] ok
      obtain idle' stat' w where "sendUpdate env ans fs img False ?v = Inr (idle', stat', w)" by (metis prod_cases3)
      then show ?thesis using v True img by (auto simp: workRequired_def)
    next
      case False
      then show ?thesis using v img by (auto simp: workRequired_def)
    qed
  qed (auto simp: workRequired_def)
  then obtain go u where u: "workRequired env ans reply fast False fs st = Inr (go, u)" by (metis prod.collapse)
  have "\<exists>r. fetchMissingObjects ans fs (map_option snd (plannedImage u)) (reply_FreeSpace reply) False fast u = Inr r"
    by (rule fetchMissingObjects_no_panic) (simp split: option.split)
  then obtain idle stat v where "fetchMissingObjects ans fs (map_option snd (plannedImage u)) (reply_FreeSpace reply) False fast u
      = Inr (idle, stat, v)" by (metis prod_cases3)
  then have "\<exists>r. workPlanned ans reply fast fs u = Inr r" by (auto simp: workPlanned_def)
  then obtain go' w where "workPlanned ans reply fast fs u = Inr (go', w)" by (metis prod.collapse)
  then show ?thesis using Some u by (simp add: pollWork_def Let_def)
qed (simp add: pollWork_def)

section \<open>Examples\<close>

definition exampleMachine :: machine where
  "exampleMachine = \<lparr>Hostname = ''h'', DataSourceIdentifier = '''', DataSourceType = '''', IpAddress = '''',
     Location = '''', RequiredImage = ''img'', PlannedImage = '''', DisableUpdates = False, OwnerGroup = '''',
     OwnerGroups = [], OwnerUsers = [], Tags = Map.empty, AwsMetadata = None\<rparr>"

definition exampleConfiguration :: sub_configuration where
  "exampleConfiguration = \<lparr>CpuPercent = 50, conf_OwnerGroups = [], conf_OwnerUsers = [], NetworkSpeedPercent = 10,
     ScanSpeedPercent = 2, ScanExclusionList = []\<rparr>"

definition exampleReply :: poll_reply where
  "exampleReply = \<lparr>reply_CurrentConfiguration = exampleConfiguration, reply_FetchInProgress = False,
     reply_UpdateInProgress = False, reply_LastFetchError = '''', reply_LastNote = '''',
     reply_LastSuccessfulImageName = ''img'', reply_LastUpdateError = '''', reply_LastWriteError = '''',
     reply_LockedByAnotherClient = False, reply_FreeSpace = None, reply_StartTime = 1, reply_ScanCount = 1,
     reply_GenerationCount = 1, reply_DisruptionState = DisruptionStateAnytime, reply_FileSystem = None,
     reply_ObjectCache = []\<rparr>"

definition exampleAnswers :: "unit sub_answers" where
  "exampleAnswers = \<lparr>answerPoll = (\<lambda>_. Inr exampleReply), answerFetch = (\<lambda>_. None), answerPush = (\<lambda>_. None),
     answerUpdate = (\<lambda>_. None), cancelPending = False\<rparr>"

definition exampleHerd :: "unit herd_env" where
  "exampleHerd = \<lparr>updatesDisabledReason = '''', configurationForSubs = exampleConfiguration,
     updateConfigurationsForSubs = True, he_compile = (\<lambda>_. None), he_match = (\<lambda>_ _. False), stackDepth = 5, pollClock = 1\<rparr>"

text \<open>A sub whose file system is still at hand, with an object in its cache.\<close>

definition polledSub :: "file_system \<Rightarrow> hash list \<Rightarrow> unit herd_sub" where
  "polledSub fs cache = \<lparr>mdb = exampleMachine, requiredImageName = ''img'', requiredImage = Some (1, exampleRequired),
     plannedImageName = '''', plannedImage = None, computedInodes = None, busy = True, deleting = False,
     havePlannedImage = False, startTime = 1, fileSystem = Some fs, objectCache = cache, generationCount = 1,
     freeSpaceThreshold = None, computedFilesChangeTime = 0, scanCountAtLastUpdateEnd = 0, isInsecure = False,
     status = StatusPolling, publishedStatus = StatusPolling, pendingForceDisruptiveUpdate = False,
     pendingSafetyClear = False, lastDisruptionState = DisruptionStateAnytime, lastPollWasFull = True,
     lastUpdateTime = 0, lastSyncTime = 0, lastSuccessfulImageName = ''img'', lastNote = '''', lastWriteError = '''',
     calls = []\<rparr>"

lemmas evaluate_poll =
  poll_def makePollRequest_def forceFullPoll_def haveImage_def called_def receiveReply_def reclaim_def
  updateConfiguration_def compareConfigs_def checkReply_def checkSubState_def checkProgress_def pollWork_def
  workRequired_def workPlanned_def fetchMissingObjects_def sendUpdate_def subBuildUpdateRequest_def subObject_def
  cleanup_def unusedObjects_def buildMissingLists_def updateMissingLists_def deletePresent_def deleteKey_def
  checkForUnsafeChange_def
  polledSub_def exampleHerd_def exampleAnswers_def exampleReply_def exampleMachine_def exampleConfiguration_def

lemma syncedPoll:
  "\<exists>st'. poll exampleHerd exampleAnswers StatusWaitingToPoll False False
       (polledSub (img_FileSystem exampleRequired) []) = Inr (False, st') \<and> status st' = StatusSynced"
  by (simp add: evaluate_poll evaluate_build exampleRequired_def exampleFile_def emptyRequest_def
      compareEntries_def compareInodes_def compareRegularInodesMetadata_def compareRegularInodesData_def relink_def)

lemma exampleRequired_consistent:
  "consistentFS (img_FileSystem exampleRequired)" "singleNamedComputed (img_FileSystem exampleRequired)"
  by (simp_all add: consistentFS_def singleNamedComputed_def pathsOf_def filenamesOf_def exampleRequired_def)

definition emptyFS :: file_system where
  "emptyFS = \<lparr>InodeTable = [], NumRegularInodes = 0, TotalDataBytes = 0, DirectoryCount = 1, fs_root = Directory [] 0 0 0\<rparr>"

lemma updatePoll:
  "\<exists>req st'. poll exampleHerd exampleAnswers StatusWaitingToPoll False False (polledSub emptyFS [[7]]) = Inr (False, st')
     \<and> UpdateCall req \<in> set (calls st')"
  by (simp add: evaluate_poll evaluate_build emptyFS_def exampleRequired_def exampleFile_def emptyRequest_def)

lemma cleanupPoll:
  "\<exists>st'. poll exampleHerd exampleAnswers StatusWaitingToPoll False False
       (polledSub (img_FileSystem exampleRequired) [[7]]\<lparr>plannedImage := Some (1, exampleRequired)\<rparr>) = Inr (False, st')
     \<and> CleanupCall [[7]] \<in> set (calls st')"
  by (simp add: evaluate_poll evaluate_build exampleRequired_def exampleFile_def emptyRequest_def
      compareEntries_def compareInodes_def compareRegularInodesMetadata_def compareRegularInodesData_def relink_def ex_bool_eq)

theorem synced_sub_complies_witness:
  "\<exists>links. inj_on links (dom links)
     \<and> treeComplies links Map.empty
         (buildEnv 0 (subObject (img_FileSystem exampleRequired) (polledSub (img_FileSystem exampleRequired) []))
            exampleRequired False False)
         (Some (fs_root (img_FileSystem exampleRequired))) (fs_root (img_FileSystem exampleRequired)) ''/''"
proof -
  let ?fs = "img_FileSystem exampleRequired"
  obtain st' where st': "poll exampleHerd exampleAnswers StatusWaitingToPoll False False (polledSub ?fs []) = Inr (False, st')"
    "status st' = StatusSynced" using syncedPoll by blast
  have pre: "status (polledSub ?fs []) = StatusPolling" "requiredImage (polledSub ?fs []) = Some (1, exampleRequired)"
    by (simp_all add: polledSub_def)
  have fs: "polledFileSystem exampleHerd exampleReply (polledSub ?fs []) = Some ?fs"
    "\<And>r reply. answerPoll exampleAnswers r = Inr reply \<longleftrightarrow> reply = exampleReply"
    "sub_ComputedInodes (subObject ?fs (polledSub ?fs [])) = Map.empty" "pollClock exampleHerd div 1000000000 = 0"
    by (auto simp: polledFileSystem_def exampleReply_def polledSub_def exampleAnswers_def subObject_def exampleHerd_def)
  from synced_sub_complies [OF st'(1) pre(1) st'(2) pre(2) exampleRequired_consistent] show ?thesis
    by (auto simp: fs)
qed

theorem unsafe_update_never_sent_witness:
  "\<exists>req st'. poll exampleHerd exampleAnswers StatusWaitingToPoll False False (polledSub emptyFS [[7]]) = Inr (False, st')
     \<and> UpdateCall req \<in> set (calls st') \<and> length (PathsToDelete req) \<le> length (InodeTable emptyFS) div 2"
proof -
  obtain req st' where st': "poll exampleHerd exampleAnswers StatusWaitingToPoll False False (polledSub emptyFS [[7]]) = Inr (False, st')"
    "UpdateCall req \<in> set (calls st')" using updatePoll by blast
  have pre: "calls (polledSub emptyFS [[7]]) = []" by (simp add: polledSub_def)
  from unsafe_update_never_sent [OF st'(1) pre st'(2)]
  have "length (PathsToDelete req) \<le> length (InodeTable emptyFS) div 2"
    by (auto simp: polledSub_def exampleMachine_def exampleRequired_def exampleAnswers_def exampleReply_def polledFileSystem_def)
  with st' show ?thesis by blast
qed

theorem cleanup_keeps_planned_objects_witness:
  "[7] \<in> objectsOf (img_FileSystem exampleRequired)
   \<and> (\<exists>r reply fs. answerPoll exampleAnswers r = Inr reply
        \<and> polledFileSystem exampleHerd reply (polledSub (img_FileSystem exampleRequired) [[7]]\<lparr>plannedImage := Some (1, exampleRequired)\<rparr>) = Some fs
        \<and> [7] \<in> objectsOf fs)"
proof -
  let ?st = "polledSub (img_FileSystem exampleRequired) [[7]]\<lparr>plannedImage := Some (1, exampleRequired)\<rparr>"
  obtain st' where st': "poll exampleHerd exampleAnswers StatusWaitingToPoll False False ?st = Inr (False, st')"
    "CleanupCall [[7]] \<in> set (calls st')" using cleanupPoll by blast
  have pre: "calls ?st = []" "[7] \<in> set [[7]]" "plannedImage ?st = Some (1, exampleRequired)"
    by (simp_all add: polledSub_def)
  have "[7] \<in> objectsOf (img_FileSystem exampleRequired)"
    by (auto simp: objectsOf_def tableObjects_def exampleRequired_def exampleFile_def)
  with cleanup_keeps_planned_objects [OF st'(1) pre(1) st'(2) pre(2,3)] show ?thesis by blast
qed


end
