(* ===== verification/Linked_Lists.thy ===== *)
theory Linked_Lists
  imports Dom_Prelude
begin

text \<open>
  Doubly linked lists of objects, as several components keep them: two links in every object
  and two ends. \<open>linked\<close> says which list of references the links make up; the locale
  \<open>linked_store\<close> is the contract of adding at one end and removing anywhere, under which
  a sequence of operations refines the operations on lists.
\<close>

type_synonym ref = nat

section \<open>Links\<close>

fun chain :: "('r \<Rightarrow> 'r option) \<Rightarrow> 'r option \<Rightarrow> 'r list \<Rightarrow> bool" where
  "chain link p [] \<longleftrightarrow> p = None"
| "chain link p (r # rs) \<longleftrightarrow> p = Some r \<and> chain link (link r) rs"

definition linked :: "('r \<Rightarrow> 'r option) \<Rightarrow> ('r \<Rightarrow> 'r option) \<Rightarrow> 'r option \<Rightarrow> 'r option \<Rightarrow> 'r list \<Rightarrow> bool" where
  "linked nxt prv f l rs \<longleftrightarrow> distinct rs \<and> chain nxt f rs \<and> chain prv l (rev rs)"

lemma chain_unique: "chain link p rs \<Longrightarrow> chain link p rs' \<Longrightarrow> rs = rs'"
proof (induction rs arbitrary: p rs')
  case Nil
  then show ?case by (cases rs') auto
next
  case (Cons r rs)
  then show ?case by (cases rs') auto
qed

lemma chain_cong: "chain link p rs \<Longrightarrow> (\<And>r. r \<in> set rs \<Longrightarrow> link' r = link r) \<Longrightarrow> chain link' p rs"
  by (induction rs arbitrary: p) auto

text \<open>The link of an object in the middle, and the chain around it.\<close>

lemma chain_append_Cons:
  "chain link p (xs @ r # ys) \<Longrightarrow> chain link (link r) ys"
  by (induction xs arbitrary: p) auto

lemma chain_relink:
  assumes "chain link p (xs @ r # ys)" and "distinct (xs @ r # ys)" and "chain link' q ys"
    and "\<And>x. x \<in> set (butlast xs) \<Longrightarrow> link' x = link x"
    and "xs \<noteq> [] \<Longrightarrow> link' (last xs) = q"
  shows "chain link' (if xs = [] then q else p) (xs @ ys)"
  using assms
proof (induction xs arbitrary: p)
  case (Cons x xs)
  show ?case
  proof (cases "xs = []")
    case False
    with Cons show ?thesis by auto
  qed (use Cons.prems in auto)
qed auto

lemma linked_unique: "linked nxt prv f l rs \<Longrightarrow> linked nxt prv f l rs' \<Longrightarrow> rs = rs'"
  unfolding linked_def using chain_unique by metis

lemma linked_cong:
  "linked nxt prv f l rs \<Longrightarrow> (\<And>r. r \<in> set rs \<Longrightarrow> nxt' r = nxt r) \<Longrightarrow> (\<And>r. r \<in> set rs \<Longrightarrow> prv' r = prv r)
   \<Longrightarrow> linked nxt' prv' f l rs"
  unfolding linked_def using chain_cong by (metis set_rev)

lemma linked_rev: "linked nxt prv f l rs \<Longrightarrow> linked prv nxt l f (rev rs)"
  by (simp add: linked_def)

lemma linked_Nil [simp]: "linked nxt prv f l [] \<longleftrightarrow> f = None \<and> l = None"
  by (simp add: linked_def)

lemma linked_first: "linked nxt prv f l rs \<Longrightarrow> f = (if rs = [] then None else Some (hd rs))"
  by (cases rs) (auto simp: linked_def)

lemma linked_last: "linked nxt prv f l rs \<Longrightarrow> l = (if rs = [] then None else Some (last rs))"
  using linked_first [OF linked_rev] by (fastforce simp: hd_rev)

lemma chain_link:
  "chain link p (xs @ r # ys) \<Longrightarrow> link r = (if ys = [] then None else Some (hd ys))"
  by (induction xs arbitrary: p) (cases ys, auto)+

text \<open>The links of an object: to the neighbours.\<close>

lemma linked_neighbours:
  assumes "linked nxt prv f l (xs @ r # ys)"
  shows "nxt r = (if ys = [] then None else Some (hd ys))" "prv r = (if xs = [] then None else Some (last xs))"
  using assms chain_link [of nxt f xs r ys] chain_link [of prv l "rev ys" r "rev xs"]
  by (simp_all add: linked_def hd_rev)

section \<open>Adding and removing\<close>

lemma last_notin_butlast: "distinct xs \<Longrightarrow> last xs \<notin> set (butlast xs)"
  by (cases xs rule: rev_cases) auto

lemma linked_push:
  assumes "linked nxt prv f l rs" and "r \<notin> set rs"
    and "nxt' r = None" "prv' r = l"
    and "\<And>x. x \<in> set rs \<Longrightarrow> nxt' x = (if l = Some x then Some r else nxt x)"
    and "\<And>x. x \<in> set rs \<Longrightarrow> prv' x = prv x"
    and "f' = (if f = None then Some r else f)" and "l' = Some r"
  shows "linked nxt' prv' f' l' (rs @ [r])"
proof -
  have l: "l = (if rs = [] then None else Some (last rs))" and f: "f = (if rs = [] then None else Some (hd rs))"
    using assms(1) linked_last linked_first by blast+
  have "chain prv' l (rev rs)" using assms(1,6) chain_cong [of prv l "rev rs" prv'] by (simp add: linked_def)
  moreover have "chain nxt' f' (rs @ [r])"
  proof (cases "rs = []")
    case True
    then show ?thesis using assms(3,7) f by simp
  next
    case False
    have "chain link p rs \<Longrightarrow> (\<And>x. x \<in> set (butlast rs) \<Longrightarrow> link' x = link x) \<Longrightarrow> link' (last rs) = Some r
        \<Longrightarrow> link' r = None \<Longrightarrow> chain link' p (rs @ [r])" for p link link'
      using False
    proof (induction rs arbitrary: p)
      case (Cons x xs)
      then show ?case by (cases "xs = []") auto
    qed simp
    moreover have "nxt' x = nxt x" if "x \<in> set (butlast rs)" for x
    proof -
      have "x \<in> set rs" "last rs \<noteq> x" using that assms(1) last_notin_butlast [of rs]
        by (auto simp: linked_def dest: in_set_butlastD)
      then show ?thesis using assms(5) l False by simp
    qed
    ultimately show ?thesis
      using assms(1,3,5,7) l f False by (auto simp: linked_def)
  qed
  ultimately show ?thesis using assms(1,2,4,8) by (simp add: linked_def)
qed

lemma linked_remove:
  assumes "linked nxt prv f l (xs @ r # ys)"
    and "\<And>x. x \<in> set (xs @ ys) \<Longrightarrow> nxt' x = (if prv r = Some x then nxt r else nxt x)"
    and "\<And>x. x \<in> set (xs @ ys) \<Longrightarrow> prv' x = (if nxt r = Some x then prv r else prv x)"
    and "f' = (if prv r = None then nxt r else f)" and "l' = (if nxt r = None then prv r else l)"
  shows "linked nxt' prv' f' l' (xs @ ys)"
proof -
  note n = linked_neighbours [OF assms(1)]
  have d: "distinct (xs @ r # ys)" and c: "chain nxt f (xs @ r # ys)" "chain prv l (rev ys @ r # rev xs)"
    using assms(1) by (simp_all add: linked_def)
  have lastx: "last xs \<notin> set ys" "last xs \<notin> set (butlast xs)" if "xs \<noteq> []"
    using that d last_notin_butlast [of xs] last_in_set [of xs] by (simp_all add: disjoint_iff)
  have hdy: "hd ys \<notin> set xs" "hd ys \<notin> set (tl ys)" if "ys \<noteq> []"
    using that d by (cases ys; simp)+
  have "chain nxt' (if xs = [] then nxt r else f) (xs @ ys)"
  proof (rule chain_relink [OF c(1) d])
    show "chain nxt' (nxt r) ys"
    proof (rule chain_cong [OF chain_append_Cons [OF c(1)]])
      fix x assume "x \<in> set ys"
      then show "nxt' x = nxt x" using assms(2) [of x] n(2) lastx d by auto
    qed
  next
    fix x assume "x \<in> set (butlast xs)"
    then have "x \<in> set xs" "last xs \<noteq> x" "xs \<noteq> []" using lastx by (cases "xs = []"; auto dest: in_set_butlastD)+
    then show "nxt' x = nxt x" using assms(2) n(2) by simp
  next
    assume "xs \<noteq> []"
    then show "nxt' (last xs) = nxt r" using assms(2) [of "last xs"] n(2) by simp
  qed
  moreover have "chain prv' (if rev ys = [] then prv r else l) (rev ys @ rev xs)"
  proof (rule chain_relink [OF c(2)])
    show "distinct (rev ys @ r # rev xs)" using d by auto
    show "chain prv' (prv r) (rev xs)"
    proof (rule chain_cong [OF chain_append_Cons [OF c(2)]])
      fix x assume "x \<in> set (rev xs)"
      then show "prv' x = prv x" using assms(3) [of x] n(1) hdy d by auto
    qed
  next
    fix x assume "x \<in> set (butlast (rev ys))"
    then show "prv' x = prv x" using assms(3) [of x] n(1) hdy
      by (cases ys) (auto split: if_splits dest: in_set_butlastD simp: butlast_append)
  next
    assume "rev ys \<noteq> []"
    then show "prv' (last (rev ys)) = prv r" using assms(3) [of "hd ys"] n(1) by (simp add: last_rev)
  qed
  moreover have "f' = (if xs = [] then nxt r else f)" "l' = (if rev ys = [] then prv r else l)"
    using assms(4,5) n by auto
  ultimately show ?thesis using d by (simp add: linked_def)
qed

section \<open>The contract of a linked list\<close>

datatype 'r list_op = PushOp 'r | RemoveOp 'r

fun listOp :: "'r list_op \<Rightarrow> 'r list \<Rightarrow> 'r list" where
  "listOp (PushOp r) rs = rs @ [r]"
| "listOp (RemoveOp r) rs = remove1 r rs"

fun legalOp :: "'r list_op \<Rightarrow> 'r list \<Rightarrow> bool" where
  "legalOp (PushOp r) rs \<longleftrightarrow> r \<notin> set rs"
| "legalOp (RemoveOp r) rs \<longleftrightarrow> r \<in> set rs"

fun legalOps :: "'r list_op list \<Rightarrow> 'r list \<Rightarrow> bool" where
  "legalOps [] rs \<longleftrightarrow> True"
| "legalOps (c # cs) rs \<longleftrightarrow> legalOp c rs \<and> legalOps cs (listOp c rs)"

text \<open>
  What the users of a list rely on: a state represents at most one list, of distinct objects;
  an object that is not in the list can be added at the end, one that is can be removed, and
  neither panics.
\<close>

locale linked_store =
  fixes lists :: "'s \<Rightarrow> 'r list \<Rightarrow> bool"
    and push :: "'r \<Rightarrow> 's \<Rightarrow> panic + 's"
    and unlink :: "'r \<Rightarrow> 's \<Rightarrow> panic + 's"
  assumes lists_unique: "lists s rs \<Longrightarrow> lists s rs' \<Longrightarrow> rs = rs'"
    and lists_distinct: "lists s rs \<Longrightarrow> distinct rs"
    and push_lists: "lists s rs \<Longrightarrow> r \<notin> set rs \<Longrightarrow> \<exists>s'. push r s = Inr s' \<and> lists s' (rs @ [r])"
    and unlink_lists: "lists s (xs @ r # ys) \<Longrightarrow> \<exists>s'. unlink r s = Inr s' \<and> lists s' (xs @ ys)"
begin

lemma unlink_removes:
  assumes "lists s rs" and "r \<in> set rs"
  shows "\<exists>s'. unlink r s = Inr s' \<and> lists s' (remove1 r rs)"
proof -
  obtain xs ys where rs: "rs = xs @ r # ys" "r \<notin> set xs" using assms(2) by (auto dest: split_list_first)
  then show ?thesis using unlink_lists [of s xs r ys] assms(1) by (simp add: remove1_append)
qed

definition perform :: "'r list_op \<Rightarrow> 's \<Rightarrow> panic + 's" where
  "perform c s = (case c of PushOp r \<Rightarrow> push r s | RemoveOp r \<Rightarrow> unlink r s)"

lemma perform_lists:
  "lists s rs \<Longrightarrow> legalOp c rs \<Longrightarrow> \<exists>s'. perform c s = Inr s' \<and> lists s' (listOp c rs)"
  by (cases c) (auto simp: perform_def push_lists unlink_removes)

lemma run_refines:
  "lists s rs \<Longrightarrow> legalOps cs rs \<Longrightarrow> \<exists>s'. foldE perform cs s = Inr s' \<and> lists s' (fold listOp cs rs)"
proof (induction cs arbitrary: s rs)
  case (Cons c cs)
  then obtain s' where "perform c s = Inr s'" "lists s' (listOp c rs)" using perform_lists [of s rs c] by auto
  then show ?case using Cons by auto
qed simp

text \<open>Moving an object to the end, as a use of it does in a list by recency.\<close>

lemma touch_lists:
  assumes "lists s rs" and "r \<in> set rs"
  shows "\<exists>s' s''. unlink r s = Inr s' \<and> push r s' = Inr s'' \<and> lists s'' (remove1 r rs @ [r])"
proof -
  obtain s' where s': "unlink r s = Inr s'" "lists s' (remove1 r rs)" using unlink_removes [OF assms] by blast
  moreover have "r \<notin> set (remove1 r rs)" using lists_distinct [OF assms(1)] by simp
  ultimately show ?thesis using push_lists by blast
qed

end

end
