(* ===== verification/Object_Store.thy ===== *)
theory Object_Store
  imports Object_Cache Linked_Lists
begin

text \<open>
  The object server that keeps objects in files, \<^verbatim>\<open>lib/objectserver/filesystem\<close>: reference
  counts, the list of unreferenced objects by age, and the garbage collector that deletes the
  oldest of them. Objects in memory are addressed by references; the files are a map from
  pathnames. \<open>lockHeld\<close> is the write lock; an operation starts when it is free.
\<close>

section \<open>State\<close>

record object_type =
  obj_hash :: hash
  newerUnreferenced :: "ref option"
  olderUnreferenced :: "ref option"
  refcount :: u64
  obj_size :: u64

datatype disk_file = PlainFile "u8 list" | NonFile

record object_server =
  memory :: "ref \<Rightarrow> object_type"
  freshRef :: ref
  lockHeld :: bool
  duplicatedBytes :: u64
  lastGarbageCollection :: int
  lastMutationTime :: int
  objects :: "(hash \<times> ref) list"
  newestUnreferenced :: "ref option"
  numDuplicated :: u64
  numReferenced :: u64
  numUnreferenced :: u64
  oldestUnreferenced :: "ref option"
  referencedBytes :: u64
  totalBytes :: u64
  unreferencedBytes :: u64
  disk :: "string \<rightharpoonup> disk_file"

datatype store_error =
    UnknownObject
  | ZeroRefcount
  | IteratorError
  | NoMoreObjects
  | ExistingNonFile
  | CollisionDetected
  | DiskError
  | ZeroLengthFile
  | MissingObject
  | AllObjectsConsumed
  | BadObject object_error

text \<open>
  What the file system of the machine does: which calls fail, how much a read returns, and the
  numbers of \<^verbatim>\<open>statfs\<close>. \<open>cleanup\<close>-flags of the garbage collector come with it.
\<close>

record store_env =
  BaseDirectory :: string
  mkdirFails :: "string \<Rightarrow> bool"
  writeFails :: "string \<Rightarrow> bool"
  removeFails :: "string \<Rightarrow> bool"
  renameFails :: "string \<Rightarrow> bool"
  readChunk :: "nat \<Rightarrow> nat"
  spaceMetrics :: "(u64 \<times> u64) option"
  clock :: int
  cleanupStartPercent :: int
  cleanupStartSize :: u64
  cleanupStopPercent :: int
  cleanupStopSize :: u64

definition updObj :: "ref \<Rightarrow> (object_type \<Rightarrow> object_type) \<Rightarrow> object_server \<Rightarrow> object_server" where
  "updObj r f st = st\<lparr>memory := (memory st)(r := f (memory st r))\<rparr>"

section \<open>The list of unreferenced objects\<close>

definition addUnreferenced :: "ref \<Rightarrow> object_server \<Rightarrow> panic + object_server" where
  "addUnreferenced object st =
     (let st = updObj object (\<lambda>ob. ob\<lparr>olderUnreferenced := newestUnreferenced st\<rparr>) st
      in bindP (case oldestUnreferenced st of
                  None \<Rightarrow> Inr (st\<lparr>oldestUnreferenced := Some object\<rparr>)
                | Some _ \<Rightarrow>
                    (case newestUnreferenced st of
                       None \<Rightarrow> Inl NilDereference
                     | Some newest \<Rightarrow> Inr (updObj newest (\<lambda>ob. ob\<lparr>newerUnreferenced := Some object\<rparr>) st)))
           (\<lambda>st.
              let st = st\<lparr>newestUnreferenced := Some object, numUnreferenced := numUnreferenced st + 1\<rparr>;
                  st = updObj object (\<lambda>ob. ob\<lparr>newerUnreferenced := None\<rparr>) st
              in Inr (st\<lparr>unreferencedBytes := unreferencedBytes st + obj_size (memory st object)\<rparr>)))"

text \<open>Removing an object, if it is in the list: first the older side, then the newer one.\<close>

definition unlinkOlder :: "ref \<Rightarrow> object_server \<Rightarrow> bool \<times> object_server" where
  "unlinkOlder object st =
     (case olderUnreferenced (memory st object) of
        None \<Rightarrow>
          if oldestUnreferenced st = Some object
          then (True, st\<lparr>oldestUnreferenced := newerUnreferenced (memory st object)\<rparr>)
          else (False, st)
      | Some older \<Rightarrow>
          (True, updObj older (\<lambda>ob. ob\<lparr>newerUnreferenced := newerUnreferenced (memory st object)\<rparr>) st))"

definition unlinkNewer :: "ref \<Rightarrow> object_server \<Rightarrow> bool \<times> object_server" where
  "unlinkNewer object st =
     (case newerUnreferenced (memory st object) of
        None \<Rightarrow>
          if newestUnreferenced st = Some object
          then (True, st\<lparr>newestUnreferenced := olderUnreferenced (memory st object)\<rparr>)
          else (False, st)
      | Some newer \<Rightarrow>
          (True, updObj newer (\<lambda>ob. ob\<lparr>olderUnreferenced := olderUnreferenced (memory st object)\<rparr>) st))"

definition removeUnreferenced :: "ref \<Rightarrow> object_server \<Rightarrow> object_server" where
  "removeUnreferenced object st =
     (let (removed1, st) = unlinkOlder object st;
          (removed2, st) = unlinkNewer object st;
          st = updObj object (\<lambda>ob. ob\<lparr>olderUnreferenced := None\<rparr>) st;
          st = (if removed1 \<or> removed2
                then st\<lparr>numUnreferenced := numUnreferenced st - 1,
                        unreferencedBytes := unreferencedBytes st - obj_size (memory st object)\<rparr>
                else st)
      in updObj object (\<lambda>ob. ob\<lparr>newerUnreferenced := None\<rparr>) st)"

text \<open>Which objects are unreferenced: \<^verbatim>\<open>listUnreferenced\<close> walks from the oldest to the newest.\<close>

fun walkObjects :: "nat \<Rightarrow> (ref \<Rightarrow> object_type) \<Rightarrow> ref option \<Rightarrow> (hash \<times> u64) list \<Rightarrow> (hash \<times> u64) list option" where
  "walkObjects _ mem None table = Some table"
| "walkObjects 0 mem (Some ob) table = None"
| "walkObjects (Suc fuel) mem (Some ob) table =
     walkObjects fuel mem (newerUnreferenced (mem ob)) (putTable (obj_hash (mem ob)) (obj_size (mem ob)) table)"

definition listUnreferenced :: "nat \<Rightarrow> object_server \<Rightarrow> (hash \<times> u64) list option" where
  "listUnreferenced fuel st = walkObjects fuel (memory st) (oldestUnreferenced st) []"

section \<open>Reference counts\<close>

definition decrementRefcount :: "ref \<Rightarrow> object_server \<Rightarrow> panic + (store_error + object_server)" where
  "decrementRefcount object st =
     (if refcount (memory st object) < 1 then Inr (Inl ZeroRefcount)
      else
        (let st = st\<lparr>duplicatedBytes := duplicatedBytes st - obj_size (memory st object),
                     numDuplicated := numDuplicated st - 1\<rparr>;
             st = updObj object (\<lambda>ob. ob\<lparr>refcount := refcount ob - 1\<rparr>) st
         in if refcount (memory st object) > 0 then Inr (Inr st)
            else bindP (addUnreferenced object st) (\<lambda>st.
              Inr (Inr (st\<lparr>numReferenced := numReferenced st - 1,
                           referencedBytes := referencedBytes st - obj_size (memory st object)\<rparr>)))))"

definition incrementRefcount :: "ref \<Rightarrow> object_server \<Rightarrow> panic + (store_error + object_server)" where
  "incrementRefcount object st =
     (let st = (if refcount (memory st object) < 1
                then removeUnreferenced object
                       (st\<lparr>numReferenced := numReferenced st + 1,
                           referencedBytes := referencedBytes st + obj_size (memory st object)\<rparr>)
                else st);
          st = st\<lparr>duplicatedBytes := duplicatedBytes st + obj_size (memory st object),
                  numDuplicated := numDuplicated st + 1\<rparr>
      in Inr (Inr (updObj object (\<lambda>ob. ob\<lparr>refcount := refcount ob + 1\<rparr>) st)))"

definition adjustOne :: "bool \<Rightarrow> ref \<Rightarrow> object_server \<Rightarrow> panic + (store_error + object_server)" where
  "adjustOne increment object st = (if increment then incrementRefcount object st else decrementRefcount object st)"

text \<open>
  An iterator yields hashes and may end with an error of its own. The result of the loop is the
  error, the state and the objects that were adjusted.
\<close>

fun adjustLoop ::
    "bool \<Rightarrow> hash list \<Rightarrow> store_error option \<Rightarrow> object_server \<Rightarrow> ref list
       \<Rightarrow> panic + (store_error option \<times> object_server \<times> ref list)" where
  "adjustLoop increment [] iterErr st adjusted = Inr (iterErr, st, adjusted)"
| "adjustLoop increment (hashVal # hs) iterErr st adjusted =
     (case map_of (objects st) hashVal of
        None \<Rightarrow> Inr (Some UnknownObject, st, adjusted)
      | Some object \<Rightarrow>
          bindP (adjustOne increment object st) (\<lambda>res.
            case res of
              Inl err \<Rightarrow> Inr (Some err, st, adjusted)
            | Inr st \<Rightarrow> adjustLoop increment hs iterErr st (adjusted @ [object])))"

fun undoLoop :: "bool \<Rightarrow> ref list \<Rightarrow> object_server \<Rightarrow> panic + object_server" where
  "undoLoop increment [] st = Inr st"
| "undoLoop increment (object # adjusted) st =
     bindP (adjustOne (\<not> increment) object st) (\<lambda>res.
       case res of
         Inl err \<Rightarrow> Inl (ExplicitPanic ''undo'')
       | Inr st \<Rightarrow> undoLoop increment adjusted st)"

definition adjustRefcounts ::
    "bool \<Rightarrow> hash list \<times> store_error option \<Rightarrow> object_server \<Rightarrow> panic + (store_error option \<times> object_server)" where
  "adjustRefcounts increment iterator st =
     bindP (adjustLoop increment (fst iterator) (snd iterator) st []) (\<lambda>(err, st, adjusted).
       case err of
         None \<Rightarrow> Inr (None, st)
       | Some e \<Rightarrow> bindP (undoLoop increment adjusted st) (\<lambda>st. Inr (Some e, st)))"

section \<open>Adding objects\<close>

text \<open>\<^verbatim>\<open>add\<close> with the allocation of the object it is given.\<close>

definition addNew :: "store_env \<Rightarrow> hash \<Rightarrow> u64 \<Rightarrow> object_server \<Rightarrow> panic + object_server" where
  "addNew env hashVal sz st =
     (let object = freshRef st;
          st = st\<lparr>memory := (memory st)(object := \<lparr>obj_hash = hashVal, newerUnreferenced = None,
                                                  olderUnreferenced = None, refcount = 0, obj_size = sz\<rparr>),
                  freshRef := Suc object\<rparr>;
          st = st\<lparr>objects := putTable hashVal object (objects st)\<rparr>
      in bindP (addUnreferenced object st) (\<lambda>st.
           Inr (st\<lparr>lastMutationTime := clock env, totalBytes := totalBytes st + sz\<rparr>)))"

definition objectPath :: "store_env \<Rightarrow> hash \<Rightarrow> string" where
  "objectPath env h = pathJoin (BaseDirectory env) (hashToFilename h)"

definition stashPath :: "store_env \<Rightarrow> hash \<Rightarrow> string" where
  "stashPath env h = pathJoin (pathJoin (BaseDirectory env) ''.stash'') (hashToFilename h)"

text \<open>Comparing with a file, a buffer at a time. A read returns at least one byte, or the end.\<close>

definition buflen :: nat where "buflen = 65536"

definition readCount :: "(nat \<Rightarrow> nat) \<Rightarrow> u8 list \<Rightarrow> u8 list \<Rightarrow> nat" where
  "readCount chunk data rest =
     (let numToRead = min (length data) buflen
      in min (length rest) (max 1 (min numToRead (chunk numToRead))))"

lemma readCount_pos: "rest \<noteq> [] \<Longrightarrow> 0 < readCount chunk data rest"
  by (simp add: readCount_def Let_def)

function collisionLoop :: "(nat \<Rightarrow> nat) \<Rightarrow> u8 list \<Rightarrow> u8 list \<Rightarrow> bool" where
  "collisionLoop chunk data rest =
     (if data = [] then True
      else if rest = [] then False
      else if take (readCount chunk data rest) data \<noteq> take (readCount chunk data rest) rest then False
      else collisionLoop chunk (drop (readCount chunk data rest) data) (drop (readCount chunk data rest) rest))"
  by pat_completeness auto
termination by (relation "measure (\<lambda>(chunk, data, rest). length data)") (auto simp: readCount_pos)

declare collisionLoop.simps [simp del]

definition collisionCheck :: "store_env \<Rightarrow> u8 list \<Rightarrow> u8 list \<Rightarrow> u64 \<Rightarrow> bool" where
  "collisionCheck env data content sz \<longleftrightarrow>
     int (length data) = sint sz \<and> collisionLoop (readChunk env) data content"

text \<open>The result is whether the object is new, and the file system.\<close>

definition addOrCompareOnce ::
    "store_env \<Rightarrow> u8 list \<Rightarrow> string \<Rightarrow> object_server \<Rightarrow> store_error + (bool \<times> object_server)" where
  "addOrCompareOnce env data filename st =
     (case disk st filename of
        Some NonFile \<Rightarrow> Inl ExistingNonFile
      | Some (PlainFile content) \<Rightarrow>
          if collisionCheck env data content (of_nat (length content)) then Inr (False, st) else Inl CollisionDetected
      | None \<Rightarrow>
          if mkdirFails env filename \<or> writeFails env filename then Inl DiskError
          else Inr (True, st\<lparr>disk := (disk st)(filename \<mapsto> PlainFile data)\<rparr>))"

text \<open>The callback of \<^verbatim>\<open>addObject\<close> is told the hash, the length and whether the object is new.\<close>

definition addObject ::
    "store_env \<Rightarrow> (u8 list \<Rightarrow> hash) \<Rightarrow> bool \<Rightarrow> u8 list \<Rightarrow> u64 \<Rightarrow> hash option \<Rightarrow> object_server
       \<Rightarrow> panic + ((store_error + (hash \<times> bool)) \<times> object_server)" where
  "addObject env sha512 readError stream len expectedHash st =
     (case readObject sha512 readError stream len expectedHash of
        Inl err \<Rightarrow> Inr (Inl (BadObject err), st)
      | Inr (hashVal, data) \<Rightarrow>
          (case addOrCompareOnce env data (objectPath env hashVal) st of
             Inl err \<Rightarrow> Inr (Inl err, st)
           | Inr (isNew, st) \<Rightarrow>
               bindP (if map_of (objects st) hashVal = None
                      then addNew env hashVal (of_nat (length data)) st else Inr st)
                 (\<lambda>st. Inr (Inr (hashVal, isNew), st))))"

definition checkObject :: "store_env \<Rightarrow> hash \<Rightarrow> object_server \<Rightarrow> store_error + u64" where
  "checkObject env hashVal st =
     (case map_of (objects st) hashVal of
        Some object \<Rightarrow> Inr (obj_size (memory st object))
      | None \<Rightarrow>
          (case disk st (objectPath env hashVal) of
             Some (PlainFile content) \<Rightarrow>
               if length content < 1 then Inl ZeroLengthFile else Inr (of_nat (length content))
           | _ \<Rightarrow> Inr 0))"

fun checkObjects :: "store_env \<Rightarrow> hash list \<Rightarrow> object_server \<Rightarrow> store_error + u64 list" where
  "checkObjects env [] st = Inr []"
| "checkObjects env (h # hs) st =
     (case checkObject env h st of
        Inl err \<Rightarrow> Inl err
      | Inr sz \<Rightarrow> (case checkObjects env hs st of Inl err \<Rightarrow> Inl err | Inr sizes \<Rightarrow> Inr (sz # sizes)))"

text \<open>\<^verbatim>\<open>getObjects\<close> gives the sizes, \<^verbatim>\<open>nextObject\<close> the object at the next index.\<close>

fun getStoredObjects :: "store_env \<Rightarrow> hash list \<Rightarrow> object_server \<Rightarrow> store_error + u64 list" where
  "getStoredObjects env [] st = Inr []"
| "getStoredObjects env (h # hs) st =
     (case checkObject env h st of
        Inl err \<Rightarrow> Inl err
      | Inr sz \<Rightarrow>
          if sz < 1 then Inl MissingObject
          else (case getStoredObjects env hs st of Inl err \<Rightarrow> Inl err | Inr sizes \<Rightarrow> Inr (sz # sizes)))"

definition nextObject :: "store_env \<Rightarrow> hash list \<Rightarrow> int \<Rightarrow> object_server \<Rightarrow> int \<times> (store_error + (u64 \<times> u8 list))" where
  "nextObject env hashes nextIndex st =
     (let nextIndex = nextIndex + 1
      in (nextIndex,
          if nextIndex \<ge> int (length hashes) then Inl AllObjectsConsumed
          else (case disk st (objectPath env (hashes ! nat nextIndex)) of
                  Some (PlainFile content) \<Rightarrow> Inr (of_nat (length content), content)
                | _ \<Rightarrow> Inl DiskError)))"

text \<open>
  Stashed objects wait in a directory of their own. \<open>callback\<close> tells whether a callback for
  new objects is set: for an object that is known already it is called without a test.
\<close>

definition commitObject ::
    "store_env \<Rightarrow> bool \<Rightarrow> hash \<Rightarrow> object_server \<Rightarrow> panic + (store_error option \<times> object_server)" where
  "commitObject env callback hashVal st =
     (case disk st (stashPath env hashVal) of
        None \<Rightarrow>
          (case checkObject env hashVal st of
             Inr len \<Rightarrow> if len > 0 then Inr (None, st) else Inr (Some DiskError, st)
           | Inl _ \<Rightarrow> Inr (Some DiskError, st))
      | Some NonFile \<Rightarrow> Inr (Some ExistingNonFile, st\<lparr>disk := (disk st)(stashPath env hashVal := None)\<rparr>)
      | Some (PlainFile content) \<Rightarrow>
          if mkdirFails env (objectPath env hashVal) then Inr (Some DiskError, st)
          else if map_of (objects st) hashVal \<noteq> None then
            (let st = st\<lparr>disk := (disk st)(stashPath env hashVal := None)\<rparr>
             in if callback then Inr (None, st) else Inl NilDereference)
          else
            bindP (addNew env hashVal (of_nat (length content)) st) (\<lambda>st.
              if renameFails env (objectPath env hashVal) then Inr (Some DiskError, st)
              else Inr (None, st\<lparr>disk := (disk st)(objectPath env hashVal \<mapsto> PlainFile content,
                                                    stashPath env hashVal := None)\<rparr>)))"

definition deleteStashedObject :: "store_env \<Rightarrow> hash \<Rightarrow> object_server \<Rightarrow> store_error option \<times> object_server" where
  "deleteStashedObject env hashVal st =
     (if removeFails env (stashPath env hashVal) \<or> disk st (stashPath env hashVal) = None then (Some DiskError, st)
      else (None, st\<lparr>disk := (disk st)(stashPath env hashVal := None)\<rparr>))"

definition stashOrVerifyObject ::
    "store_env \<Rightarrow> (u8 list \<Rightarrow> hash) \<Rightarrow> bool \<Rightarrow> u8 list \<Rightarrow> u64 \<Rightarrow> hash option \<Rightarrow> object_server
       \<Rightarrow> (store_error + (hash \<times> u8 list option)) \<times> object_server" where
  "stashOrVerifyObject env sha512 readError stream len expectedHash st =
     (case readObject sha512 readError stream len expectedHash of
        Inl err \<Rightarrow> (Inl (BadObject err), st)
      | Inr (hashVal, data) \<Rightarrow>
          (case checkObject env hashVal st of
             Inl err \<Rightarrow> (Inl err, st)
           | Inr len \<Rightarrow>
               if len > 0 then
                 (case disk st (objectPath env hashVal) of
                    Some (PlainFile content) \<Rightarrow>
                      if collisionCheck env data content len then (Inr (hashVal, None), st)
                      else (Inl CollisionDetected, st)
                  | _ \<Rightarrow> (Inl DiskError, st))
               else
                 (case addOrCompareOnce env data (stashPath env hashVal) st of
                    Inl err \<Rightarrow> (Inl err, st)
                  | Inr (isNew, st) \<Rightarrow> (Inr (hashVal, Some data), st))))"

section \<open>Deleting objects\<close>

text \<open>An object that is not known is reported before the lock is released.\<close>

definition deleteObject :: "store_env \<Rightarrow> hash \<Rightarrow> object_server \<Rightarrow> store_error option \<times> object_server" where
  "deleteObject env hashVal st =
     (let st = st\<lparr>lockHeld := True\<rparr>
      in case map_of (objects st) hashVal of
           None \<Rightarrow> (Some UnknownObject, st)
         | Some object \<Rightarrow>
             (let sz = obj_size (memory st object);
                  count = refcount (memory st object);
                  st = st\<lparr>objects := deleteKey hashVal (objects st)\<rparr>;
                  st = st\<lparr>duplicatedBytes := duplicatedBytes st - sz * count, lastMutationTime := clock env,
                          numDuplicated := numDuplicated st - count\<rparr>;
                  st = (if count > 0
                        then st\<lparr>numReferenced := numReferenced st - 1, referencedBytes := referencedBytes st - sz\<rparr>
                        else st);
                  st = removeUnreferenced object st;
                  st = st\<lparr>totalBytes := totalBytes st - sz, lockHeld := False\<rparr>;
                  filename = objectPath env hashVal
              in if removeFails env filename \<or> disk st filename = None then (Some DiskError, st)
                 else (None, st\<lparr>disk := (disk st)(filename := None)\<rparr>)))"

definition deleteOldestUnreferenced :: "store_env \<Rightarrow> object_server \<Rightarrow> (store_error + u64) \<times> object_server" where
  "deleteOldestUnreferenced env st =
     (case oldestUnreferenced st of
        None \<Rightarrow> (Inl NoMoreObjects, st)
      | Some object \<Rightarrow>
          (case deleteObject env (obj_hash (memory st object)) st of
             (Some err, st) \<Rightarrow> (Inl err, st)
           | (None, st') \<Rightarrow> (Inr (obj_size (memory st object)), st')))"

lemma unlink_objects:
  "objects (snd (unlinkOlder r s)) = objects s" "objects (snd (unlinkNewer r s)) = objects s"
  by (simp_all add: unlinkOlder_def unlinkNewer_def updObj_def split: option.split)

lemma removeUnreferenced_objects: "objects (removeUnreferenced r s) = objects s"
  by (simp add: removeUnreferenced_def updObj_def unlink_objects Let_def split_beta)

lemma deleteObject_shrinks:
  assumes "deleteObject env h st = (None, st')"
  shows "length (objects st') < length (objects st)"
proof (cases "map_of (objects st) h")
  case None
  then show ?thesis using assms by (simp add: deleteObject_def)
next
  case (Some object)
  then have "objects st' = deleteKey h (objects st)" using assms
    by (simp add: deleteObject_def Let_def removeUnreferenced_objects split: if_splits) (auto simp: removeUnreferenced_objects)
  moreover have "map_of t h \<noteq> None \<Longrightarrow> length (deleteKey h t) < length t" for t :: "(hash \<times> ref) list"
    by (induction t) (auto simp: deleteKey_def less_Suc_eq_le)
  ultimately show ?thesis using Some by simp
qed

function deleteUnreferencedLoop ::
    "store_env \<Rightarrow> u64 \<Rightarrow> u64 \<Rightarrow> u64 \<Rightarrow> u64 \<Rightarrow> object_server
       \<Rightarrow> (u64 \<times> u64 \<times> store_error option) \<times> object_server" where
  "deleteUnreferencedLoop env bytesToDelete objectsToDelete bytesDeleted objectsDeleted st =
     (if bytesDeleted < bytesToDelete \<or> objectsDeleted < objectsToDelete then
        (case deleteOldestUnreferenced env st of
           (Inl err, st) \<Rightarrow> ((bytesDeleted, objectsDeleted, Some err), st)
         | (Inr sz, st) \<Rightarrow>
             deleteUnreferencedLoop env bytesToDelete objectsToDelete (bytesDeleted + sz) (objectsDeleted + 1) st)
      else ((bytesDeleted, objectsDeleted, None), st))"
  by pat_completeness auto
termination
  by (relation "measure (\<lambda>(env, b, ob, bd, od, st). length (objects st))")
    (auto simp: deleteOldestUnreferenced_def dest!: deleteObject_shrinks split: option.splits prod.splits)

declare deleteUnreferencedLoop.simps [simp del]

definition deleteUnreferenced ::
    "store_env \<Rightarrow> u8 \<Rightarrow> u64 \<Rightarrow> object_server \<Rightarrow> (u64 \<times> u64 \<times> store_error option) \<times> object_server" where
  "deleteUnreferenced env percentage bytesToDelete st =
     deleteUnreferencedLoop env bytesToDelete (ucast percentage * numUnreferenced st div 100) 0 0 st"

definition sanitisePercentage :: "int \<Rightarrow> u64" where
  "sanitisePercentage percent = (if percent < 1 then 1 else if percent > 99 then 99 else of_int percent)"

text \<open>The collector, without the deprecated external one. The clock runs in nanoseconds.\<close>

definition bytesToCollect :: "store_env \<Rightarrow> object_server \<Rightarrow> panic + u64" where
  "bytesToCollect env st =
     (let bytesToDelete =
            (if cleanupStopSize env < cleanupStartSize env \<and> unreferencedBytes st > cleanupStartSize env
             then unreferencedBytes st - cleanupStopSize env else 0)
      in case spaceMetrics env of
           None \<Rightarrow> Inr bytesToDelete
         | Some (free, capacity) \<Rightarrow>
             (let start = sanitisePercentage (cleanupStartPercent env);
                  stop = sanitisePercentage (cleanupStopPercent env);
                  stop = (if stop \<ge> start then start - 1 else stop)
              in if capacity = 0 then Inl (ExplicitPanic ''integer divide by zero'')
                 else
                   (let utilisation = (capacity - free) * 100 div capacity;
                        relativeBytesToDelete = (utilisation - stop) * capacity div 100
                    in Inr (if utilisation \<ge> start \<and> relativeBytesToDelete > bytesToDelete
                            then relativeBytesToDelete else bytesToDelete))))"

definition garbageCollector :: "store_env \<Rightarrow> object_server \<Rightarrow> panic + ((store_error + u64) \<times> object_server)" where
  "garbageCollector env st =
     (if clock env - lastGarbageCollection st < 10 ^ 9 then Inr (Inr 0, st)
      else
        (let st = st\<lparr>lastGarbageCollection := clock env\<rparr>
         in bindP (bytesToCollect env st) (\<lambda>bytesToDelete.
              if bytesToDelete < 1 then Inr (Inr 0, st)
              else (case deleteUnreferenced env 0 bytesToDelete st of
                      ((bytesDeleted, _, None), st) \<Rightarrow> Inr (Inr bytesDeleted, st)
                    | ((_, _, Some err), st) \<Rightarrow> Inr (Inl err, st)))))"

definition listObjectSizes :: "object_server \<Rightarrow> (hash \<times> u64) list" where
  "listObjectSizes st = map (\<lambda>(h, r). (h, obj_size (memory st r))) (objects st)"

definition listObjects :: "object_server \<Rightarrow> hash list" where
  "listObjects st = map fst (objects st)"

text \<open>\<^verbatim>\<open>newObjectServer\<close>: an empty server to which the objects found on disk are added.\<close>

definition emptyServer :: "store_env \<Rightarrow> (string \<rightharpoonup> disk_file) \<Rightarrow> object_server" where
  "emptyServer env files =
     \<lparr>memory = (\<lambda>_. \<lparr>obj_hash = [], newerUnreferenced = None, olderUnreferenced = None, refcount = 0, obj_size = 0\<rparr>),
      freshRef = 0, lockHeld = False, duplicatedBytes = 0, lastGarbageCollection = clock env, lastMutationTime = 0,
      objects = [], newestUnreferenced = None, numDuplicated = 0, numReferenced = 0, numUnreferenced = 0,
      oldestUnreferenced = None, referencedBytes = 0, totalBytes = 0, unreferencedBytes = 0, disk = files\<rparr>"

definition newObjectServer :: "store_env \<Rightarrow> (string \<rightharpoonup> disk_file) \<Rightarrow> (hash \<times> u64) list \<Rightarrow> panic + object_server" where
  "newObjectServer env files found = foldE (\<lambda>(h, sz). addNew env h sz) found (emptyServer env files)"

end
