(* ===== verification/Object_Refs.thy ===== *)
theory Object_Refs
  imports Object_Store
begin

text \<open>
  What the object server keeps true: the list of unreferenced objects is a well-formed list of
  exactly the objects without a reference, and every counter is what it says, in the
  arithmetic of 64-bit words.
\<close>

section \<open>The list of unreferenced objects\<close>

definition unrefList :: "object_server \<Rightarrow> ref list \<Rightarrow> bool" where
  "unrefList st rs \<longleftrightarrow>
     linked (\<lambda>r. newerUnreferenced (memory st r)) (\<lambda>r. olderUnreferenced (memory st r))
       (oldestUnreferenced st) (newestUnreferenced st) rs"

lemma unrefList_cong:
  assumes "unrefList st rs" and "oldestUnreferenced st' = oldestUnreferenced st" "newestUnreferenced st' = newestUnreferenced st"
    and "\<And>r. r \<in> set rs \<Longrightarrow> newerUnreferenced (memory st' r) = newerUnreferenced (memory st r)
        \<and> olderUnreferenced (memory st' r) = olderUnreferenced (memory st r)"
  shows "unrefList st' rs"
  using linked_cong [OF assms(1) [unfolded unrefList_def]] assms(2-4) by (simp add: unrefList_def)

text \<open>Everything but the list and its counters.\<close>

definition coreOf :: "object_server \<Rightarrow> _" where
  "coreOf st = (\<lambda>r. (obj_hash (memory st r), refcount (memory st r), obj_size (memory st r)),
     (objects st, freshRef st, lockHeld st, disk st, lastGarbageCollection st, lastMutationTime st),
     duplicatedBytes st, numDuplicated st, numReferenced st, referencedBytes st, totalBytes st)"

lemma coreOf_eqD:
  assumes "coreOf s = coreOf t"
  shows "objects s = objects t" "freshRef s = freshRef t" "lockHeld s = lockHeld t" "disk s = disk t"
    "duplicatedBytes s = duplicatedBytes t" "numDuplicated s = numDuplicated t" "numReferenced s = numReferenced t"
    "referencedBytes s = referencedBytes t" "totalBytes s = totalBytes t"
    "lastGarbageCollection s = lastGarbageCollection t" "lastMutationTime s = lastMutationTime t"
    "obj_hash (memory s r) = obj_hash (memory t r)" "refcount (memory s r) = refcount (memory t r)"
    "obj_size (memory s r) = obj_size (memory t r)"
  using assms by (auto simp: coreOf_def dest: fun_cong [where x = r])

lemma addUnreferenced_spec:
  assumes "unrefList st rs" and "r \<notin> set rs"
  shows "\<exists>st'. addUnreferenced r st = Inr st' \<and> unrefList st' (rs @ [r]) \<and> coreOf st' = coreOf st
    \<and> numUnreferenced st' = numUnreferenced st + 1
    \<and> unreferencedBytes st' = unreferencedBytes st + obj_size (memory st r)
    \<and> (\<forall>x. x \<notin> set rs \<longrightarrow> x \<noteq> r \<longrightarrow> memory st' x = memory st x)"
proof -
  note ends = linked_first [OF assms(1) [unfolded unrefList_def]] linked_last [OF assms(1) [unfolded unrefList_def]]
  note push = linked_push [OF assms(1) [unfolded unrefList_def] assms(2)]
  show ?thesis
  proof (cases "rs = []")
    case True
    then show ?thesis using ends
      by (auto simp: addUnreferenced_def updObj_def unrefList_def Let_def coreOf_def linked_def)
  next
    case False
    then have ne: "last rs \<noteq> r" "last rs \<in> set rs" using assms(2) by auto
    let ?mem = "(memory st)(r := (memory st r)\<lparr>olderUnreferenced := Some (last rs), newerUnreferenced := None\<rparr>,
      last rs := (memory st (last rs))\<lparr>newerUnreferenced := Some r\<rparr>)"
    let ?st = "st\<lparr>memory := ?mem, newestUnreferenced := Some r, numUnreferenced := numUnreferenced st + 1,
      unreferencedBytes := unreferencedBytes st + obj_size (memory st r)\<rparr>"
    have "addUnreferenced r st = Inr ?st" using ends False ne
      by (simp add: addUnreferenced_def updObj_def Let_def fun_upd_twist)
    moreover have "unrefList ?st (rs @ [r])" unfolding unrefList_def
      by (rule push) (use ends False ne assms(2) in auto)
    moreover have "coreOf ?st = coreOf st" using ne by (auto simp: coreOf_def)
    ultimately show ?thesis using ne by auto
  qed
qed

lemma removeUnreferenced_spec:
  assumes "unrefList st (xs @ r # ys)"
  shows "unrefList (removeUnreferenced r st) (xs @ ys)" "coreOf (removeUnreferenced r st) = coreOf st"
    "numUnreferenced (removeUnreferenced r st) = numUnreferenced st - 1"
    "unreferencedBytes (removeUnreferenced r st) = unreferencedBytes st - obj_size (memory st r)"
    "x \<notin> set (xs @ r # ys) \<Longrightarrow> memory (removeUnreferenced r st) x = memory st x"
    "newerUnreferenced (memory (removeUnreferenced r st) r) = None"
    "olderUnreferenced (memory (removeUnreferenced r st) r) = None"
proof -
  note l = assms [unfolded unrefList_def]
  note ends = linked_first [OF l] linked_last [OF l]
  note n = linked_neighbours [OF l]
  have d: "distinct (xs @ r # ys)" using l by (simp add: linked_def)
  have lastx: "xs \<noteq> [] \<Longrightarrow> last xs \<in> set xs" and hdy: "ys \<noteq> [] \<Longrightarrow> hd ys \<in> set ys" by auto
  have neq: "xs \<noteq> [] \<Longrightarrow> last xs \<noteq> r" "ys \<noteq> [] \<Longrightarrow> hd ys \<noteq> r"
    "xs \<noteq> [] \<Longrightarrow> ys \<noteq> [] \<Longrightarrow> last xs \<noteq> hd ys"
    using d lastx hdy by (auto simp: disjoint_iff) (metis last_in_set list.set_sel(1))
  have rem: "removeUnreferenced r st =
    st\<lparr>memory := (\<lambda>x. if x = r then (memory st r)\<lparr>olderUnreferenced := None, newerUnreferenced := None\<rparr>
                     else if xs \<noteq> [] \<and> x = last xs then (memory st x)\<lparr>newerUnreferenced := newerUnreferenced (memory st r)\<rparr>
                     else if ys \<noteq> [] \<and> x = hd ys then (memory st x)\<lparr>olderUnreferenced := olderUnreferenced (memory st r)\<rparr>
                     else memory st x),
       oldestUnreferenced := (if xs = [] then newerUnreferenced (memory st r) else oldestUnreferenced st),
       newestUnreferenced := (if ys = [] then olderUnreferenced (memory st r) else newestUnreferenced st),
       numUnreferenced := numUnreferenced st - 1,
       unreferencedBytes := unreferencedBytes st - obj_size (memory st r)\<rparr>"
    using ends n neq
    by (cases "xs = []"; cases "ys = []")
      (simp_all add: removeUnreferenced_def unlinkOlder_def unlinkNewer_def updObj_def Let_def fun_eq_iff)
  show "unrefList (removeUnreferenced r st) (xs @ ys)" unfolding rem unrefList_def
    by (rule linked_remove [OF l]) (use n neq d lastx hdy in \<open>auto simp: disjoint_iff\<close>)
  show "coreOf (removeUnreferenced r st) = coreOf st" by (auto simp: rem coreOf_def)
  show "x \<notin> set (xs @ r # ys) \<Longrightarrow> memory (removeUnreferenced r st) x = memory st x"
    using lastx hdy by (auto simp: rem)
  show "numUnreferenced (removeUnreferenced r st) = numUnreferenced st - 1"
    "unreferencedBytes (removeUnreferenced r st) = unreferencedBytes st - obj_size (memory st r)"
    "newerUnreferenced (memory (removeUnreferenced r st) r) = None"
    "olderUnreferenced (memory (removeUnreferenced r st) r) = None"
    by (simp_all add: rem)
qed

lemma removeUnreferenced_absent:
  assumes "unrefList st rs" and "r \<notin> set rs"
    and "newerUnreferenced (memory st r) = None" "olderUnreferenced (memory st r) = None"
  shows "removeUnreferenced r st = st"
proof -
  note l = assms(1) [unfolded unrefList_def]
  have "oldestUnreferenced st \<noteq> Some r" "newestUnreferenced st \<noteq> Some r"
    using linked_first [OF l] linked_last [OF l] assms(2) by (auto split: if_splits)
  moreover have "(memory st)(r := (memory st r)\<lparr>olderUnreferenced := None, newerUnreferenced := None\<rparr>) = memory st"
    using assms(3,4) by (cases "memory st r") auto
  ultimately show ?thesis using assms(3,4)
    by (simp add: removeUnreferenced_def unlinkOlder_def unlinkNewer_def updObj_def)
qed

interpretation unref: linked_store unrefList addUnreferenced "\<lambda>r st. Inr (removeUnreferenced r st)"
proof
  fix s rs rs' assume "unrefList s rs" "unrefList s rs'"
  then show "rs = rs'" unfolding unrefList_def by (rule linked_unique)
next
  fix s rs assume "unrefList s rs"
  then show "distinct rs" by (simp add: unrefList_def linked_def)
next
  fix s rs r assume "unrefList s rs" "r \<notin> set rs"
  then show "\<exists>s'. addUnreferenced r s = Inr s' \<and> unrefList s' (rs @ [r])" using addUnreferenced_spec by blast
next
  fix s xs r ys assume "unrefList s (xs @ r # ys)"
  then show "\<exists>s'. Inr (removeUnreferenced r s) = Inr s' \<and> unrefList s' (xs @ ys)"
    using removeUnreferenced_spec(1) by blast
qed

section \<open>The invariant\<close>

definition refsOf :: "object_server \<Rightarrow> ref set" where
  "refsOf st = snd ` set (objects st)"

definition tally :: "(u64 \<Rightarrow> u64 \<Rightarrow> u64) \<Rightarrow> object_server \<Rightarrow> u64" where
  "tally f st = (\<Sum>r\<in>refsOf st. f (refcount (memory st r)) (obj_size (memory st r)))"

definition countersOk :: "object_server \<Rightarrow> bool" where
  "countersOk st \<longleftrightarrow>
     numUnreferenced st = tally (\<lambda>c s. if c = 0 then 1 else 0) st
     \<and> unreferencedBytes st = tally (\<lambda>c s. if c = 0 then s else 0) st
     \<and> numReferenced st = tally (\<lambda>c s. if c = 0 then 0 else 1) st
     \<and> referencedBytes st = tally (\<lambda>c s. if c = 0 then 0 else s) st
     \<and> numDuplicated st = tally (\<lambda>c s. c) st
     \<and> duplicatedBytes st = tally (\<lambda>c s. s * c) st
     \<and> totalBytes st = tally (\<lambda>c s. s) st"

definition storeInv :: "object_server \<Rightarrow> ref list \<Rightarrow> bool" where
  "storeInv st rs \<longleftrightarrow>
     distinct (map fst (objects st)) \<and> distinct (map snd (objects st))
     \<and> (\<forall>(h, r)\<in>set (objects st). obj_hash (memory st r) = h \<and> r < freshRef st)
     \<and> unrefList st rs \<and> set rs = {r \<in> refsOf st. refcount (memory st r) = 0}
     \<and> (\<forall>r\<in>refsOf st - set rs. newerUnreferenced (memory st r) = None \<and> olderUnreferenced (memory st r) = None)
     \<and> countersOk st"

lemma storeInv_frame [simp]:
  "storeInv (st\<lparr>disk := d\<rparr>) rs \<longleftrightarrow> storeInv st rs" "storeInv (st\<lparr>lockHeld := b\<rparr>) rs \<longleftrightarrow> storeInv st rs"
  "storeInv (st\<lparr>lastGarbageCollection := t\<rparr>) rs \<longleftrightarrow> storeInv st rs"
  by (simp_all add: storeInv_def unrefList_def countersOk_def tally_def refsOf_def cong: if_cong)

lemma finite_refsOf [simp]: "finite (refsOf st)"
  by (simp add: refsOf_def)

lemma tally_change:
  assumes "r \<in> refsOf st" and "refsOf st' = refsOf st"
    and "\<And>x. x \<in> refsOf st \<Longrightarrow> x \<noteq> r \<Longrightarrow> refcount (memory st' x) = refcount (memory st x)"
    and "\<And>x. x \<in> refsOf st \<Longrightarrow> obj_size (memory st' x) = obj_size (memory st x)"
  shows "tally f st' = tally f st - f (refcount (memory st r)) (obj_size (memory st r))
    + f (refcount (memory st' r)) (obj_size (memory st r))"
proof -
  have "(\<Sum>x\<in>refsOf st - {r}. f (refcount (memory st' x)) (obj_size (memory st' x)))
      = (\<Sum>x\<in>refsOf st - {r}. f (refcount (memory st x)) (obj_size (memory st x)))"
    using assms(3,4) by (intro sum.cong) auto
  then show ?thesis using assms(1,2,4) by (simp add: tally_def sum.remove [of "refsOf st" r])
qed

lemma storeInv_lookup:
  assumes "storeInv st rs" and "map_of (objects st) h = Some r"
  shows "r \<in> refsOf st" "obj_hash (memory st r) = h"
proof -
  have "(h, r) \<in> set (objects st)" using assms(2) by (rule map_of_SomeD)
  then show "r \<in> refsOf st" "obj_hash (memory st r) = h"
    using assms(1) by (auto simp: storeInv_def refsOf_def intro: rev_image_eqI)
qed

lemma storeInv_known:
  assumes "storeInv st rs" and "r \<in> refsOf st"
  shows "map_of (objects st) (obj_hash (memory st r)) = Some r"
proof -
  obtain h where h: "(h, r) \<in> set (objects st)" using assms(2) by (auto simp: refsOf_def)
  then have "obj_hash (memory st r) = h" "distinct (map fst (objects st))"
    using assms(1) by (auto simp: storeInv_def)
  then show ?thesis using h by simp
qed

text \<open>What an adjustment of one object does.\<close>

definition adjusted :: "object_server \<Rightarrow> ref \<Rightarrow> u64 \<Rightarrow> object_server \<Rightarrow> bool" where
  "adjusted st r n st' \<longleftrightarrow>
     objects st' = objects st \<and> freshRef st' = freshRef st \<and> lockHeld st' = lockHeld st \<and> disk st' = disk st
     \<and> (\<forall>x. obj_hash (memory st' x) = obj_hash (memory st x) \<and> obj_size (memory st' x) = obj_size (memory st x)
          \<and> refcount (memory st' x) = (if x = r then n else refcount (memory st x)))"

lemma storeInv_free:
  "storeInv st rs \<Longrightarrow> x \<in> refsOf st \<Longrightarrow> x \<notin> set rs
   \<Longrightarrow> newerUnreferenced (memory st x) = None \<and> olderUnreferenced (memory st x) = None"
  by (simp add: storeInv_def)

lemma storeInv_listed: "storeInv st rs \<Longrightarrow> x \<in> set rs \<longleftrightarrow> x \<in> refsOf st \<and> refcount (memory st x) = 0"
  by (simp add: storeInv_def)

lemma adjusted_refsOf: "adjusted st r n st' \<Longrightarrow> refsOf st' = refsOf st"
  by (simp add: adjusted_def refsOf_def)

lemma storeInv_adjusted:
  assumes "storeInv st rs" and "adjusted st r n st'" and "unrefList st' rs'"
    and "set rs' = {x \<in> refsOf st. refcount (memory st' x) = 0}"
    and "\<And>x. x \<in> refsOf st \<Longrightarrow> x \<notin> set rs' \<Longrightarrow> newerUnreferenced (memory st' x) = None \<and> olderUnreferenced (memory st' x) = None"
    and "countersOk st'"
  shows "storeInv st' rs'"
proof -
  have "\<forall>(h, r)\<in>set (objects st'). obj_hash (memory st' r) = h \<and> r < freshRef st'"
    using assms(1,2) by (simp add: storeInv_def adjusted_def)
  then show ?thesis using assms adjusted_refsOf [OF assms(2)] by (simp add: storeInv_def adjusted_def)
qed

lemma tally_adjusted:
  assumes "adjusted st r n st'" and "r \<in> refsOf st"
  shows "tally f st' = tally f st - f (refcount (memory st r)) (obj_size (memory st r)) + f n (obj_size (memory st r))"
  using tally_change [OF assms(2) adjusted_refsOf [OF assms(1)], of f] assms(1) by (simp add: adjusted_def)

lemma incrementRefcount_spec:
  assumes "storeInv st rs" and "r \<in> refsOf st" and "refcount (memory st r) + 1 \<noteq> 0"
  shows "\<exists>st' rs'. incrementRefcount r st = Inr (Inr st') \<and> storeInv st' rs' \<and> adjusted st r (refcount (memory st r) + 1) st'"
proof (cases "refcount (memory st r) = 0")
  case True
  have inv: "distinct (map fst (objects st))" "distinct (map snd (objects st))" "unrefList st rs"
    "set rs = {r \<in> refsOf st. refcount (memory st r) = 0}" "countersOk st"
    using assms(1) by (simp_all add: storeInv_def)
  then have "r \<in> set rs" using True assms(2) by simp
  then obtain xs ys where rs: "rs = xs @ r # ys" by (auto dest: split_list)
  let ?st1 = "st\<lparr>numReferenced := numReferenced st + 1, referencedBytes := referencedBytes st + obj_size (memory st r)\<rparr>"
  have l1: "unrefList ?st1 (xs @ r # ys)" using inv(3) rs by (simp add: unrefList_def)
  define st2 where "st2 = removeUnreferenced r ?st1"
  note rem = removeUnreferenced_spec [OF l1, folded st2_def]
  note core = coreOf_eqD [OF rem(2)]
  define st' where "st' = updObj r (\<lambda>ob. ob\<lparr>refcount := refcount ob + 1\<rparr>)
    (st2\<lparr>duplicatedBytes := duplicatedBytes st2 + obj_size (memory st2 r), numDuplicated := numDuplicated st2 + 1\<rparr>)"
  have res: "incrementRefcount r st = Inr (Inr st')"
    by (simp add: incrementRefcount_def True st'_def st2_def Let_def)
  have adj: "adjusted st r (refcount (memory st r) + 1) st'"
    by (simp add: adjusted_def st'_def updObj_def core)
  have tal: "tally f st' = tally f st - f 0 (obj_size (memory st r)) + f 1 (obj_size (memory st r))" for f
    using tally_adjusted [OF adj assms(2), of f] True by simp
  have "unrefList st' (xs @ ys)" by (rule unrefList_cong [OF rem(1)]) (simp_all add: st'_def updObj_def)
  moreover have "set (xs @ ys) = {x \<in> refsOf st. refcount (memory st' x) = 0}"
  proof -
    have "x \<in> set (xs @ ys) \<longleftrightarrow> x \<in> set rs \<and> x \<noteq> r" for x
      using rs unref.lists_distinct [OF inv(3)] by auto
    then show ?thesis using storeInv_listed [OF assms(1)] adj True by (auto simp: adjusted_def)
  qed
  moreover have "newerUnreferenced (memory st' x) = None \<and> olderUnreferenced (memory st' x) = None"
    if "x \<in> refsOf st" "x \<notin> set (xs @ ys)" for x
  proof (cases "x = r")
    case False
    then have "memory st' x = memory st x" using that rem(5) [of x] by (simp add: st'_def updObj_def)
    then show ?thesis using storeInv_free [OF assms(1)] that False rs by simp
  qed (simp add: st'_def updObj_def rem(6,7))
  moreover have "countersOk st'"
    using inv(5) unfolding countersOk_def tal by (simp add: st'_def updObj_def core rem(3,4) algebra_simps)
  ultimately have "storeInv st' (xs @ ys)" by (rule storeInv_adjusted [OF assms(1) adj])
  then show ?thesis using res adj by blast
next
  case False
  define st' where "st' = updObj r (\<lambda>ob. ob\<lparr>refcount := refcount ob + 1\<rparr>)
    (st\<lparr>duplicatedBytes := duplicatedBytes st + obj_size (memory st r), numDuplicated := numDuplicated st + 1\<rparr>)"
  have res: "incrementRefcount r st = Inr (Inr st')"
    using False by (simp add: incrementRefcount_def st'_def Let_def word_less_1)
  have adj: "adjusted st r (refcount (memory st r) + 1) st'"
    by (simp add: adjusted_def st'_def updObj_def)
  have tal: "tally f st' = tally f st - f (refcount (memory st r)) (obj_size (memory st r))
      + f (refcount (memory st r) + 1) (obj_size (memory st r))" for f
    by (rule tally_adjusted [OF adj assms(2)])
  have inv: "unrefList st rs" "countersOk st" using assms(1) by (simp_all add: storeInv_def)
  have "unrefList st' rs" by (rule unrefList_cong [OF inv(1)]) (simp_all add: st'_def updObj_def)
  moreover have "countersOk st'"
    using inv(2) assms(3) False unfolding countersOk_def tal by (simp add: st'_def updObj_def algebra_simps)
  moreover have "set rs = {x \<in> refsOf st. refcount (memory st' x) = 0}"
    using storeInv_listed [OF assms(1)] adj False assms(3) by (auto simp: adjusted_def)
  moreover have "newerUnreferenced (memory st' x) = None \<and> olderUnreferenced (memory st' x) = None"
    if "x \<in> refsOf st" "x \<notin> set rs" for x
    using storeInv_free [OF assms(1) that] by (cases "x = r") (simp_all add: st'_def updObj_def)
  ultimately have "storeInv st' rs" by (intro storeInv_adjusted [OF assms(1) adj])
  then show ?thesis using res adj by blast
qed

lemma decrementRefcount_spec:
  assumes "storeInv st rs" and "r \<in> refsOf st" and "refcount (memory st r) \<noteq> 0"
  shows "\<exists>st' rs'. decrementRefcount r st = Inr (Inr st') \<and> storeInv st' rs' \<and> adjusted st r (refcount (memory st r) - 1) st'"
proof -
  let ?n = "refcount (memory st r)"
  define st1 where "st1 = updObj r (\<lambda>ob. ob\<lparr>refcount := refcount ob - 1\<rparr>)
    (st\<lparr>duplicatedBytes := duplicatedBytes st - obj_size (memory st r), numDuplicated := numDuplicated st - 1\<rparr>)"
  have inv: "unrefList st rs" "countersOk st" using assms(1) by (simp_all add: storeInv_def)
  have out: "r \<notin> set rs" using storeInv_listed [OF assms(1)] assms(3) by simp
  have l1: "unrefList st1 rs" by (rule unrefList_cong [OF inv(1)]) (simp_all add: st1_def updObj_def)
  have adj1: "adjusted st r (?n - 1) st1" by (simp add: adjusted_def st1_def updObj_def)
  have mem1: "newerUnreferenced (memory st1 x) = newerUnreferenced (memory st x)"
    "olderUnreferenced (memory st1 x) = olderUnreferenced (memory st x)" for x
    by (simp_all add: st1_def updObj_def)
  have rc1: "refcount (memory st1 r) = ?n - 1" using adj1 by (simp add: adjusted_def)
  have tal: "adjusted st r (?n - 1) s \<Longrightarrow> tally f s = tally f st - f ?n (obj_size (memory st r)) + f (?n - 1) (obj_size (memory st r))" for f s
    by (rule tally_adjusted [OF _ assms(2)])
  show ?thesis
  proof (cases "?n - 1 = 0")
    case False
    have res: "decrementRefcount r st = Inr (Inr st1)"
    proof -
      have "0 < ?n" "0 < ?n - 1" using assms(3) False by (simp_all only: word_neq_0_conv)
      then show ?thesis using rc1 by (simp add: decrementRefcount_def st1_def [symmetric] Let_def)
    qed
    have "countersOk st1"
      using inv(2) assms(3) False unfolding countersOk_def tal [OF adj1] by (simp add: st1_def updObj_def algebra_simps)
    moreover have "set rs = {x \<in> refsOf st. refcount (memory st1 x) = 0}"
      using storeInv_listed [OF assms(1)] adj1 False assms(3) by (auto simp: adjusted_def)
    ultimately have "storeInv st1 rs"
      by (intro storeInv_adjusted [OF assms(1) adj1 l1]) (simp_all add: mem1 storeInv_free [OF assms(1)])
    then show ?thesis using res adj1 by blast
  next
    case True
    then have one: "?n = 1" by simp
    obtain st2 where st2: "addUnreferenced r st1 = Inr st2" "unrefList st2 (rs @ [r])" "coreOf st2 = coreOf st1"
      "numUnreferenced st2 = numUnreferenced st1 + 1"
      "unreferencedBytes st2 = unreferencedBytes st1 + obj_size (memory st1 r)"
      "\<And>x. x \<notin> set rs \<Longrightarrow> x \<noteq> r \<Longrightarrow> memory st2 x = memory st1 x"
      using addUnreferenced_spec [OF l1 out] by blast
    note core = coreOf_eqD [OF st2(3)]
    define st' where "st' = st2\<lparr>numReferenced := numReferenced st2 - 1,
      referencedBytes := referencedBytes st2 - obj_size (memory st2 r)\<rparr>"
    have res: "decrementRefcount r st = Inr (Inr st')"
      using one rc1 st2(1) by (simp add: decrementRefcount_def st1_def [symmetric] Let_def st'_def)
    have adj: "adjusted st r (?n - 1) st'" using adj1 core by (simp add: adjusted_def st'_def)
    have "unrefList st' (rs @ [r])" by (rule unrefList_cong [OF st2(2)]) (simp_all add: st'_def)
    moreover have "set (rs @ [r]) = {x \<in> refsOf st. refcount (memory st' x) = 0}"
      using storeInv_listed [OF assms(1)] adj True assms(2) by (auto simp: adjusted_def)
    moreover have "newerUnreferenced (memory st' x) = None \<and> olderUnreferenced (memory st' x) = None"
      if "x \<in> refsOf st" "x \<notin> set (rs @ [r])" for x
      using that st2(6) [of x] storeInv_free [OF assms(1), of x] by (simp add: st'_def mem1)
    moreover have "countersOk st'"
      using inv(2) one unfolding countersOk_def tal [OF adj]
      by (simp add: st'_def core st2(4,5) st1_def updObj_def algebra_simps)
    ultimately have "storeInv st' (rs @ [r])" by (rule storeInv_adjusted [OF assms(1) adj])
    then show ?thesis using res adj by blast
  qed
qed

section \<open>Adjusting many objects\<close>

text \<open>The objects of a list are adjusted, as often as they occur; there is room or there are references enough.\<close>

definition moved :: "object_server \<Rightarrow> bool \<Rightarrow> ref list \<Rightarrow> object_server \<Rightarrow> bool" where
  "moved st increment l st' \<longleftrightarrow>
     objects st' = objects st \<and> freshRef st' = freshRef st \<and> lockHeld st' = lockHeld st \<and> disk st' = disk st
     \<and> (\<forall>x. obj_hash (memory st' x) = obj_hash (memory st x) \<and> obj_size (memory st' x) = obj_size (memory st x)
          \<and> refcount (memory st' x) = (if increment then refcount (memory st x) + of_nat (count_list l x)
                                       else refcount (memory st x) - of_nat (count_list l x)))"

definition enough :: "bool \<Rightarrow> ref list \<Rightarrow> object_server \<Rightarrow> bool" where
  "enough increment l st \<longleftrightarrow>
     (\<forall>x. if increment then unat (refcount (memory st x)) + count_list l x < 2 ^ 64
          else count_list l x \<le> unat (refcount (memory st x)))"

lemma moved_Nil: "moved st increment [] st"
  by (simp add: moved_def)

lemma moved_refsOf: "moved st increment l st' \<Longrightarrow> refsOf st' = refsOf st"
  by (simp add: moved_def refsOf_def)

lemma moved_Cons:
  assumes "adjusted st r (if increment then refcount (memory st r) + 1 else refcount (memory st r) - 1) st1"
    and "moved st1 increment l st'"
  shows "moved st increment (r # l) st'"
  using assms by (auto simp: moved_def adjusted_def)

lemma enough_Cons:
  assumes "adjusted st r (if increment then refcount (memory st r) + 1 else refcount (memory st r) - 1) st1"
    and "if increment then refcount (memory st r) + 1 \<noteq> 0 else refcount (memory st r) \<noteq> 0"
  shows "enough increment (r # l) st \<longleftrightarrow> enough increment l st1"
proof -
  have "unat (refcount (memory st1 x)) =
      (if increment then unat (refcount (memory st x)) + (if x = r then 1 else 0)
       else unat (refcount (memory st x)) - (if x = r then 1 else 0))" for x
    using assms by (auto simp: adjusted_def unat_minus_one add.commute [of _ 1] unatSuc split: if_splits)
  moreover have "\<not> increment \<Longrightarrow> 0 < unat (refcount (memory st r))"
    using assms(2) by (simp add: unat_gt_0)
  ultimately have "(if increment then unat (refcount (memory st x)) + count_list (r # l) x < 2 ^ 64
        else count_list (r # l) x \<le> unat (refcount (memory st x)))
      \<longleftrightarrow> (if increment then unat (refcount (memory st1 x)) + count_list l x < 2 ^ 64
        else count_list l x \<le> unat (refcount (memory st1 x)))" for x
    by (cases "x = r"; cases increment) auto
  then show ?thesis by (simp only: enough_def)
qed

lemma enough_Nil: "enough increment [] st"
proof -
  have "unat w < 2 ^ 64" for w :: u64 using unsigned_less [of w] by simp
  then show ?thesis by (simp add: enough_def)
qed

lemma adjustOne_spec:
  assumes "storeInv st rs" and "r \<in> refsOf st"
    and "if increment then refcount (memory st r) + 1 \<noteq> 0 else refcount (memory st r) \<noteq> 0"
  shows "\<exists>st1 rs1. adjustOne increment r st = Inr (Inr st1) \<and> storeInv st1 rs1
    \<and> adjusted st r (if increment then refcount (memory st r) + 1 else refcount (memory st r) - 1) st1"
  using assms incrementRefcount_spec [of st rs r] decrementRefcount_spec [of st rs r]
  by (cases increment) (simp_all add: adjustOne_def)

lemma enough_one:
  "enough increment (r # l) st \<Longrightarrow>
   if increment then refcount (memory st r) + 1 \<noteq> 0 else refcount (memory st r) \<noteq> 0"
proof -
  assume e: "enough increment (r # l) st"
  show ?thesis
  proof (cases increment)
    case True
    then have "unat (refcount (memory st r)) + 1 < 2 ^ 64" using e by (auto simp: enough_def dest: spec [of _ r])
    then have "unat (refcount (memory st r) + 1) = unat (refcount (memory st r)) + 1"
      by (simp add: unat_word_ariths)
    then show ?thesis using True by auto
  next
    case False
    then show ?thesis using e by (auto simp: enough_def dest: spec [of _ r])
  qed
qed

lemma undoLoop_spec:
  "storeInv st rs \<Longrightarrow> set l \<subseteq> refsOf st \<Longrightarrow> enough (\<not> increment) l st
   \<Longrightarrow> \<exists>st' rs'. undoLoop increment l st = Inr st' \<and> storeInv st' rs' \<and> moved st (\<not> increment) l st'"
proof (induction l arbitrary: st rs)
  case Nil
  then show ?case using moved_Nil by auto
next
  case (Cons r l)
  have r: "r \<in> refsOf st" using Cons.prems(2) by simp
  note one = enough_one [OF Cons.prems(3)]
  obtain st1 rs1 where st1: "adjustOne (\<not> increment) r st = Inr (Inr st1)" "storeInv st1 rs1"
    "adjusted st r (if \<not> increment then refcount (memory st r) + 1 else refcount (memory st r) - 1) st1"
    using adjustOne_spec [OF Cons.prems(1) r one] by blast
  have "set l \<subseteq> refsOf st1" using Cons.prems(2) adjusted_refsOf [OF st1(3)] by simp
  moreover have "enough (\<not> increment) l st1" using enough_Cons [OF st1(3) one] Cons.prems(3) by simp
  ultimately obtain st' rs' where st': "undoLoop increment l st1 = Inr st'" "storeInv st' rs'" "moved st1 (\<not> increment) l st'"
    using Cons.IH [OF st1(2)] by blast
  then show ?case using st1(1) moved_Cons [OF st1(3) st'(3)] by auto
qed

lemma adjustLoop_spec:
  "storeInv st rs \<Longrightarrow> (increment \<Longrightarrow> \<forall>x\<in>refsOf st. unat (refcount (memory st x)) + length hs < 2 ^ 64)
   \<Longrightarrow> \<exists>err st' rs' l. adjustLoop increment hs iterErr st acc = Inr (err, st', acc @ l) \<and> storeInv st' rs'
         \<and> moved st increment l st' \<and> set l \<subseteq> refsOf st \<and> enough increment l st
         \<and> (err = None \<longrightarrow> map (map_of (objects st)) hs = map Some l)
         \<and> (err = None \<longleftrightarrow> iterErr = None
              \<and> (\<exists>l'. map (map_of (objects st)) hs = map Some l' \<and> enough increment l' st))"
proof (induction hs arbitrary: st rs acc)
  case Nil
  show ?case using Nil moved_Nil enough_Nil by (intro exI [of _ iterErr] exI [of _ st] exI [of _ rs] exI [of _ "[]"]) simp
next
  case (Cons h hs)
  show ?case
  proof (cases "map_of (objects st) h")
    case None
    have "\<not> (\<exists>l'. map (map_of (objects st)) (h # hs) = map Some l')"
      using None by (auto simp: Cons_eq_map_conv)
    then show ?thesis using None Cons.prems(1) moved_Nil enough_Nil
      by (intro exI [of _ "Some UnknownObject"] exI [of _ st] exI [of _ rs] exI [of _ "[]"]) simp
  next
    case (Some r)
    have r: "r \<in> refsOf st" using storeInv_lookup [OF Cons.prems(1) Some] by simp
    show ?thesis
    proof (cases "if increment then refcount (memory st r) + 1 \<noteq> 0 else refcount (memory st r) \<noteq> 0")
      case False
      have "\<not> increment"
      proof
        assume increment
        have "unat (refcount (memory st x)) + count_list [r] x < 2 ^ 64" for x
          using bspec [OF Cons.prems(2) [OF \<open>increment\<close>] r] unsigned_less [of "refcount (memory st x)"] by auto
        then have "enough increment [r] st" using \<open>increment\<close> by (simp only: enough_def if_True simp_thms)
        then show False using enough_one False by blast
      qed
      then have z: "\<not> increment" "refcount (memory st r) = 0" using False by auto
      then have res: "adjustLoop increment (h # hs) iterErr st acc = Inr (Some ZeroRefcount, st, acc @ [])"
        using Some by (simp add: adjustOne_def decrementRefcount_def)
      have "\<not> enough increment (r # l') st" for l' using z enough_one [of increment r l' st] by auto
      then have "\<not> (\<exists>l'. map (map_of (objects st)) (h # hs) = map Some l' \<and> enough increment l' st)"
        using Some by (auto simp: Cons_eq_map_conv)
      then show ?thesis using res Cons.prems(1) moved_Nil enough_Nil
        by (intro exI [of _ "Some ZeroRefcount"] exI [of _ st] exI [of _ rs] exI [of _ "[]"]) simp
    next
      case True
      obtain st1 rs1 where st1: "adjustOne increment r st = Inr (Inr st1)" "storeInv st1 rs1"
        "adjusted st r (if increment then refcount (memory st r) + 1 else refcount (memory st r) - 1) st1"
        using adjustOne_spec [OF Cons.prems(1) r True] by blast
      have R: "refsOf st1 = refsOf st" "objects st1 = objects st"
        using st1(3) adjusted_refsOf [OF st1(3)] by (simp_all add: adjusted_def)
      have "\<forall>x\<in>refsOf st1. unat (refcount (memory st1 x)) + length hs < 2 ^ 64" if increment
      proof
        fix x assume "x \<in> refsOf st1"
        then have "unat (refcount (memory st x)) + length (h # hs) < 2 ^ 64" using Cons.prems(2) [OF that] R by simp
        moreover have "unat (refcount (memory st1 x)) \<le> unat (refcount (memory st x)) + 1"
          using st1(3) that True by (auto simp: adjusted_def unatSuc add.commute [of _ 1])
        ultimately show "unat (refcount (memory st1 x)) + length hs < 2 ^ 64" by simp
      qed
      then obtain err st' rs' l where l: "adjustLoop increment hs iterErr st1 (acc @ [r]) = Inr (err, st', (acc @ [r]) @ l)"
        "storeInv st' rs'" "moved st1 increment l st'" "set l \<subseteq> refsOf st1" "enough increment l st1"
        "err = None \<longrightarrow> map (map_of (objects st1)) hs = map Some l"
        "err = None \<longleftrightarrow> iterErr = None
           \<and> (\<exists>l'. map (map_of (objects st1)) hs = map Some l' \<and> enough increment l' st1)"
        using Cons.IH [OF st1(2), of "acc @ [r]"] by blast
      have "adjustLoop increment (h # hs) iterErr st acc = Inr (err, st', acc @ (r # l))" using l(1) Some st1(1) by simp
      moreover have "moved st increment (r # l) st'" using moved_Cons [OF st1(3) l(3)] .
      moreover have "enough increment (r # l) st" using enough_Cons [OF st1(3) True] l(5) by simp
      moreover have "(\<exists>l'. map (map_of (objects st)) (h # hs) = map Some l' \<and> enough increment l' st)
          \<longleftrightarrow> (\<exists>l'. map (map_of (objects st1)) hs = map Some l' \<and> enough increment l' st1)"
        using Some R enough_Cons [OF st1(3) True] by (fastforce simp: Cons_eq_map_conv)
      ultimately show ?thesis using l(2,4,6,7) R r Some by (intro exI [of _ err] exI [of _ st'] exI [of _ rs'] exI [of _ "r # l"]) auto
    qed
  qed
qed

definition refcountOf :: "object_server \<Rightarrow> hash \<Rightarrow> u64 option" where
  "refcountOf st h = map_option (\<lambda>r. refcount (memory st r)) (map_of (objects st) h)"

lemma storeInv_inj:
  assumes "storeInv st rs" and "map_of (objects st) h = Some r" and "map_of (objects st) h' = Some r"
  shows "h = h'"
  using storeInv_lookup(2) [OF assms(1,2)] storeInv_lookup(2) [OF assms(1,3)] by simp

lemma count_list_refs:
  assumes "storeInv st rs"
  shows "map (map_of (objects st)) hs = map Some l \<Longrightarrow> map_of (objects st) h = Some r
    \<Longrightarrow> count_list l r = count_list hs h"
proof (induction hs arbitrary: l)
  case (Cons h' hs)
  then obtain r' l' where l: "l = r' # l'" "map_of (objects st) h' = Some r'" "map (map_of (objects st)) hs = map Some l'"
    by (cases l) auto
  have "r' = r \<longleftrightarrow> h' = h" using l(2) Cons.prems(2) storeInv_inj [OF assms] by auto
  then show ?case using Cons.IH [OF l(3) Cons.prems(2)] l(1) by auto
qed simp

lemma moved_back:
  assumes "moved st increment l st1" and "enough increment l st"
  shows "enough (\<not> increment) l st1"
proof -
  have "if \<not> increment then unat (refcount (memory st1 x)) + count_list l x < 2 ^ 64
        else count_list l x \<le> unat (refcount (memory st1 x))" for x
  proof (cases increment)
    case True
    then have "unat (refcount (memory st x)) + count_list l x < 2 ^ 64" using assms(2) by (simp add: enough_def)
    then have "unat (refcount (memory st1 x)) = unat (refcount (memory st x)) + count_list l x"
      using assms(1) True by (simp add: moved_def unat_word_ariths unat_of_nat)
    then show ?thesis using True by simp
  next
    case False
    then have le: "count_list l x \<le> unat (refcount (memory st x))" using assms(2) by (simp add: enough_def)
    have lt: "unat (refcount (memory st x)) < 2 ^ 64" using unsigned_less [of "refcount (memory st x)"] by simp
    then have n: "unat (of_nat (count_list l x) :: u64) = count_list l x" using le by (simp add: unat_of_nat)
    then have "unat (refcount (memory st1 x)) = unat (refcount (memory st x)) - count_list l x"
      using assms(1) False le unat_sub [of "of_nat (count_list l x)" "refcount (memory st x)"]
      by (simp add: moved_def word_le_nat_alt)
    then show ?thesis using False le lt by simp
  qed
  then show ?thesis unfolding enough_def by blast
qed

lemma moved_undone:
  assumes "moved st increment l st1" and "moved st1 (\<not> increment) l st2"
  shows "refcountOf st2 h = refcountOf st h"
  using assms by (cases increment) (simp_all add: moved_def refcountOf_def)

lemma adjust_possible:
  assumes "storeInv st rs" and "increment \<Longrightarrow> \<forall>x\<in>refsOf st. unat (refcount (memory st x)) + length hashes < 2 ^ 64"
  shows "(\<exists>l'. map (map_of (objects st)) hashes = map Some l' \<and> enough increment l' st) \<longleftrightarrow>
      (\<forall>h\<in>set hashes. case refcountOf st h of None \<Rightarrow> False | Some c \<Rightarrow> increment \<or> count_list hashes h \<le> unat c)"
    (is "?L \<longleftrightarrow> ?R")
proof
  assume ?L
  then obtain l' where l': "map (map_of (objects st)) hashes = map Some l'" "enough increment l' st" by blast
  show ?R
  proof
    fix h assume h: "h \<in> set hashes"
    then have "map_of (objects st) h \<in> Some ` set l'" using l'(1) by (metis image_eqI list.set_map)
    then obtain r where r: "map_of (objects st) h = Some r" by blast
    have "increment \<or> count_list l' r \<le> unat (refcount (memory st r))"
      using l'(2) by (cases increment) (simp_all add: enough_def)
    then show "case refcountOf st h of None \<Rightarrow> False | Some c \<Rightarrow> increment \<or> count_list hashes h \<le> unat c"
      using r count_list_refs [OF assms(1) l'(1) r] by (simp add: refcountOf_def)
  qed
next
  assume R: ?R
  define l' where "l' = map (\<lambda>h. the (map_of (objects st) h)) hashes"
  have "map_of (objects st) h = Some (the (map_of (objects st) h))" if "h \<in> set hashes" for h
    using R that by (force simp: refcountOf_def split: option.splits)
  then have l': "map (map_of (objects st)) hashes = map Some l'" by (simp add: l'_def)
  have "if increment then unat (refcount (memory st x)) + count_list l' x < 2 ^ 64
      else count_list l' x \<le> unat (refcount (memory st x))" for x
  proof (cases increment)
    case True
    show ?thesis
    proof (cases "x \<in> set l'")
      case in_l: True
      then have "Some x \<in> set (map (map_of (objects st)) hashes)" using l' by simp
      then have "x \<in> refsOf st" using storeInv_lookup(1) [OF assms(1)] by auto
      moreover have "count_list l' x \<le> length hashes" using count_le_length [of l' x] by (simp add: l'_def)
      ultimately show ?thesis using True bspec [OF assms(2) [OF True]] by fastforce
    next
      case False
      then show ?thesis using True unsigned_less [of "refcount (memory st x)"] by (simp add: count_list_0_iff [THEN iffD2])
    qed
  next
    case False
    show ?thesis
    proof (cases "x \<in> set l'")
      case True
      then have "Some x \<in> set (map (map_of (objects st)) hashes)" using l' by simp
      then obtain h where h: "h \<in> set hashes" "map_of (objects st) h = Some x" by auto
      then show ?thesis using R False count_list_refs [OF assms(1) l' h(2)] by (auto simp: refcountOf_def)
    qed (simp add: False)
  qed
  then have "enough increment l' st" unfolding enough_def by blast
  then show ?L using l' by blast
qed

lemma adjustRefcounts_spec:
  assumes "storeInv st rs" and "increment \<Longrightarrow> \<forall>x\<in>refsOf st. unat (refcount (memory st x)) + length hashes < 2 ^ 64"
  shows "\<exists>err st' rs'. adjustRefcounts increment (hashes, iterErr) st = Inr (err, st') \<and> storeInv st' rs'
    \<and> objects st' = objects st \<and> disk st' = disk st \<and> lockHeld st' = lockHeld st
    \<and> (\<forall>r. obj_size (memory st' r) = obj_size (memory st r))
    \<and> (err = None \<longleftrightarrow> iterErr = None
        \<and> (\<forall>h\<in>set hashes. case refcountOf st h of None \<Rightarrow> False | Some c \<Rightarrow> increment \<or> count_list hashes h \<le> unat c))
    \<and> (\<forall>h. refcountOf st' h =
         (if err \<noteq> None then refcountOf st h
          else map_option (\<lambda>c. if increment then c + of_nat (count_list hashes h) else c - of_nat (count_list hashes h))
                 (refcountOf st h)))"
proof -
  obtain err st1 rs1 l where l: "adjustLoop increment hashes iterErr st [] = Inr (err, st1, [] @ l)" "storeInv st1 rs1"
    "moved st increment l st1" "set l \<subseteq> refsOf st" "enough increment l st"
    "err = None \<longrightarrow> map (map_of (objects st)) hashes = map Some l"
    "err = None \<longleftrightarrow> iterErr = None
      \<and> (\<exists>l'. map (map_of (objects st)) hashes = map Some l' \<and> enough increment l' st)"
    using adjustLoop_spec [OF assms, where iterErr = iterErr and acc = "[]"] by blast
  note possible = adjust_possible [OF assms]
  show ?thesis
  proof (cases err)
    case None
    then have eq: "map (map_of (objects st)) hashes = map Some l" using l(6) by simp
    have "refcountOf st1 h = map_option (\<lambda>c. if increment then c + of_nat (count_list hashes h) else c - of_nat (count_list hashes h)) (refcountOf st h)" for h
    proof (cases "map_of (objects st) h")
      case (Some r)
      then show ?thesis using l(3) count_list_refs [OF assms(1) eq Some] by (simp add: refcountOf_def moved_def)
    qed (use l(3) in \<open>simp add: refcountOf_def moved_def\<close>)
    moreover have "adjustRefcounts increment (hashes, iterErr) st = Inr (None, st1)"
      using l(1) None by (simp add: adjustRefcounts_def)
    moreover have "objects st1 = objects st \<and> disk st1 = disk st \<and> lockHeld st1 = lockHeld st
        \<and> (\<forall>r. obj_size (memory st1 r) = obj_size (memory st r))" using l(3) by (simp add: moved_def)
    ultimately show ?thesis using l(2,7) None possible
      by (intro exI [of _ None] exI [of _ st1] exI [of _ rs1]) simp
  next
    case (Some e)
    have "set l \<subseteq> refsOf st1" using l(4) moved_refsOf [OF l(3)] by simp
    then obtain st2 rs2 where st2: "undoLoop increment l st1 = Inr st2" "storeInv st2 rs2" "moved st1 (\<not> increment) l st2"
      using undoLoop_spec [OF l(2) _ moved_back [OF l(3,5)]] by blast
    have "adjustRefcounts increment (hashes, iterErr) st = Inr (Some e, st2)"
      using l(1) Some st2(1) by (simp add: adjustRefcounts_def)
    moreover have "objects st2 = objects st \<and> disk st2 = disk st \<and> lockHeld st2 = lockHeld st
        \<and> (\<forall>r. obj_size (memory st2 r) = obj_size (memory st r))" using l(3) st2(3) by (simp add: moved_def)
    moreover have "\<not> (iterErr = None \<and> (\<forall>h\<in>set hashes. case refcountOf st h of None \<Rightarrow> False | Some c \<Rightarrow> increment \<or> count_list hashes h \<le> unat c))"
      using l(7) Some possible by simp
    ultimately show ?thesis using st2(2) moved_undone [OF l(3) st2(3)]
      by (intro exI [of _ "Some e"] exI [of _ st2] exI [of _ rs2]) simp
  qed
qed

section \<open>Adding and deleting an object\<close>

lemma putTable_absent: "map_of t k = None \<Longrightarrow> putTable k v t = t @ [(k, v)]"
  by (induction t) (auto split: if_splits)

lemma addNew_spec:
  assumes "storeInv st rs" and "map_of (objects st) h = None"
  shows "\<exists>st'. addNew env h sz st = Inr st' \<and> storeInv st' (rs @ [freshRef st])
    \<and> objects st' = objects st @ [(h, freshRef st)] \<and> disk st' = disk st \<and> lockHeld st' = lockHeld st
    \<and> refcount (memory st' (freshRef st)) = 0 \<and> obj_size (memory st' (freshRef st)) = sz
    \<and> (\<forall>r. r \<noteq> freshRef st \<longrightarrow> refcount (memory st' r) = refcount (memory st r) \<and> obj_size (memory st' r) = obj_size (memory st r))"
proof -
  let ?r = "freshRef st"
  define st1 where "st1 = st\<lparr>memory := (memory st)(?r := \<lparr>obj_hash = h, newerUnreferenced = None,
      olderUnreferenced = None, refcount = 0, obj_size = sz\<rparr>), freshRef := Suc ?r, objects := objects st @ [(h, ?r)]\<rparr>"
  have inv: "distinct (map fst (objects st))" "distinct (map snd (objects st))" "unrefList st rs" "countersOk st"
    "\<And>h r. (h, r) \<in> set (objects st) \<Longrightarrow> obj_hash (memory st r) = h \<and> r < ?r"
    using assms(1) by (auto simp: storeInv_def)
  have fresh: "?r \<notin> refsOf st" by (auto simp: refsOf_def dest!: inv(5))
  then have out: "?r \<notin> set rs" using storeInv_listed [OF assms(1)] by simp
  have l1: "unrefList st1 rs" by (rule unrefList_cong [OF inv(3)]) (use out in \<open>auto simp: st1_def\<close>)
  obtain st2 where st2: "addUnreferenced ?r st1 = Inr st2" "unrefList st2 (rs @ [?r])" "coreOf st2 = coreOf st1"
    "numUnreferenced st2 = numUnreferenced st1 + 1" "unreferencedBytes st2 = unreferencedBytes st1 + obj_size (memory st1 ?r)"
    "\<And>x. x \<notin> set rs \<Longrightarrow> x \<noteq> ?r \<Longrightarrow> memory st2 x = memory st1 x"
    using addUnreferenced_spec [OF l1 out] by blast
  note core = coreOf_eqD [OF st2(3)]
  define st' where "st' = st2\<lparr>lastMutationTime := clock env, totalBytes := totalBytes st2 + sz\<rparr>"
  have res: "addNew env h sz st = Inr st'"
    using st2(1) by (simp add: addNew_def Let_def putTable_absent [OF assms(2)] st1_def st'_def)
  have mem: "refcount (memory st' x) = (if x = ?r then 0 else refcount (memory st x))"
    "obj_size (memory st' x) = (if x = ?r then sz else obj_size (memory st x))"
    "obj_hash (memory st' x) = (if x = ?r then h else obj_hash (memory st x))" for x
    by (simp_all add: st'_def core) (simp_all add: st1_def)
  have obs: "objects st' = objects st @ [(h, ?r)]" "freshRef st' = Suc ?r" "disk st' = disk st" "lockHeld st' = lockHeld st"
    by (simp_all add: st'_def core) (simp_all add: st1_def)
  then have R: "refsOf st' = insert ?r (refsOf st)" by (auto simp: refsOf_def)
  have tal: "tally f st' = tally f st + f 0 sz" for f
  proof -
    have "(\<Sum>x\<in>refsOf st. f (refcount (memory st' x)) (obj_size (memory st' x))) = tally f st"
      unfolding tally_def by (rule sum.cong) (use fresh in \<open>auto simp: mem\<close>)
    then show ?thesis using fresh by (simp add: tally_def R mem)
  qed
  have "unrefList st' (rs @ [?r])" by (rule unrefList_cong [OF st2(2)]) (simp_all add: st'_def)
  moreover have "set (rs @ [?r]) = {x \<in> refsOf st'. refcount (memory st' x) = 0}"
    using storeInv_listed [OF assms(1)] R mem by auto
  moreover have "newerUnreferenced (memory st' x) = None \<and> olderUnreferenced (memory st' x) = None"
    if "x \<in> refsOf st' - set (rs @ [?r])" for x
  proof -
    have x: "x \<in> refsOf st" "x \<notin> set rs" "x \<noteq> ?r" using that R by auto
    then have "memory st' x = memory st x" using st2(6) [of x] by (simp add: st'_def st1_def)
    then show ?thesis using storeInv_free [OF assms(1)] x by simp
  qed
  moreover have "countersOk st'"
    using inv(4) unfolding countersOk_def tal by (simp add: st'_def core st2(4,5)) (simp add: st1_def)
  moreover have "distinct (map fst (objects st'))" "distinct (map snd (objects st'))"
    using inv(1,2) assms(2) fresh by (simp_all add: obs refsOf_def map_of_eq_None_iff)
  moreover have "\<forall>(h, r)\<in>set (objects st'). obj_hash (memory st' r) = h \<and> r < freshRef st'"
    using inv(5) by (fastforce simp: obs mem)
  ultimately have "storeInv st' (rs @ [?r])" by (simp add: storeInv_def)
  then show ?thesis using res obs mem by auto
qed

lemma deleteObject_spec:
  assumes "storeInv st rs" and "map_of (objects st) h = Some r"
  shows "\<exists>err st'. deleteObject env h st = (err, st') \<and> storeInv st' (remove1 r rs)
    \<and> objects st' = deleteKey h (objects st) \<and> \<not> lockHeld st'
    \<and> (\<forall>x. refcount (memory st' x) = refcount (memory st x) \<and> obj_size (memory st' x) = obj_size (memory st x))
    \<and> (err = None \<longleftrightarrow> \<not> removeFails env (objectPath env h) \<and> disk st (objectPath env h) \<noteq> None)
    \<and> disk st' = (if err = None then (disk st)(objectPath env h := None) else disk st)"
proof -
  let ?sz = "obj_size (memory st r)" and ?n = "refcount (memory st r)"
  have inv: "distinct (map fst (objects st))" "distinct (map snd (objects st))" "unrefList st rs" "countersOk st"
    "\<And>h r. (h, r) \<in> set (objects st) \<Longrightarrow> obj_hash (memory st r) = h \<and> r < freshRef st"
    using assms(1) by (auto simp: storeInv_def)
  note r = storeInv_lookup [OF assms]
  define st1 where "st1 = st\<lparr>lockHeld := True, objects := deleteKey h (objects st),
    duplicatedBytes := duplicatedBytes st - ?sz * ?n, lastMutationTime := clock env,
    numDuplicated := numDuplicated st - ?n,
    numReferenced := (if ?n > 0 then numReferenced st - 1 else numReferenced st),
    referencedBytes := (if ?n > 0 then referencedBytes st - ?sz else referencedBytes st)\<rparr>"
  define st2 where "st2 = removeUnreferenced r st1"
  define st3 where "st3 = st2\<lparr>totalBytes := totalBytes st2 - ?sz, lockHeld := False\<rparr>"
  have del: "deleteObject env h st =
      (if removeFails env (objectPath env h) \<or> disk st3 (objectPath env h) = None then (Some DiskError, st3)
       else (None, st3\<lparr>disk := (disk st3)(objectPath env h := None)\<rparr>))"
    using assms(2) by (cases "?n > 0") (simp_all add: deleteObject_def Let_def st3_def st2_def st1_def)
  have l1: "unrefList st1 rs" by (rule unrefList_cong [OF inv(3)]) (simp_all add: st1_def)
  have mem1: "memory st1 = memory st" by (simp add: st1_def)
  have st2: "unrefList st2 (remove1 r rs)" "coreOf st2 = coreOf st1"
    "numUnreferenced st2 = numUnreferenced st - (if ?n = 0 then 1 else 0)"
    "unreferencedBytes st2 = unreferencedBytes st - (if ?n = 0 then ?sz else 0)"
    "x \<notin> set rs \<Longrightarrow> memory st2 x = memory st x" for x
  proof -
    have "unrefList st2 (remove1 r rs) \<and> coreOf st2 = coreOf st1
      \<and> numUnreferenced st2 = numUnreferenced st - (if ?n = 0 then 1 else 0)
      \<and> unreferencedBytes st2 = unreferencedBytes st - (if ?n = 0 then ?sz else 0)
      \<and> (\<forall>x. x \<notin> set rs \<longrightarrow> memory st2 x = memory st x)"
    proof (cases "?n = 0")
      case True
      then have "r \<in> set rs" using storeInv_listed [OF assms(1)] r(1) by simp
      then obtain xs ys where rs: "rs = xs @ r # ys" "r \<notin> set xs" by (auto dest: split_list_first)
      then have l: "unrefList st1 (xs @ r # ys)" using l1 by simp
      show ?thesis using removeUnreferenced_spec [OF l] rs True
        by (simp add: st2_def mem1 remove1_append) (simp add: st1_def)
    next
      case False
      then have out: "r \<notin> set rs" using storeInv_listed [OF assms(1)] by simp
      have "st2 = st1" unfolding st2_def
        by (rule removeUnreferenced_absent [OF l1 out]) (use storeInv_free [OF assms(1) r(1) out] in \<open>simp_all add: mem1\<close>)
      then show ?thesis using False out l1 by (simp add: mem1 remove1_idem) (simp add: st1_def)
    qed
    then show "unrefList st2 (remove1 r rs)" "coreOf st2 = coreOf st1"
      "numUnreferenced st2 = numUnreferenced st - (if ?n = 0 then 1 else 0)"
      "unreferencedBytes st2 = unreferencedBytes st - (if ?n = 0 then ?sz else 0)"
      "x \<notin> set rs \<Longrightarrow> memory st2 x = memory st x" for x by blast+
  qed
  note core = coreOf_eqD [OF st2(2)]
  have mem: "refcount (memory st3 x) = refcount (memory st x)" "obj_size (memory st3 x) = obj_size (memory st x)"
    "obj_hash (memory st3 x) = obj_hash (memory st x)" for x
    by (simp_all add: st3_def core mem1)
  have obs: "objects st3 = deleteKey h (objects st)" "freshRef st3 = freshRef st" "disk st3 = disk st" "\<not> lockHeld st3"
    by (simp_all add: st3_def core) (simp_all add: st1_def)
  have "x \<in> refsOf st3 \<longleftrightarrow> x \<in> refsOf st \<and> x \<noteq> r" for x
  proof -
    have "(k, x) \<in> set (objects st) \<Longrightarrow> k \<noteq> h \<longleftrightarrow> x \<noteq> r" for k
      using inv(1) inv(5) [of k x] r(2) map_of_SomeD [OF assms(2)] by (auto dest: eq_key_imp_eq_value)
    then show ?thesis by (force simp: refsOf_def obs deleteKey_def)
  qed
  then have R: "refsOf st3 = refsOf st - {r}" by auto
  have tal: "tally f st3 = tally f st - f ?n ?sz" for f
    using r(1) by (simp add: tally_def R mem sum.remove [of "refsOf st" r])
  have "storeInv st3 (remove1 r rs)"
    unfolding storeInv_def
  proof (intro conjI)
    show "distinct (map fst (objects st3))" "distinct (map snd (objects st3))"
      using inv(1,2) by (simp_all add: obs deleteKey_def distinct_map_filter)
    show "\<forall>(h, r)\<in>set (objects st3). obj_hash (memory st3 r) = h \<and> r < freshRef st3"
      using inv(5) by (auto simp: obs mem deleteKey_def)
    show "unrefList st3 (remove1 r rs)" by (rule unrefList_cong [OF st2(1)]) (simp_all add: st3_def)
    show "set (remove1 r rs) = {x \<in> refsOf st3. refcount (memory st3 x) = 0}"
      using storeInv_listed [OF assms(1)] unref.lists_distinct [OF inv(3)] by (auto simp: R mem)
    show "\<forall>x\<in>refsOf st3 - set (remove1 r rs). newerUnreferenced (memory st3 x) = None \<and> olderUnreferenced (memory st3 x) = None"
    proof
      fix x assume "x \<in> refsOf st3 - set (remove1 r rs)"
      then have x: "x \<in> refsOf st" "x \<notin> set rs" using R by (auto simp: set_remove1_eq [OF unref.lists_distinct [OF inv(3)]])
      then show "newerUnreferenced (memory st3 x) = None \<and> olderUnreferenced (memory st3 x) = None"
        using storeInv_free [OF assms(1) x] st2(5) by (simp add: st3_def)
    qed
    show "countersOk st3"
      using inv(4) unfolding countersOk_def tal
      by (simp add: st3_def core st2(3,4)) (simp add: st1_def word_neq_0_conv [symmetric])
  qed
  then show ?thesis using del obs mem
    by (cases "removeFails env (objectPath env h) \<or> disk st (objectPath env h) = None") auto
qed

section \<open>Collecting garbage\<close>

definition sizesOf :: "object_server \<Rightarrow> ref list \<Rightarrow> u64" where
  "sizesOf st rs = (\<Sum>r\<leftarrow>rs. obj_size (memory st r))"

definition without :: "ref set \<Rightarrow> (hash \<times> ref) list \<Rightarrow> (hash \<times> ref) list" where
  "without X t = filter (\<lambda>(h, r). r \<notin> X) t"

lemma without_simps: "without {} t = t" "without X (without Y t) = without (X \<union> Y) t"
  by (auto simp: without_def intro!: filter_cong)

lemma storeInv_deleteKey:
  assumes "storeInv st rs" and "map_of (objects st) h = Some r"
  shows "deleteKey h (objects st) = without {r} (objects st)"
  unfolding deleteKey_def without_def
proof (rule filter_cong [OF refl])
  fix e assume e: "e \<in> set (objects st)"
  have m: "(h, r) \<in> set (objects st)" using assms(2) by (rule map_of_SomeD)
  have d: "distinct (map fst (objects st))" "distinct (map snd (objects st))" using assms(1) by (simp_all add: storeInv_def)
  have "fst e = h \<longleftrightarrow> snd e = r"
  proof
    assume "fst e = h"
    then show "snd e = r" using e m d(1) by (cases e) (auto dest: eq_key_imp_eq_value)
  next
    assume "snd e = r"
    then have "e = (h, r)" using e m d(2) by (metis distinct_map inj_onD snd_conv)
    then show "fst e = h" by simp
  qed
  then show "(fst e \<noteq> h) = (case e of (h, r') \<Rightarrow> r' \<notin> {r})" by (cases e) auto
qed

lemma deleteOldestUnreferenced_spec:
  assumes "storeInv st (r # rs)"
  shows "\<exists>res st'. deleteOldestUnreferenced env st = (res, st') \<and> storeInv st' rs
    \<and> objects st' = without {r} (objects st)
    \<and> (\<forall>x. refcount (memory st' x) = refcount (memory st x) \<and> obj_size (memory st' x) = obj_size (memory st x))
    \<and> (res = Inr (obj_size (memory st r)) \<or> res = Inl DiskError)"
proof -
  have l: "oldestUnreferenced st = Some r" "r \<in> refsOf st"
    using assms linked_first storeInv_listed [OF assms, of r] by (fastforce simp: storeInv_def unrefList_def)+
  have known: "map_of (objects st) (obj_hash (memory st r)) = Some r" by (rule storeInv_known [OF assms l(2)])
  obtain err st' where del: "deleteObject env (obj_hash (memory st r)) st = (err, st')" "storeInv st' (remove1 r (r # rs))"
    "objects st' = deleteKey (obj_hash (memory st r)) (objects st)"
    "\<forall>x. refcount (memory st' x) = refcount (memory st x) \<and> obj_size (memory st' x) = obj_size (memory st x)"
    using deleteObject_spec [OF assms known] by blast
  have "err = None \<or> err = Some DiskError"
    using del(1) known by (auto simp: deleteObject_def Let_def split: if_splits)
  then show ?thesis using del l(1) storeInv_deleteKey [OF assms known]
    by (auto simp: deleteOldestUnreferenced_def)
qed

lemma deleteUnreferencedLoop_spec:
  "storeInv st rs \<Longrightarrow>
   \<exists>k res st'. deleteUnreferencedLoop env b n bd od st = (res, st')
     \<and> k \<le> length rs \<and> storeInv st' (drop k rs) \<and> objects st' = without (set (take k rs)) (objects st)
     \<and> (\<forall>x. refcount (memory st' x) = refcount (memory st x) \<and> obj_size (memory st' x) = obj_size (memory st x))
     \<and> (\<forall>j<k. bd + sizesOf st (take j rs) < b \<or> od + of_nat j < n)
     \<and> (case res of (bd', od', err) \<Rightarrow>
           (err = None \<longrightarrow> bd' = bd + sizesOf st (take k rs) \<and> od' = od + of_nat k \<and> b \<le> bd' \<and> n \<le> od')
           \<and> (err = Some NoMoreObjects \<longrightarrow> k = length rs) \<and> err \<in> {None, Some NoMoreObjects, Some DiskError})"
proof (induction rs arbitrary: st bd od)
  case Nil
  have "oldestUnreferenced st = None" using Nil by (simp add: storeInv_def unrefList_def)
  then show ?case using Nil
    by (cases "bd < b \<or> od < n")
      (auto simp: deleteUnreferencedLoop.simps [of env b n bd od st] deleteOldestUnreferenced_def without_simps sizesOf_def
        not_less)
next
  case (Cons r rs)
  show ?case
  proof (cases "bd < b \<or> od < n")
    case False
    then have nb: "b \<le> bd" "n \<le> od" "deleteUnreferencedLoop env b n bd od st = ((bd, od, None), st)"
      by (auto simp: deleteUnreferencedLoop.simps [of env b n bd od st])
    show ?thesis using Cons.prems nb
      by (intro exI [of _ "0 :: nat"] exI [of _ "(bd, od, None)"] exI [of _ st])
        (simp add: without_simps sizesOf_def)
  next
    case True
    obtain res st1 where st1: "deleteOldestUnreferenced env st = (res, st1)" "storeInv st1 rs"
      "objects st1 = without {r} (objects st)"
      "\<forall>x. refcount (memory st1 x) = refcount (memory st x) \<and> obj_size (memory st1 x) = obj_size (memory st x)"
      "res = Inr (obj_size (memory st r)) \<or> res = Inl DiskError"
      using deleteOldestUnreferenced_spec [OF Cons.prems] by blast
    show ?thesis
    proof (cases res)
      case (Inl e)
      then show ?thesis using st1 True
        by (intro exI [of _ "1 :: nat"] exI [of _ "(bd, od, Some e)"] exI [of _ st1])
          (auto simp: deleteUnreferencedLoop.simps [of env b n bd od st] sizesOf_def)
    next
      case (Inr sz)
      have sz: "sz = obj_size (memory st r)" using st1(5) Inr by simp
      obtain k res' st' where IH: "deleteUnreferencedLoop env b n (bd + sz) (od + 1) st1 = (res', st')"
        "k \<le> length rs" "storeInv st' (drop k rs)" "objects st' = without (set (take k rs)) (objects st1)"
        "\<forall>x. refcount (memory st' x) = refcount (memory st1 x) \<and> obj_size (memory st' x) = obj_size (memory st1 x)"
        "\<forall>j<k. bd + sz + sizesOf st1 (take j rs) < b \<or> od + 1 + of_nat j < n"
        "case res' of (bd', od', err) \<Rightarrow>
           (err = None \<longrightarrow> bd' = bd + sz + sizesOf st1 (take k rs) \<and> od' = od + 1 + of_nat k \<and> b \<le> bd' \<and> n \<le> od')
           \<and> (err = Some NoMoreObjects \<longrightarrow> k = length rs) \<and> err \<in> {None, Some NoMoreObjects, Some DiskError}"
        using Cons.IH [OF st1(2), of "bd + sz" "od + 1"] by blast
      have "deleteUnreferencedLoop env b n bd od st = (res', st')"
        using IH(1) st1(1) Inr True by (simp add: deleteUnreferencedLoop.simps [of env b n bd od st])
      moreover have "objects st' = without (set (take (Suc k) (r # rs))) (objects st)"
        using IH(4) st1(3) by (simp add: without_simps Un_commute)
      moreover have sizes: "sizesOf st (take (Suc j) (r # rs)) = sz + sizesOf st1 (take j rs)" for j
        using sz st1(4) by (simp add: sizesOf_def)
      moreover have "bd + sizesOf st (take j (r # rs)) < b \<or> od + of_nat j < n" if "j < Suc k" for j
      proof (cases j)
        case 0
        then show ?thesis using True by (simp add: sizesOf_def)
      next
        case (Suc i)
        then show ?thesis using IH(6) that unfolding Suc sizes by (simp add: algebra_simps)
      qed
      ultimately show ?thesis using IH st1(4)
        by (intro exI [of _ "Suc k"] exI [of _ res'] exI [of _ st']) (simp add: sizes [simplified] algebra_simps split: prod.splits)
    qed
  qed
qed

end
