(* ===== verification/Object_Guarantees.thy ===== *)
theory Object_Guarantees
  imports Object_Refs
begin

text \<open>
  What the object server promises: no operation breaks the list or the counters, an adjustment
  of reference counts happens completely or not at all, and the garbage collector deletes the
  oldest unreferenced objects and nothing else.
\<close>

section \<open>Every operation keeps the invariant\<close>

lemma emptyServer_inv: "storeInv (emptyServer env files) []"
  by (simp add: storeInv_def emptyServer_def unrefList_def refsOf_def countersOk_def tally_def)

lemma newObjectServer_inv:
  assumes "distinct (map fst found)"
  shows "\<exists>st rs. newObjectServer env files found = Inr st \<and> storeInv st rs \<and> \<not> lockHeld st \<and> set (map fst (objects st)) = fst ` set found"
proof -
  have "storeInv st rs \<Longrightarrow> distinct (map fst found) \<Longrightarrow> fst ` set found \<inter> fst ` set (objects st) = {} \<Longrightarrow>
      \<exists>st' rs'. foldE (\<lambda>(h, sz). addNew env h sz) found st = Inr st' \<and> storeInv st' rs' \<and> lockHeld st' = lockHeld st
        \<and> fst ` set (objects st') = fst ` set (objects st) \<union> fst ` set found" for st rs found
  proof (induction found arbitrary: st rs)
    case (Cons e found)
    obtain h sz where e: "e = (h, sz)" by (cases e)
    have "map_of (objects st) h = None" using Cons.prems(3) e by (force simp: map_of_eq_None_iff)
    then obtain st1 where st1: "addNew env h sz st = Inr st1" "storeInv st1 (rs @ [freshRef st])"
      "objects st1 = objects st @ [(h, freshRef st)]" "lockHeld st1 = lockHeld st"
      using addNew_spec [OF Cons.prems(1)] by blast
    have "fst ` set found \<inter> fst ` set (objects st1) = {}" using Cons.prems(2,3) e st1(3) by auto
    then show ?case using Cons.IH [OF st1(2)] Cons.prems(2) e st1 by auto
  qed auto
  from this [OF emptyServer_inv assms, of env files] show ?thesis
    by (auto simp: newObjectServer_def emptyServer_def)
qed

lemma addOrCompareOnce_inv:
  "addOrCompareOnce env d name st = Inr (isNew, st') \<Longrightarrow> \<exists>x. st' = st\<lparr>disk := x\<rparr>"
  by (intro exI [of _ "disk st'"]) (auto simp: addOrCompareOnce_def split: option.splits disk_file.splits if_splits)

lemma addObject_inv:
  assumes "storeInv st rs"
  shows "\<exists>res st' rs'. addObject env sha512 readError stream len expected st = Inr (res, st') \<and> storeInv st' rs'
    \<and> lockHeld st' = lockHeld st \<and> (\<forall>h c. refcountOf st h = Some c \<longrightarrow> refcountOf st' h = Some c)
    \<and> (\<forall>h isNew. res = Inr (h, isNew) \<longrightarrow> map_of (objects st') h \<noteq> None)"
proof (cases "readObject sha512 readError stream len expected")
  case (Inl e)
  then show ?thesis using assms by (auto simp: addObject_def)
next
  case (Inr p)
  obtain h d where p: "p = (h, d)" by (cases p)
  show ?thesis
  proof (cases "addOrCompareOnce env d (objectPath env h) st")
    case (Inl e)
    then have "addObject env sha512 readError stream len expected st = Inr (Inl e, st)"
      using Inr p by (simp add: addObject_def)
    then show ?thesis using assms by auto
  next
    fix q assume q: "addOrCompareOnce env d (objectPath env h) st = Inr q"
    obtain isNew st1 where st1: "q = (isNew, st1)" by (cases q)
    from addOrCompareOnce_inv [OF q [unfolded st1]] obtain disk' where "st1 = st\<lparr>disk := disk'\<rparr>" ..
    then have x: "q = (isNew, st\<lparr>disk := disk'\<rparr>)" by (simp add: st1)
    have inv: "storeInv (st\<lparr>disk := disk'\<rparr>) rs" using assms by simp
    show ?thesis
    proof (cases "map_of (objects st) h")
      case None
      obtain st' where st': "addNew env h (of_nat (length d)) (st\<lparr>disk := disk'\<rparr>) = Inr st'" "storeInv st' (rs @ [freshRef st])"
        "objects st' = objects st @ [(h, freshRef st)]" "lockHeld st' = lockHeld st"
        "\<forall>r. r \<noteq> freshRef st \<longrightarrow> refcount (memory st' r) = refcount (memory st r)"
        using addNew_spec [OF inv, of h env "of_nat (length d)"] None by auto
      have "refcountOf st' k = Some c" if known: "refcountOf st k = Some c" for k c
      proof -
        obtain r where r: "map_of (objects st) k = Some r" "c = refcount (memory st r)"
          using known by (auto simp: refcountOf_def)
        then have "(k, r) \<in> set (objects st)" by (simp add: map_of_SomeD)
        then have "r \<noteq> freshRef st" using assms by (auto simp: storeInv_def)
        then show ?thesis using r st'(3,5) by (simp add: refcountOf_def)
      qed
      moreover have "addObject env sha512 readError stream len expected st = Inr (Inr (h, isNew), st')"
        using Inr p q x None st'(1) by (simp add: addObject_def)
      moreover have "map_of (objects st') h \<noteq> None" using None st'(3) by simp
      ultimately show ?thesis using st'(2,4) by auto
    next
      case (Some r)
      have "addObject env sha512 readError stream len expected st = Inr (Inr (h, isNew), st\<lparr>disk := disk'\<rparr>)"
        using Inr p q x Some by (simp add: addObject_def)
      then show ?thesis using inv Some by (auto simp: refcountOf_def)
    qed
  qed
qed

lemma commitObject_inv:
  assumes "storeInv st rs" and "commitObject env callback h st = Inr (err, st')"
  shows "\<exists>rs'. storeInv st' rs'" "lockHeld st' = lockHeld st"
proof -
  have "(\<exists>rs'. storeInv st' rs') \<and> lockHeld st' = lockHeld st"
  proof (cases "disk st (stashPath env h)")
    case None
    then show ?thesis using assms by (auto simp: commitObject_def split: sum.splits if_splits)
  next
    case (Some f)
    show ?thesis
    proof (cases f)
      case NonFile
      then show ?thesis using assms Some by (auto simp: commitObject_def)
    next
      case (PlainFile content)
      show ?thesis
      proof (cases "map_of (objects st) h")
        case None
        obtain st1 where st1: "addNew env h (of_nat (length content)) st = Inr st1" "storeInv st1 (rs @ [freshRef st])"
          "lockHeld st1 = lockHeld st" using addNew_spec [OF assms(1) None] by blast
        from assms(1) have "\<exists>rs. storeInv st rs" by blast
        then show ?thesis using assms(2) Some PlainFile None st1
          by (auto simp: commitObject_def split: if_splits)
      next
        case (Some r)
        then show ?thesis using assms \<open>disk st (stashPath env h) = Some f\<close> PlainFile
          by (auto simp: commitObject_def split: if_splits)
      qed
    qed
  qed
  then show "\<exists>rs'. storeInv st' rs'" "lockHeld st' = lockHeld st" by blast+
qed

lemma map_of_without:
  assumes "distinct (map fst t)"
  shows "map_of (without X t) h = (case map_of t h of None \<Rightarrow> None | Some r \<Rightarrow> if r \<in> X then None else Some r)"
  using assms by (induction t) (auto simp: without_def map_of_eq_None_iff split: option.splits dest: map_of_SomeD)

lemma without_refcountOf:
  assumes "storeInv st rs" and "objects st' = without X (objects st)"
    and "\<forall>x. refcount (memory st' x) = refcount (memory st x) \<and> obj_size (memory st' x) = obj_size (memory st x)"
  shows "refcountOf st' h = (if \<exists>r\<in>X. map_of (objects st) h = Some r then None else refcountOf st h)"
proof -
  have "distinct (map fst (objects st))" using assms(1) by (simp add: storeInv_def)
  then show ?thesis using assms(2,3) by (cases "map_of (objects st) h") (simp_all add: refcountOf_def map_of_without)
qed

lemma deleteUnreferenced_spec:
  assumes "storeInv st rs"
  shows "\<exists>k bytesDeleted objectsDeleted err st'.
    deleteUnreferenced env percentage b st = ((bytesDeleted, objectsDeleted, err), st')
    \<and> k \<le> length rs \<and> storeInv st' (drop k rs)
    \<and> (\<forall>h. refcountOf st' h = (if \<exists>r\<in>set (take k rs). map_of (objects st) h = Some r then None else refcountOf st h))
    \<and> (\<forall>j<k. sizesOf st (take j rs) < b \<or> of_nat j < ucast percentage * numUnreferenced st div 100)
    \<and> (err = None \<longrightarrow> bytesDeleted = sizesOf st (take k rs) \<and> objectsDeleted = of_nat k
         \<and> b \<le> bytesDeleted \<and> ucast percentage * numUnreferenced st div 100 \<le> objectsDeleted)
    \<and> (err = Some NoMoreObjects \<longrightarrow> k = length rs) \<and> err \<in> {None, Some NoMoreObjects, Some DiskError}"
proof -
  obtain k res st' where k: "deleteUnreferencedLoop env b (ucast percentage * numUnreferenced st div 100) 0 0 st = (res, st')"
    "k \<le> length rs" "storeInv st' (drop k rs)" "objects st' = without (set (take k rs)) (objects st)"
    "\<forall>x. refcount (memory st' x) = refcount (memory st x) \<and> obj_size (memory st' x) = obj_size (memory st x)"
    "\<forall>j<k. 0 + sizesOf st (take j rs) < b \<or> 0 + of_nat j < ucast percentage * numUnreferenced st div 100"
    "case res of (bd', od', err) \<Rightarrow>
       (err = None \<longrightarrow> bd' = 0 + sizesOf st (take k rs) \<and> od' = 0 + of_nat k \<and> b \<le> bd'
          \<and> ucast percentage * numUnreferenced st div 100 \<le> od')
       \<and> (err = Some NoMoreObjects \<longrightarrow> k = length rs) \<and> err \<in> {None, Some NoMoreObjects, Some DiskError}"
    using deleteUnreferencedLoop_spec [OF assms, of env b "ucast percentage * numUnreferenced st div 100" 0 0] by blast
  obtain bd od err where res: "res = (bd, od, err)" by (cases res)
  show ?thesis
  proof (intro exI conjI)
    show "deleteUnreferenced env percentage b st = ((bd, od, err), st')" using k(1) res by (simp add: deleteUnreferenced_def)
    show "\<forall>h. refcountOf st' h = (if \<exists>r\<in>set (take k rs). map_of (objects st) h = Some r then None else refcountOf st h)"
      using without_refcountOf [OF assms k(4,5)] by blast
  qed (use k res in auto)
qed

lemma bytesToCollect_defined:
  "(\<forall>free. spaceMetrics env \<noteq> Some (free, 0)) \<Longrightarrow> \<exists>b. bytesToCollect env st = Inr b"
  by (auto simp: bytesToCollect_def Let_def split: option.splits)

lemma garbageCollector_spec:
  assumes "storeInv st rs" and "\<forall>free. spaceMetrics env \<noteq> Some (free, 0)"
  shows "\<exists>res st' k. garbageCollector env st = Inr (res, st') \<and> k \<le> length rs \<and> storeInv st' (drop k rs)
    \<and> (\<forall>h. refcountOf st' h = (if \<exists>r\<in>set (take k rs). map_of (objects st) h = Some r then None else refcountOf st h))"
proof -
  let ?st = "st\<lparr>lastGarbageCollection := clock env\<rparr>"
  obtain b where b: "bytesToCollect env ?st = Inr b" using bytesToCollect_defined [OF assms(2)] by blast
  consider "clock env - lastGarbageCollection st < 10 ^ 9" | "\<not> clock env - lastGarbageCollection st < 10 ^ 9" "b < 1"
    | "\<not> clock env - lastGarbageCollection st < 10 ^ 9" "\<not> b < 1" by blast
  then show ?thesis
  proof cases
    case 1
    then show ?thesis using assms(1) by (intro exI [of _ "Inr 0"] exI [of _ st] exI [of _ "0 :: nat"]) (simp add: garbageCollector_def)
  next
    case 2
    then show ?thesis using assms(1) b
      by (intro exI [of _ "Inr 0"] exI [of _ ?st] exI [of _ "0 :: nat"]) (simp add: garbageCollector_def refcountOf_def)
  next
    case 3
    have inv: "storeInv ?st rs" using assms(1) by simp
    obtain k bd od err st' where d: "deleteUnreferenced env 0 b ?st = ((bd, od, err), st')" "k \<le> length rs" "storeInv st' (drop k rs)"
      "\<forall>h. refcountOf st' h = (if \<exists>r\<in>set (take k rs). map_of (objects ?st) h = Some r then None else refcountOf ?st h)"
      using deleteUnreferenced_spec [OF inv, of env 0 b] by blast
    obtain res where "garbageCollector env st = Inr (res, st')"
      using 3 b d(1) by (cases err) (simp_all add: garbageCollector_def)
    moreover have "refcountOf ?st h = refcountOf st h" for h by (simp add: refcountOf_def)
    ultimately show ?thesis using d(2-4) by (intro exI [of _ res] exI [of _ st'] exI [of _ k]) simp
  qed
qed

text \<open>The states an object server can reach. What the machine does may differ from step to step.\<close>

inductive storeReach :: "(u8 list \<Rightarrow> hash) \<Rightarrow> object_server \<Rightarrow> bool" for sha512 where
  start: "newObjectServer env files found = Inr st \<Longrightarrow> distinct (map fst found) \<Longrightarrow> storeReach sha512 st"
| add: "storeReach sha512 st \<Longrightarrow> \<not> lockHeld st \<Longrightarrow>
    addObject env sha512 readError stream len expected st = Inr (res, st') \<Longrightarrow> storeReach sha512 st'"
| commit: "storeReach sha512 st \<Longrightarrow> \<not> lockHeld st \<Longrightarrow> commitObject env callback h st = Inr (err, st') \<Longrightarrow> storeReach sha512 st'"
| stash: "storeReach sha512 st \<Longrightarrow> \<not> lockHeld st \<Longrightarrow>
    stashOrVerifyObject env sha512 readError stream len expected st = (out, st') \<Longrightarrow> storeReach sha512 st'"
| unstash: "storeReach sha512 st \<Longrightarrow> \<not> lockHeld st \<Longrightarrow> deleteStashedObject env h st = (err, st') \<Longrightarrow> storeReach sha512 st'"
| adjust: "storeReach sha512 st \<Longrightarrow> \<not> lockHeld st \<Longrightarrow>
    \<forall>x\<in>refsOf st. unat (refcount (memory st x)) + length hashes < 2 ^ 64 \<Longrightarrow>
    adjustRefcounts increment (hashes, iterErr) st = Inr (err, st') \<Longrightarrow> storeReach sha512 st'"
| delete: "storeReach sha512 st \<Longrightarrow> \<not> lockHeld st \<Longrightarrow> deleteObject env h st = (err, st') \<Longrightarrow> storeReach sha512 st'"
| collect: "storeReach sha512 st \<Longrightarrow> \<not> lockHeld st \<Longrightarrow> deleteUnreferenced env percentage b st = (out, st') \<Longrightarrow> storeReach sha512 st'"
| gc: "storeReach sha512 st \<Longrightarrow> \<not> lockHeld st \<Longrightarrow> garbageCollector env st = Inr (res, st') \<Longrightarrow> storeReach sha512 st'"

lemma stashOrVerifyObject_inv:
  assumes "storeInv st rs" and "stashOrVerifyObject env sha512 readError stream len expected st = (out, st')"
  shows "storeInv st' rs"
proof -
  have "storeInv (snd (stashOrVerifyObject env sha512 readError stream len expected st)) rs"
    using assms(1)
    by (simp add: stashOrVerifyObject_def split: sum.split prod.split option.split disk_file.split)
      (auto dest!: addOrCompareOnce_inv)
  then show ?thesis using assms(2) by simp
qed

lemma deleteObject_inv:
  assumes "storeInv st rs" and "deleteObject env h st = (err, st')"
  shows "\<exists>rs'. storeInv st' rs'"
proof (cases "map_of (objects st) h")
  case None
  then show ?thesis using assms by (auto simp: deleteObject_def)
next
  case (Some r)
  then show ?thesis using deleteObject_spec [OF assms(1) Some, of env] assms(2) by auto
qed

lemma garbageCollector_inv:
  assumes "storeInv st rs" and "garbageCollector env st = Inr (res, st')"
  shows "\<exists>rs'. storeInv st' rs'"
proof (cases "\<exists>free. spaceMetrics env = Some (free, 0)")
  case False
  then show ?thesis using garbageCollector_spec [OF assms(1), of env] assms(2) by auto
next
  case True
  then have "clock env - lastGarbageCollection st < 10 ^ 9"
    using assms(2) by (auto simp: garbageCollector_def bytesToCollect_def split: if_splits)
  then show ?thesis using assms by (auto simp: garbageCollector_def)
qed

lemma storeReach_inv: "storeReach sha512 st \<Longrightarrow> \<exists>rs. storeInv st rs"
proof (induction rule: storeReach.induct)
  case (start env files found st)
  then show ?case using newObjectServer_inv [of found env files] by auto
next
  case (add st env readError stream len expected res st')
  then show ?case using addObject_inv [of st _ env sha512 readError stream len expected] by fastforce
next
  case (commit st env callback h err st')
  then show ?case using commitObject_inv by blast
next
  case (stash st env readError stream len expected out st')
  then show ?case using stashOrVerifyObject_inv by blast
next
  case (unstash st env h err st')
  then show ?case by (auto simp: deleteStashedObject_def split: if_splits)
next
  case (adjust st hashes increment iterErr err st')
  then show ?case using adjustRefcounts_spec [of st _ increment hashes iterErr] by fastforce
next
  case (delete st env h err st')
  then show ?case using deleteObject_inv by blast
next
  case (collect st env percentage b out st')
  then show ?case using deleteUnreferenced_spec [of st _ env percentage b] by fastforce
next
  case (gc st env res st')
  then show ?case using garbageCollector_inv by blast
qed

section \<open>Listing\<close>

lemma walkObjects_chain:
  "chain (\<lambda>r. newerUnreferenced (mem r)) p rs \<Longrightarrow> length rs \<le> fuel \<Longrightarrow>
   walkObjects fuel mem p table = Some (foldl (\<lambda>t r. putTable (obj_hash (mem r)) (obj_size (mem r)) t) table rs)"
proof (induction rs arbitrary: p fuel table)
  case (Cons r rs)
  then obtain n where "fuel = Suc n" by (cases fuel) auto
  then show ?case using Cons by auto
qed simp

lemma map_of_foldl_putTable:
  "map_of (foldl (\<lambda>t r. putTable (key r) (val r) t) table rs) h =
     (case find (\<lambda>r. key r = h) (rev rs) of None \<Rightarrow> map_of table h | Some r \<Rightarrow> Some (val r))"
  by (induction rs rule: rev_induct) (auto simp: map_of_putTable)

lemma listUnreferenced_spec:
  assumes "storeInv st rs"
  shows "\<exists>table. listUnreferenced (length (objects st)) st = Some table
    \<and> (\<forall>h. map_of table h = (case map_of (objects st) h of None \<Rightarrow> None
         | Some r \<Rightarrow> if refcount (memory st r) = 0 then Some (obj_size (memory st r)) else None))"
proof -
  let ?table = "foldl (\<lambda>t r. putTable (obj_hash (memory st r)) (obj_size (memory st r)) t) [] rs"
  have l: "chain (\<lambda>r. newerUnreferenced (memory st r)) (oldestUnreferenced st) rs" "distinct rs"
    using assms by (simp_all add: storeInv_def unrefList_def linked_def)
  have "card (set rs) \<le> card (set (objects st))"
    using storeInv_listed [OF assms] card_image_le [of "set (objects st)" snd]
    by (intro order_trans [OF card_mono [of "refsOf st" "set rs"]]) (auto simp: refsOf_def)
  then have "length rs \<le> length (objects st)"
    using l(2) distinct_card [of rs] card_length [of "objects st"] by simp
  then have "listUnreferenced (length (objects st)) st = Some ?table"
    using walkObjects_chain [OF l(1)] by (simp add: listUnreferenced_def)
  moreover have "map_of ?table h = (case map_of (objects st) h of None \<Rightarrow> None
      | Some r \<Rightarrow> if refcount (memory st r) = 0 then Some (obj_size (memory st r)) else None)" for h
  proof (cases "find (\<lambda>r. obj_hash (memory st r) = h) (rev rs)")
    case None
    then have "r \<notin> set rs" if "map_of (objects st) h = Some r" for r
      using storeInv_lookup(2) [OF assms that] by (auto simp: find_None_iff)
    then show ?thesis using None storeInv_listed [OF assms] storeInv_lookup(1) [OF assms]
      by (auto simp: map_of_foldl_putTable split: option.split)
  next
    case (Some r)
    then obtain i where "i < length (rev rs)" "obj_hash (memory st (rev rs ! i)) = h" "r = rev rs ! i"
      unfolding find_Some_iff by blast
    then have "r \<in> set rs" "obj_hash (memory st r) = h" using nth_mem [of i "rev rs"] by simp_all
    moreover from this have "map_of (objects st) h = Some r"
      using storeInv_known [OF assms] storeInv_listed [OF assms] by auto
    ultimately show ?thesis using Some storeInv_listed [OF assms] by (simp add: map_of_foldl_putTable)
  qed
  ultimately show ?thesis by blast
qed

section \<open>Properties\<close>

text \<open>
  C16. Every state the object server can reach is well formed: its table has one object for every
  hash and every object carries its hash, the list of unreferenced objects has exactly the
  objects with count zero, so that listing it gives their sizes, and the seven counters are
  the sums over the objects they are documented to be.
\<close>

theorem object_server_well_formed:
  assumes "storeReach sha512 st"
  shows "(\<exists>rs. storeInv st rs)
    \<and> (\<exists>table. listUnreferenced (length (objects st)) st = Some table
        \<and> (\<forall>h. map_of table h = (case map_of (objects st) h of None \<Rightarrow> None
             | Some r \<Rightarrow> if refcount (memory st r) = 0 then Some (obj_size (memory st r)) else None)))"
  using storeReach_inv [OF assms] listUnreferenced_spec by blast

text \<open>
  C9. Adjusting the reference counts of the objects of an iterator happens completely or not at
  all, and never panics. It succeeds if and only if the iterator does, every object is known,
  and, when counts go down, every count covers the occurrences of its object; then every count
  changes by the number of occurrences. Otherwise all counts are as before.
\<close>

theorem adjust_all_or_nothing:
  assumes "storeReach sha512 st" and "\<forall>x\<in>refsOf st. unat (refcount (memory st x)) + length hashes < 2 ^ 64"
  shows "\<exists>err st'. adjustRefcounts increment (hashes, iterErr) st = Inr (err, st')
    \<and> (err = None \<longleftrightarrow> iterErr = None
        \<and> (\<forall>h\<in>set hashes. case refcountOf st h of None \<Rightarrow> False | Some c \<Rightarrow> increment \<or> count_list hashes h \<le> unat c))
    \<and> (\<forall>h. refcountOf st' h =
         (if err \<noteq> None then refcountOf st h
          else map_option (\<lambda>c. if increment then c + of_nat (count_list hashes h) else c - of_nat (count_list hashes h))
                 (refcountOf st h)))"
proof -
  obtain rs where "storeInv st rs" using storeReach_inv [OF assms(1)] by blast
  from adjustRefcounts_spec [OF this assms(2), where iterErr = iterErr] show ?thesis by blast
qed

text \<open>
  C10. Collecting garbage deletes unreferenced objects only, the longest unreferenced first and
  no more than asked for: what is deleted is an initial part of the list of unreferenced
  objects, before its last object was deleted the demand for bytes or for objects was not met,
  and when no error is reported it is met. All other objects stay with their counts.
\<close>

theorem collector_takes_oldest_unreferenced:
  assumes "storeReach sha512 st"
  shows "\<exists>rs k bytesDeleted objectsDeleted err st'. unrefList st rs
    \<and> deleteUnreferenced env percentage b st = ((bytesDeleted, objectsDeleted, err), st')
    \<and> (\<forall>h. refcountOf st' h = (if \<exists>r\<in>set (take k rs). map_of (objects st) h = Some r then None else refcountOf st h))
    \<and> (\<forall>r\<in>set (take k rs). refcount (memory st r) = 0)
    \<and> (\<forall>j<k. sizesOf st (take j rs) < b \<or> of_nat j < ucast percentage * numUnreferenced st div 100)
    \<and> (err = None \<longrightarrow> bytesDeleted = sizesOf st (take k rs) \<and> objectsDeleted = of_nat k
         \<and> b \<le> bytesDeleted \<and> ucast percentage * numUnreferenced st div 100 \<le> objectsDeleted)"
proof -
  obtain rs where inv: "storeInv st rs" using storeReach_inv [OF assms(1)] by blast
  have l: "unrefList st rs" using inv by (simp add: storeInv_def)
  have z: "\<forall>r\<in>set (take k rs). refcount (memory st r) = 0" for k
    using storeInv_listed [OF inv] by (auto dest: in_set_takeD)
  from deleteUnreferenced_spec [OF inv, of env percentage b] z l show ?thesis by blast
qed

text \<open>Deleting an object that is not known returns with the lock held.\<close>

lemma deleteObject_unknown_keeps_lock:
  "map_of (objects st) h = None \<Longrightarrow> deleteObject env h st = (Some UnknownObject, st\<lparr>lockHeld := True\<rparr>)"
  by (simp add: deleteObject_def)

text \<open>Committing a stashed object that is known already calls a callback that may not be set.\<close>

lemma commitObject_nil_callback:
  "disk st (stashPath env h) = Some (PlainFile c) \<Longrightarrow> \<not> mkdirFails env (objectPath env h)
   \<Longrightarrow> map_of (objects st) h = Some r \<Longrightarrow> commitObject env False h st = Inl NilDereference"
  by (simp add: commitObject_def)

text \<open>Comparing an object with a file finds every difference.\<close>

lemma collisionLoop_iff: "length data \<le> length rest \<Longrightarrow> collisionLoop chunk data rest \<longleftrightarrow> take (length data) rest = data"
proof (induction chunk data rest rule: collisionLoop.induct)
  case (1 chunk data rest)
  let ?n = "readCount chunk data rest"
  have n: "?n \<le> length data" if "data \<noteq> []" using that "1.prems"
    by (cases data) (auto simp: readCount_def Let_def buflen_def min_def max_def)
  show ?case
  proof (cases "data = [] \<or> rest = []")
    case False
    have "take (length data) rest = data \<longleftrightarrow>
        take ?n rest = take ?n data \<and> take (length data - ?n) (drop ?n rest) = drop ?n data"
    proof -
      have "take (length data) rest = take ?n rest @ take (length data - ?n) (drop ?n rest)"
        using n False take_add [of ?n "length data - ?n" rest] by simp
      moreover have "length (take ?n rest) = length (take ?n data)" using n False "1.prems" by simp
      ultimately show ?thesis using append_eq_append_conv [of "take ?n rest" "take ?n data"] by (metis append_take_drop_id)
    qed
    then show ?thesis using False n "1.IH" "1.prems" by (subst collisionLoop.simps) auto
  qed (use "1.prems" in \<open>subst collisionLoop.simps, auto\<close>)
qed

section \<open>Examples\<close>

definition exampleStoreEnv :: store_env where
  "exampleStoreEnv = \<lparr>BaseDirectory = ''/objects'', mkdirFails = (\<lambda>_. False), writeFails = (\<lambda>_. False),
     removeFails = (\<lambda>_. False), renameFails = (\<lambda>_. False), readChunk = id, spaceMetrics = None, clock = 0,
     cleanupStartPercent = 95, cleanupStartSize = 0, cleanupStopPercent = 90, cleanupStopSize = 0\<rparr>"

definition exampleStore :: object_server where
  "exampleStore = (case newObjectServer exampleStoreEnv Map.empty [([1], 5), ([2], 7)] of Inr st \<Rightarrow> st)"

lemma exampleStore_new: "newObjectServer exampleStoreEnv Map.empty [([1], 5), ([2], 7)] = Inr exampleStore"
  using newObjectServer_inv [of "[([1], 5), ([2], 7)]" exampleStoreEnv Map.empty] by (auto simp: exampleStore_def)

lemma exampleStore_reach: "storeReach sha512 exampleStore"
  by (rule storeReach.start [OF exampleStore_new]) simp

lemma exampleStore_objects:
  "objects exampleStore = [([1], 0), ([2], 1)]" "refcount (memory exampleStore r) = 0"
  by (simp_all add: exampleStore_def newObjectServer_def emptyServer_def addNew_def addUnreferenced_def updObj_def Let_def)

theorem object_server_well_formed_witness:
  "\<exists>table. listUnreferenced (length (objects exampleStore)) exampleStore = Some table"
  using object_server_well_formed [OF exampleStore_reach] by blast

theorem adjust_all_or_nothing_witness:
  "(\<exists>st'. adjustRefcounts True ([[1], [2], [1]], None) exampleStore = Inr (None, st')
      \<and> refcountOf st' [1] = Some 2 \<and> refcountOf st' [2] = Some 1)
   \<and> (\<exists>err st'. adjustRefcounts True ([[1], [3]], None) exampleStore = Inr (Some err, st') \<and> refcountOf st' [1] = Some 0)"
proof -
  have b: "\<forall>x\<in>refsOf exampleStore. unat (refcount (memory exampleStore x)) + length hashes < 2 ^ 64" if "length hashes < 4" for hashes :: "hash list"
    using that by (simp add: exampleStore_objects)
  have c: "refcountOf exampleStore [1] = Some 0" "refcountOf exampleStore [2] = Some 0" "refcountOf exampleStore [3] = None"
    by (simp_all add: refcountOf_def exampleStore_objects)
  from adjust_all_or_nothing [OF exampleStore_reach b, of "[[1], [2], [1]]" True None]
    adjust_all_or_nothing [OF exampleStore_reach b, of "[[1], [3]]" True None]
  show ?thesis by (auto simp: c)
qed

theorem collector_takes_oldest_unreferenced_witness:
  "\<exists>rs k bytesDeleted objectsDeleted err st'. unrefList exampleStore rs
     \<and> deleteUnreferenced exampleStoreEnv 50 5 exampleStore = ((bytesDeleted, objectsDeleted, err), st')
     \<and> (\<forall>j<k. sizesOf exampleStore (take j rs) < 5 \<or> of_nat j < ucast (50 :: u8) * numUnreferenced exampleStore div 100)"
  using collector_takes_oldest_unreferenced [OF exampleStore_reach, of exampleStoreEnv 50 5] by blast

end
