(* ===== verification/Image_Database.thy ===== *)
theory Image_Database
  imports Object_Guarantees File_Walks
begin

text \<open>
  The image data base of the image server, \<^verbatim>\<open>imageserver/scanner\<close>, on top of the object server:
  images are added, expire and are deleted, and every image counts as a reference to the
  objects of its files. What the machine does (the clock, calls that fail, checksums) is
  an argument. A time is in nanoseconds and the zero time is \<open>0\<close>. An operation that gives up
  the lock while it writes a file is split where it does, so that others come in between.
\<close>

section \<open>Images\<close>

record annotation =
  ann_Object :: "hash option"
  ann_URL :: string

record db_image =
  im_BuildBranch :: string
  im_BuildCommitId :: string
  im_CreatedBy :: string
  im_CreatedFor :: string
  im_FileSystem :: file_system
  im_ReleaseNotes :: "annotation option"
  im_BuildLog :: "annotation option"
  im_CreatedOn :: int
  im_ExpiresAt :: int
  im_OwnerGroups :: "string list"
  im_OwnerUsers :: "string list"
  im_Tags :: "string \<rightharpoonup> string"

text \<open>The objects \<^verbatim>\<open>forEachObject\<close> yields, in order, and \<^verbatim>\<open>listObjects\<close> lists.\<close>

fun inodeObject :: "u64 \<times> generic_inode option \<Rightarrow> hash list" where
  "inodeObject (_, Some (RegularInode r)) = (if ri_Size r > 0 then [ri_Hash r] else [])"
| "inodeObject _ = []"

definition annotationObject :: "annotation option \<Rightarrow> hash list" where
  "annotationObject ann = (case ann of None \<Rightarrow> [] | Some a \<Rightarrow> (case ann_Object a of None \<Rightarrow> [] | Some h \<Rightarrow> [h]))"

definition forEachObject :: "db_image \<Rightarrow> hash list" where
  "forEachObject img =
     concat (map inodeObject (InodeTable (im_FileSystem img)))
       @ annotationObject (im_ReleaseNotes img) @ annotationObject (im_BuildLog img)"

text \<open>
  \<^verbatim>\<open>listMissingObjects\<close> asks for 1024 objects at a time; the answers are the same as for all at
  once, up to the first error.
\<close>

definition listMissingOf :: "store_env \<Rightarrow> hash list \<Rightarrow> object_server \<Rightarrow> store_error + hash list" where
  "listMissingOf env hashes store =
     (case checkObjects env hashes store of
        Inl err \<Rightarrow> Inl err
      | Inr sizes \<Rightarrow> Inr (map fst (filter (\<lambda>(h, sz). sz < 1) (zip hashes sizes))))"

function listMissingLoop ::
    "store_env \<Rightarrow> hash list \<Rightarrow> hash list \<Rightarrow> object_server \<Rightarrow> store_error + hash list" where
  "listMissingLoop env hashes missing store =
     (if length hashes < 1024 then map_sum id ((@) missing) (listMissingOf env hashes store)
      else
        (case listMissingOf env (take 1024 hashes) store of
           Inl err \<Rightarrow> Inl err
         | Inr found \<Rightarrow> listMissingLoop env (drop 1024 hashes) (missing @ found) store))"
  by pat_completeness auto
termination by (relation "measure (\<lambda>(env, hashes, missing, store). length hashes)") auto

declare listMissingLoop.simps [simp del]

definition listMissingObjects :: "store_env \<Rightarrow> db_image \<Rightarrow> object_server \<Rightarrow> store_error + hash list" where
  "listMissingObjects env img store = listMissingLoop env (forEachObject img) [] store"

definition verifyObjects :: "store_env \<Rightarrow> db_image \<Rightarrow> object_server \<Rightarrow> bool" where
  "verifyObjects env img store \<longleftrightarrow> listMissingObjects env img store = Inr []"

text \<open>
  \<^verbatim>\<open>Verify\<close>: no two entries may share a computed inode. The result is the error and the numbers
  seen; the error of a subdirectory is not looked at.
\<close>

fun verifyDirectory :: "directory_inode \<Rightarrow> u64 set \<Rightarrow> bool \<times> u64 set"
  and verifyEntries :: "directory_entry list \<Rightarrow> u64 set \<Rightarrow> bool \<times> u64 set"
  where
  "verifyDirectory (Directory entries _ _ _) seen = verifyEntries entries seen"
| "verifyEntries [] seen = (True, seen)"
| "verifyEntries (DirectoryEntry name inum (Some (ComputedRegularInode c)) # entries) seen =
     (if inum \<in> seen then (False, seen) else verifyEntries entries (insert inum seen))"
| "verifyEntries (DirectoryEntry name inum (Some (DirectoryInode d)) # entries) seen =
     verifyEntries entries (snd (verifyDirectory d seen))"
| "verifyEntries (DirectoryEntry name inum _ # entries) seen = verifyEntries entries seen"

definition verifyImage :: "db_image \<Rightarrow> bool" where
  "verifyImage img = fst (verifyDirectory (fs_root (im_FileSystem img)) {})"

section \<open>The data base\<close>

record image_type =
  it_computedFiles :: "computed_file list"
  it_fileChecksum :: "u8 list"
  it_image :: db_image
  it_modifying :: bool
  it_ownerGroups :: "string set"
  it_ownerUsers :: "string set"
  it_usageEstimate :: u64

type_synonym directory_metadata = string

text \<open>
  \<open>imageMap\<close> has \<open>None\<close> for an image that is being written. Files are by pathname; deleting an
  image leaves an empty file, \<open>Some None\<close>.
\<close>

record image_database =
  directoryMap :: "(string \<times> directory_metadata) list"
  imageMap :: "(string \<times> image_type option) list"
  imageFiles :: "string \<rightharpoonup> db_image option"
  objectServer :: object_server

record db_env =
  db_BaseDirectory :: string
  MaximumExpirationDuration :: int
  MaximumExpirationDurationPrivileged :: int
  ReplicationMaster :: string
  db_clock :: int
  imageChecksum :: "db_image \<Rightarrow> u8 list"
  imageWriteFails :: "string \<Rightarrow> bool"
  truncateFails :: "string \<Rightarrow> bool"
  unlinkFails :: "string \<Rightarrow> bool"
  directoryFails :: "string \<Rightarrow> bool"
  metadataFails :: "string \<Rightarrow> bool"
  objectEnv :: store_env

datatype db_error =
    NoAuthInfo
  | NoAccess
  | NoMetadata
  | NoMembership
  | AlreadyBeingWritten
  | AlreadyExists
  | DuplicateComputedInode
  | PreviouslyDeleted
  | ImageNotFound
  | BeingWritten
  | DoesNotExpire
  | BeingModified
  | CannotShortenExpiration
  | NotPermittedNonExpiring
  | ExpirationTooLong
  | DirectoryExists
  | DirectoryUnknown
  | CannotCreateRoot
  | ObjectsNotAvailable
  | CannotRestoreYet
  | HmacMismatch
  | FileError
  | ObjectError store_error

definition imagePath :: "db_env \<Rightarrow> string \<Rightarrow> string" where
  "imagePath env name = pathJoin (db_BaseDirectory env) name"

definition imageIsExpired :: "db_env \<Rightarrow> db_image \<Rightarrow> bool" where
  "imageIsExpired env img \<longleftrightarrow> im_ExpiresAt img \<noteq> 0 \<and> im_ExpiresAt img - db_clock env \<le> 0"

text \<open>\<^verbatim>\<open>writeImage\<close> of a file: a temporary file is linked, if it must be new, and renamed.\<close>

definition writeImageFile ::
    "db_env \<Rightarrow> string \<Rightarrow> db_image \<Rightarrow> bool \<Rightarrow> image_database \<Rightarrow> db_error + (u8 list \<times> image_database)" where
  "writeImageFile env filename img exclusive st =
     (if imageWriteFails env filename then Inl FileError
      else if exclusive \<and> imageFiles st filename \<noteq> None then Inl AlreadyExists
      else Inr (imageChecksum env img, st\<lparr>imageFiles := (imageFiles st)(filename \<mapsto> Some img)\<rparr>))"

definition getImageWithLock :: "string \<Rightarrow> image_database \<Rightarrow> db_image option \<times> bool" where
  "getImageWithLock name st =
     (case map_of (imageMap st) name of
        None \<Rightarrow> (None, False)
      | Some None \<Rightarrow> (None, True)
      | Some (Some it) \<Rightarrow> (Some (it_image it), True))"

section \<open>Access\<close>

definition ownerGroupOk :: "auth_information \<Rightarrow> directory_metadata \<Rightarrow> bool" where
  "ownerGroupOk auth ownerGroup \<longleftrightarrow> ownerGroup \<noteq> '''' \<and> ownerGroup \<in> GroupList auth"

definition checkPermissions ::
    "string \<Rightarrow> image_type option \<Rightarrow> auth_information option \<Rightarrow> image_database \<Rightarrow> db_error option" where
  "checkPermissions imageName img authInfo st =
     (case authInfo of
        None \<Rightarrow> Some NoAuthInfo
      | Some auth \<Rightarrow>
          if HaveMethodAccess auth then None
          else if Username auth \<noteq> ''''
            \<and> (case img of
                 None \<Rightarrow> False
               | Some it \<Rightarrow>
                   im_CreatedBy (it_image it) = Username auth \<or> im_CreatedFor (it_image it) = Username auth
                   \<or> Username auth \<in> it_ownerUsers it \<or> GroupList auth \<inter> it_ownerGroups it \<noteq> {})
          then None
          else
            (case map_of (directoryMap st) (pathDir imageName) of
               None \<Rightarrow> Some NoMetadata
             | Some ownerGroup \<Rightarrow> if ownerGroupOk auth ownerGroup then None else Some NoAccess))"

definition checkChown :: "string \<Rightarrow> string \<Rightarrow> auth_information option \<Rightarrow> image_database \<Rightarrow> db_error option" where
  "checkChown dirname ownerGroup authInfo st =
     (case authInfo of
        None \<Rightarrow> Some NoAuthInfo
      | Some auth \<Rightarrow>
          if HaveMethodAccess auth then None
          else if (case map_of (directoryMap st) (pathDir dirname) of
                     None \<Rightarrow> False | Some g \<Rightarrow> ownerGroupOk auth g) then None
          else if ownerGroup \<notin> GroupList auth then Some NoMembership
          else
            (case map_of (directoryMap st) dirname of
               None \<Rightarrow> Some NoMetadata
             | Some g \<Rightarrow> if ownerGroupOk auth g then None else Some NoAccess))"

text \<open>An absent caller is looked at without a test when the expiration is removed.\<close>

definition checkExpiration :: "db_env \<Rightarrow> int \<Rightarrow> auth_information option \<Rightarrow> panic + db_error option" where
  "checkExpiration env expiresAt authInfo =
     (if expiresAt = 0 then
        (case authInfo of
           None \<Rightarrow> Inl NilDereference
         | Some auth \<Rightarrow>
             Inr (if HaveMethodAccess auth \<or> Username auth = '''' then None else Some NotPermittedNonExpiring))
      else
        (let expiresIn = expiresAt - db_clock env
         in case authInfo of
              Some auth \<Rightarrow>
                if HaveMethodAccess auth then
                  Inr (if Username auth = '''' then None
                       else if expiresIn > MaximumExpirationDurationPrivileged env then Some ExpirationTooLong
                       else None)
                else Inr (if expiresIn > MaximumExpirationDuration env then Some ExpirationTooLong else None)
            | None \<Rightarrow> Inr (if expiresIn > MaximumExpirationDuration env then Some ExpirationTooLong else None)))"

section \<open>Adding images\<close>

definition prepareToWrite :: "string \<Rightarrow> image_database \<Rightarrow> db_error + image_database" where
  "prepareToWrite name st =
     (case map_of (imageMap st) name of
        Some None \<Rightarrow> Inl AlreadyBeingWritten
      | Some (Some _) \<Rightarrow> Inl AlreadyExists
      | None \<Rightarrow> Inr (st\<lparr>imageMap := putTable name None (imageMap st)\<rparr>))"

text \<open>Writing an image whose name is reserved, and counting the references to its objects.\<close>

definition writeImage ::
    "db_env \<Rightarrow> string \<Rightarrow> db_image \<Rightarrow> bool \<Rightarrow> image_database \<Rightarrow> panic + (db_error option \<times> image_database)" where
  "writeImage env name img exclusive st =
     (case writeImageFile env (imagePath env name) img exclusive st of
        Inl err \<Rightarrow> Inr (Some err, st)
      | Inr (fileChecksum, st) \<Rightarrow>
          bindP (adjustRefcounts True (forEachObject img, None) (objectServer st)) (\<lambda>(err, store).
            let st = st\<lparr>objectServer := store\<rparr>
            in case err of
                 Some e \<Rightarrow> Inr (Some (ObjectError e), st\<lparr>imageFiles := (imageFiles st)(imagePath env name := None)\<rparr>)
               | None \<Rightarrow>
                   Inr (None, st\<lparr>imageMap := putTable name
                     (Some \<lparr>it_computedFiles = GetComputedFiles (im_FileSystem img), it_fileChecksum = fileChecksum,
                            it_image = img, it_modifying = False, it_ownerGroups = set (im_OwnerGroups img),
                            it_ownerUsers = set (im_OwnerUsers img), it_usageEstimate = estimateUsage (im_FileSystem img) 0\<rparr>)
                     (imageMap st)\<rparr>)))"

definition forgetName :: "string \<Rightarrow> image_database \<Rightarrow> image_database" where
  "forgetName name st = st\<lparr>imageMap := deleteKey name (imageMap st)\<rparr>"

text \<open>
  \<^verbatim>\<open>addImage\<close> up to the reservation of the name, and after it. An image that is expired already is
  left out silently.
\<close>

definition addImageBegin :: "db_env \<Rightarrow> db_image \<Rightarrow> string \<Rightarrow> image_database \<Rightarrow> (db_error option + image_database)" where
  "addImageBegin env img name st =
     (if \<not> verifyImage img then Inl (Some DuplicateComputedInode)
      else if imageIsExpired env img then Inl None
      else (case prepareToWrite name st of Inl err \<Rightarrow> Inl (Some err) | Inr st \<Rightarrow> Inr st))"

definition addImageFinish ::
    "db_env \<Rightarrow> db_image \<Rightarrow> string \<Rightarrow> auth_information option \<Rightarrow> image_database
       \<Rightarrow> panic + (db_error option \<times> image_database)" where
  "addImageFinish env img name authInfo st =
     (case checkPermissions name None authInfo st of
        Some err \<Rightarrow> Inr (Some err, forgetName name st)
      | None \<Rightarrow>
          bindP (writeImage env name img (ReplicationMaster env = '''') st) (\<lambda>(err, st).
            case err of
              None \<Rightarrow> Inr (None, st)
            | Some e \<Rightarrow> Inr (Some (if e = AlreadyExists then PreviouslyDeleted else e), forgetName name st)))"

definition addImage ::
    "db_env \<Rightarrow> db_image \<Rightarrow> string \<Rightarrow> auth_information option \<Rightarrow> image_database
       \<Rightarrow> panic + (db_error option \<times> image_database)" where
  "addImage env img name authInfo st =
     (case addImageBegin env img name st of
        Inl res \<Rightarrow> Inr (res, st)
      | Inr st \<Rightarrow> addImageFinish env img name authInfo st)"

section \<open>Deleting and expiring images\<close>

definition deleteImageAndUpdateUnreferencedObjectsList :: "string \<Rightarrow> image_database \<Rightarrow> panic + image_database" where
  "deleteImageAndUpdateUnreferencedObjectsList name st =
     (case fst (getImageWithLock name st) of
        None \<Rightarrow> Inr st
      | Some img \<Rightarrow>
          (let st = st\<lparr>imageMap := deleteKey name (imageMap st)\<rparr>
           in bindP (adjustRefcounts False (forEachObject img, None) (objectServer st)) (\<lambda>(err, store).
                Inr (st\<lparr>objectServer := store\<rparr>))))"

definition deleteImage ::
    "db_env \<Rightarrow> string \<Rightarrow> auth_information option \<Rightarrow> image_database \<Rightarrow> panic + (db_error option \<times> image_database)" where
  "deleteImage env name authInfo st =
     (case map_of (imageMap st) name of
        None \<Rightarrow> Inr (Some ImageNotFound, st)
      | Some None \<Rightarrow> Inr (Some BeingWritten, st)
      | Some (Some it) \<Rightarrow>
          (case checkPermissions name (Some it) authInfo st of
             Some err \<Rightarrow> Inr (Some err, st)
           | None \<Rightarrow>
               if truncateFails env (imagePath env name) \<or> imageFiles st (imagePath env name) = None
               then Inr (Some FileError, st)
               else
                 bindP (deleteImageAndUpdateUnreferencedObjectsList name
                          (st\<lparr>imageFiles := (imageFiles st)(imagePath env name \<mapsto> None)\<rparr>))
                   (\<lambda>st. Inr (None, st))))"

text \<open>
  The expiration of an image runs when its timer does, with the image the timer was set for; it
  deletes what has the name at that time. The file is renamed and removed.
\<close>

definition expireImage :: "db_env \<Rightarrow> db_image \<Rightarrow> string \<Rightarrow> image_database \<Rightarrow> panic + image_database" where
  "expireImage env img name st =
     (if im_ExpiresAt img = 0 \<or> im_ExpiresAt img - db_clock env > 0 then Inr st
      else
        deleteImageAndUpdateUnreferencedObjectsList name
          (if unlinkFails env (imagePath env name) then st
           else st\<lparr>imageFiles := (imageFiles st)(imagePath env name := None)\<rparr>))"

section \<open>Changing the expiration\<close>

definition updateImage :: "string \<Rightarrow> (image_type \<Rightarrow> image_type) \<Rightarrow> image_database \<Rightarrow> image_database" where
  "updateImage name f st =
     (case map_of (imageMap st) name of
        Some (Some it) \<Rightarrow> st\<lparr>imageMap := putTable name (Some (f it)) (imageMap st)\<rparr>
      | _ \<Rightarrow> st)"

definition updateModified :: "string \<Rightarrow> (image_type \<Rightarrow> image_type) \<Rightarrow> image_database \<Rightarrow> image_database" where
  "updateModified name f st = updateImage name (\<lambda>it. if it_modifying it then f it else it) st"

text \<open>With the lock: the image is marked as being modified.\<close>

definition changeExpirationBegin ::
    "db_env \<Rightarrow> string \<Rightarrow> int \<Rightarrow> auth_information option \<Rightarrow> image_database
       \<Rightarrow> panic + (db_error + (image_type \<times> image_database))" where
  "changeExpirationBegin env name expiresAt authInfo st =
     bindP (checkExpiration env expiresAt authInfo) (\<lambda>err.
       case err of
         Some e \<Rightarrow> Inr (Inl e)
       | None \<Rightarrow>
           (case map_of (imageMap st) name of
              Some (Some it) \<Rightarrow>
                (case checkPermissions name (Some it) authInfo st of
                   Some e \<Rightarrow> Inr (Inl e)
                 | None \<Rightarrow>
                     Inr (if im_ExpiresAt (it_image it) = 0 then Inl DoesNotExpire
                          else if it_modifying it then Inl BeingModified
                          else Inr (it, updateImage name (\<lambda>it. it\<lparr>it_modifying := True\<rparr>) st)))
            | _ \<Rightarrow> Inr (Inl ImageNotFound)))"

text \<open>Without the lock: the file is written, if the time is later.\<close>

definition writeNewExpiration ::
    "db_env \<Rightarrow> string \<Rightarrow> db_image \<Rightarrow> int \<Rightarrow> image_database \<Rightarrow> db_error + (u8 list \<times> image_database)" where
  "writeNewExpiration env name oldImage expiresAt st =
     writeImageFile env (imagePath env name) (oldImage\<lparr>im_ExpiresAt := expiresAt\<rparr>) False st"

definition isLater :: "int \<Rightarrow> db_image \<Rightarrow> bool" where
  "isLater expiresAt img \<longleftrightarrow> expiresAt = 0 \<or> expiresAt > im_ExpiresAt img"

text \<open>
  With the lock again: the image object gets its time and is no longer modified. It is the object
  with which the change began; if the image was deleted meanwhile, nothing of the data base changes.
\<close>

definition changeExpirationEnd :: "string \<Rightarrow> image_type \<Rightarrow> int \<Rightarrow> (db_error + u8 list) option \<Rightarrow> image_database \<Rightarrow> (db_error + bool) \<times> image_database" where
  "changeExpirationEnd name it expiresAt written st =
     (let unmark = (\<lambda>it. it\<lparr>it_modifying := False\<rparr>)
      in case written of
           Some (Inl e) \<Rightarrow> (Inl e, updateModified name unmark st)
         | Some (Inr fileChecksum) \<Rightarrow>
             (Inr True, updateModified name (\<lambda>it. it\<lparr>it_modifying := False, it_fileChecksum := fileChecksum,
                it_image := (it_image it)\<lparr>im_ExpiresAt := expiresAt\<rparr>\<rparr>) st)
         | None \<Rightarrow>
             (if expiresAt < im_ExpiresAt (it_image it) then Inl CannotShortenExpiration else Inr False,
              updateModified name unmark st))"

definition changeImageExpiration ::
    "db_env \<Rightarrow> string \<Rightarrow> int \<Rightarrow> auth_information option \<Rightarrow> image_database
       \<Rightarrow> panic + ((db_error + bool) \<times> image_database)" where
  "changeImageExpiration env name expiresAt authInfo st =
     bindP (changeExpirationBegin env name expiresAt authInfo st) (\<lambda>begun.
       case begun of
         Inl e \<Rightarrow> Inr (Inl e, st)
       | Inr (it, st) \<Rightarrow>
           if isLater expiresAt (it_image it) then
             (case writeNewExpiration env name (it_image it) expiresAt st of
                Inl e \<Rightarrow> Inr (changeExpirationEnd name it expiresAt (Some (Inl e)) st)
              | Inr (fileChecksum, st) \<Rightarrow> Inr (changeExpirationEnd name it expiresAt (Some (Inr fileChecksum)) st))
           else Inr (changeExpirationEnd name it expiresAt None st))"

section \<open>Restoring images\<close>

text \<open>
  An archive decodes to a name and an image, or not; \<open>checksumMatches\<close> tells whether its code fits
  the secret of this server.
\<close>

definition restoredExpiration :: "db_env \<Rightarrow> db_image \<Rightarrow> int \<Rightarrow> auth_information option \<Rightarrow> panic + (db_error + db_image)" where
  "restoredExpiration env img reqExpiresAt authInfo =
     (if im_ExpiresAt img = 0 then Inr (Inr img)
      else if im_ExpiresAt img - db_clock env \<ge> 0 then Inr (Inl CannotRestoreYet)
      else bindP (checkExpiration env reqExpiresAt authInfo) (\<lambda>err.
             Inr (case err of Some e \<Rightarrow> Inl e | None \<Rightarrow> Inr (img\<lparr>im_ExpiresAt := reqExpiresAt\<rparr>))))"

definition writeRestored ::
    "db_env \<Rightarrow> string \<Rightarrow> db_image \<Rightarrow> bool \<Rightarrow> auth_information option \<Rightarrow> image_database
       \<Rightarrow> panic + (db_error option \<times> image_database)" where
  "writeRestored env name img checksumMatches authInfo st =
     bindP (if checksumMatches then Inr img
            else (case authInfo of
                    None \<Rightarrow> Inl NilDereference
                  | Some auth \<Rightarrow> Inr (img\<lparr>im_CreatedBy := Username auth, im_CreatedOn := db_clock env\<rparr>)))
       (\<lambda>img.
          bindP (writeImage env name img (\<not> checksumMatches) st) (\<lambda>(err, st).
            case err of
              None \<Rightarrow> Inr (None, st)
            | Some e \<Rightarrow>
                Inr (Some (if \<not> checksumMatches \<and> e = AlreadyExists then HmacMismatch else e), forgetName name st)))"

definition restoreImageFromArchive ::
    "db_env \<Rightarrow> (string \<times> db_image) option \<Rightarrow> bool \<Rightarrow> int \<Rightarrow> auth_information option \<Rightarrow> image_database
       \<Rightarrow> panic + (db_error option \<times> image_database)" where
  "restoreImageFromArchive env decoded checksumMatches reqExpiresAt authInfo st =
     (case decoded of
        None \<Rightarrow> Inr (Some FileError, st)
      | Some (name, img) \<Rightarrow>
          if \<not> verifyImage img then Inr (Some DuplicateComputedInode, st)
          else if \<not> verifyObjects (objectEnv env) img (objectServer st) then Inr (Some ObjectsNotAvailable, st)
          else
            bindP (restoredExpiration env img reqExpiresAt authInfo) (\<lambda>checked.
              case checked of
                Inl e \<Rightarrow> Inr (Some e, st)
              | Inr img \<Rightarrow>
                  (case prepareToWrite name st of
                     Inl e \<Rightarrow> Inr (Some e, st)
                   | Inr st \<Rightarrow> writeRestored env name img checksumMatches authInfo st)))"

section \<open>Loading images\<close>

text \<open>
  \<^verbatim>\<open>getMissingObjects\<close>: the master answers with the contents of the missing objects, one after the
  other, any of which may fail.
\<close>

fun addMissing ::
    "store_env \<Rightarrow> (u8 list \<Rightarrow> hash) \<Rightarrow> hash list \<Rightarrow> u8 list option list \<Rightarrow> object_server
       \<Rightarrow> panic + (db_error option \<times> object_server)" where
  "addMissing env sha512 [] answers store = Inr (None, store)"
| "addMissing env sha512 (h # hs) (Some content # answers) store =
     bindP (addObject env sha512 False content (of_nat (length content)) (Some h) store) (\<lambda>(res, store).
       case res of
         Inl e \<Rightarrow> Inr (Some (ObjectError e), store)
       | Inr _ \<Rightarrow> addMissing env sha512 hs answers store)"
| "addMissing env sha512 (h # hs) _ store = Inr (Some FileError, store)"

definition getMissingObjects ::
    "store_env \<Rightarrow> (u8 list \<Rightarrow> hash) \<Rightarrow> (hash list \<Rightarrow> u8 list option list option) \<Rightarrow> db_image \<Rightarrow> object_server
       \<Rightarrow> panic + (db_error option \<times> object_server)" where
  "getMissingObjects env sha512 master img store =
     (case listMissingObjects env img store of
        Inl e \<Rightarrow> Inr (Some (ObjectError e), store)
      | Inr missing \<Rightarrow>
          if missing = [] then Inr (None, store)
          else (case master missing of
                  None \<Rightarrow> Inr (Some ObjectsNotAvailable, store)
                | Some answers \<Rightarrow> addMissing env sha512 missing answers store))"

definition supplyObjects ::
    "db_env \<Rightarrow> (u8 list \<Rightarrow> hash) \<Rightarrow> (hash list \<Rightarrow> u8 list option list option) \<Rightarrow> db_image \<Rightarrow> object_server
       \<Rightarrow> panic + (db_error option \<times> object_server)" where
  "supplyObjects env sha512 master img store =
     (case listMissingObjects (objectEnv env) img store of
        Inl e \<Rightarrow> Inr (Some (ObjectError e), store)
      | Inr missing \<Rightarrow>
          if missing = [] then Inr (None, store)
          else if ReplicationMaster env = '''' then Inr (Some ObjectsNotAvailable, store)
          else getMissingObjects (objectEnv env) sha512 master img store)"

text \<open>
  One image file at the start of the server. \<open>corrupt\<close> tells which files do not decode, \<open>rebuild\<close>
  restores the pointers of a decoded tree. The owners of the image are not restored.
\<close>

definition loadFile ::
    "db_env \<Rightarrow> (u8 list \<Rightarrow> hash) \<Rightarrow> (hash list \<Rightarrow> u8 list option list option) \<Rightarrow> (string \<Rightarrow> bool)
       \<Rightarrow> (file_system \<Rightarrow> file_system) \<Rightarrow> string \<Rightarrow> image_database \<Rightarrow> panic + (db_error option \<times> image_database)" where
  "loadFile env sha512 master corrupt rebuild filename st =
     (let pathname = imagePath env filename;
          removed = (if unlinkFails env pathname then (Some FileError, st)
                     else (None, st\<lparr>imageFiles := (imageFiles st)(pathname := None)\<rparr>))
      in if filename = '''' then Inl IndexOutOfRange
         else if last filename = CHR ''~'' then Inr removed
         else
           (case (if corrupt filename then None else imageFiles st pathname) of
              Some (Some img) \<Rightarrow>
                if imageIsExpired env img then Inr removed
                else
                  bindP (supplyObjects env sha512 master img (objectServer st)) (\<lambda>(err, store).
                    let st = st\<lparr>objectServer := store\<rparr>;
                        img = img\<lparr>im_FileSystem := rebuild (im_FileSystem img)\<rparr>
                    in if err \<noteq> None then Inr (err, st)
                       else if \<not> verifyImage img then Inr (Some DuplicateComputedInode, st)
                       else
                         bindP (adjustRefcounts True (forEachObject img, None) (objectServer st)) (\<lambda>(err, store).
                           let st = st\<lparr>objectServer := store\<rparr>
                           in case err of
                                Some e \<Rightarrow> Inr (Some (ObjectError e), st)
                              | None \<Rightarrow>
                                  Inr (None, st\<lparr>imageMap := putTable filename
                                    (Some \<lparr>it_computedFiles = GetComputedFiles (im_FileSystem img),
                                           it_fileChecksum = imageChecksum env img, it_image = img, it_modifying = False,
                                           it_ownerGroups = {}, it_ownerUsers = {},
                                           it_usageEstimate = estimateUsage (im_FileSystem img) 0\<rparr>)
                                    (imageMap st)\<rparr>)))
            | _ \<Rightarrow>
                if ReplicationMaster env = '''' then Inr (Some FileError, st)
                else Inr removed))"

section \<open>Directories\<close>

definition updateDirectoryMetadata ::
    "db_env \<Rightarrow> string \<Rightarrow> directory_metadata \<Rightarrow> image_database \<Rightarrow> db_error option \<times> image_database" where
  "updateDirectoryMetadata env name metadata st =
     (let old = map_of (directoryMap st) name
      in if old = Some metadata then (None, st)
         else if (metadata \<noteq> '''' \<or> old \<noteq> None) \<and> metadataFails env name then (Some FileError, st)
         else (None, st\<lparr>directoryMap := putTable name metadata (directoryMap st)\<rparr>))"

definition makeDirectoryWithLock ::
    "db_env \<Rightarrow> string \<Rightarrow> directory_metadata \<Rightarrow> auth_information option \<Rightarrow> bool \<Rightarrow> image_database
       \<Rightarrow> db_error option \<times> image_database" where
  "makeDirectoryWithLock env dirname metadata authInfo userRpc st =
     (let name = pathClean dirname;
          checked =
            (if \<not> userRpc then Inr metadata
             else
               (case authInfo of
                  None \<Rightarrow> Inl NoAuthInfo
                | Some auth \<Rightarrow>
                    if map_of (directoryMap st) name \<noteq> None then Inl DirectoryExists
                    else
                      (case map_of (directoryMap st) (pathDir name) of
                         None \<Rightarrow> Inl NoMetadata
                       | Some parent \<Rightarrow>
                           if \<not> HaveMethodAccess auth \<and> parent = '''' then Inl NoAccess
                           else if \<not> HaveMethodAccess auth \<and> parent \<notin> GroupList auth then Inl NoMembership
                           else Inr parent)))
      in case checked of
           Inl e \<Rightarrow> (Some e, st)
         | Inr metadata \<Rightarrow>
             if directoryFails env name then (Some FileError, st)
             else updateDirectoryMetadata env name metadata st)"

text \<open>The recursion goes to the parent; it runs out of \<open>fuel\<close> where the code runs out of stack.\<close>

fun makeDirectoryAllRecurse ::
    "nat \<Rightarrow> db_env \<Rightarrow> string \<Rightarrow> auth_information option \<Rightarrow> image_database \<Rightarrow> (db_error option \<times> image_database) option" where
  "makeDirectoryAllRecurse 0 env dirname authInfo st = None"
| "makeDirectoryAllRecurse (Suc fuel) env dirname authInfo st =
     (if dirname = ''.'' then Some (None, st)
      else if map_of (directoryMap st) dirname \<noteq> None then Some (None, st)
      else
        (case makeDirectoryAllRecurse fuel env (pathDir dirname) authInfo st of
           None \<Rightarrow> None
         | Some (Some e, st) \<Rightarrow> Some (Some e, st)
         | Some (None, st) \<Rightarrow> Some (makeDirectoryWithLock env dirname '''' authInfo True st)))"

definition makeDirectoryAll ::
    "nat \<Rightarrow> db_env \<Rightarrow> string \<Rightarrow> auth_information option \<Rightarrow> image_database \<Rightarrow> (db_error option \<times> image_database) option" where
  "makeDirectoryAll fuel env dirname authInfo st =
     (if dirname = ''.'' then Some (Some CannotCreateRoot, st)
      else makeDirectoryAllRecurse fuel env dirname authInfo st)"

definition chownDirectory ::
    "db_env \<Rightarrow> string \<Rightarrow> string \<Rightarrow> auth_information option \<Rightarrow> image_database \<Rightarrow> db_error option \<times> image_database" where
  "chownDirectory env dirname ownerGroup authInfo st =
     (let name = pathClean dirname
      in case map_of (directoryMap st) name of
           None \<Rightarrow> (Some NoMetadata, st)
         | Some _ \<Rightarrow>
             (case checkChown name ownerGroup authInfo st of
                Some e \<Rightarrow> (Some e, st)
              | None \<Rightarrow> updateDirectoryMetadata env name ownerGroup st))"

definition deleteDirectory ::
    "db_env \<Rightarrow> string \<Rightarrow> auth_information option \<Rightarrow> image_database \<Rightarrow> db_error option \<times> image_database" where
  "deleteDirectory env name authInfo st =
     (case authInfo of
        None \<Rightarrow> (Some NoAuthInfo, st)
      | Some _ \<Rightarrow>
          if map_of (directoryMap st) name = None then (Some DirectoryUnknown, st)
          else if directoryFails env name then (Some FileError, st)
          else (None, st\<lparr>directoryMap := deleteKey name (directoryMap st)\<rparr>))"

section \<open>Queries\<close>

definition checkImage :: "string \<Rightarrow> image_database \<Rightarrow> bool" where
  "checkImage name st \<longleftrightarrow> (case map_of (imageMap st) name of Some (Some _) \<Rightarrow> True | _ \<Rightarrow> False)"

text \<open>A tag matcher: every key must have one of the listed values.\<close>

definition matchEach :: "(string \<times> string list) list \<Rightarrow> (string \<rightharpoonup> string) \<Rightarrow> bool" where
  "matchEach matchTags tags \<longleftrightarrow>
     list_all (\<lambda>(key, vals). case tags key of None \<Rightarrow> False | Some v \<Rightarrow> v \<in> set vals) matchTags"

record find_request =
  fr_BuildCommitId :: string
  fr_DirectoryName :: string
  fr_IgnoreExpiringImages :: bool
  fr_TagsToMatch :: "(string \<times> string list) list"

definition wanted :: "find_request \<Rightarrow> string \<Rightarrow> db_image \<Rightarrow> bool" where
  "wanted req name img \<longleftrightarrow>
     \<not> (fr_IgnoreExpiringImages req \<and> im_ExpiresAt img \<noteq> 0)
     \<and> pathDir name = fr_DirectoryName req
     \<and> (fr_BuildCommitId req = '''' \<or> fr_BuildCommitId req = im_BuildCommitId img
        \<or> fr_BuildCommitId req = im_BuildBranch img)
     \<and> matchEach (fr_TagsToMatch req) (im_Tags img)"

definition findLatestStep :: "find_request \<Rightarrow> string \<times> int \<Rightarrow> string \<times> image_type option \<Rightarrow> string \<times> int" where
  "findLatestStep req best entry =
     (case entry of
        (name, Some it) \<Rightarrow>
          if wanted req name (it_image it) \<and> im_CreatedOn (it_image it) > snd best
          then (name, im_CreatedOn (it_image it)) else best
      | (_, None) \<Rightarrow> best)"

definition findLatestImage :: "find_request \<Rightarrow> image_database \<Rightarrow> db_error + string" where
  "findLatestImage req st =
     (if map_of (directoryMap st) (fr_DirectoryName req) = None then Inl DirectoryUnknown
      else Inr (fst (foldl (findLatestStep req) ('''', 0) (imageMap st))))"

definition newDirectoryMatcher :: "string \<Rightarrow> string \<Rightarrow> bool" where
  "newDirectoryMatcher directoryName name \<longleftrightarrow>
     (if directoryName = '''' \<or> directoryName = ''.'' then True
      else if last directoryName = CHR ''/'' then pathDir name = butlast directoryName
      else take (length directoryName + 1) name = directoryName @ ''/'')"

definition listImages :: "find_request \<Rightarrow> image_database \<Rightarrow> string list" where
  "listImages req st =
     map fst (filter (\<lambda>(name, img). case img of
         None \<Rightarrow> False
       | Some it \<Rightarrow>
           \<not> (fr_IgnoreExpiringImages req \<and> im_ExpiresAt (it_image it) \<noteq> 0)
           \<and> matchEach (fr_TagsToMatch req) (im_Tags (it_image it))
           \<and> newDirectoryMatcher (fr_DirectoryName req) name) (imageMap st))"

fun getImages :: "bool \<Rightarrow> string list \<Rightarrow> image_database \<Rightarrow> db_error + db_image option list" where
  "getImages ignoreMissing [] st = Inr []"
| "getImages ignoreMissing (name # names) st =
     (case fst (getImageWithLock name st) of
        None \<Rightarrow>
          if \<not> ignoreMissing then Inl ImageNotFound
          else map_sum id ((#) None) (getImages ignoreMissing names st)
      | Some img \<Rightarrow> map_sum id ((#) (Some img)) (getImages ignoreMissing names st))"

end
