(* ===== verification/Image_References.thy ===== *)
theory Image_References
  imports Image_Database
begin

text \<open>
  How the image data base and the object server work together: the references to an object
  are those of the images, so that the garbage collector leaves the objects of every image
  alone, whatever operations happen in between. The locale \<open>refcounter\<close> is what the data base
  relies on; a ledger is the list of the object lists that are counted.
\<close>

section \<open>Counting references\<close>

definition ledgerCount :: "hash list list \<Rightarrow> hash \<Rightarrow> nat" where
  "ledgerCount L h = (\<Sum>hs\<leftarrow>L. count_list hs h)"

lemma ledgerCount_simps [simp]:
  "ledgerCount [] h = 0" "ledgerCount (hs # L) h = count_list hs h + ledgerCount L h"
  "ledgerCount (L @ L') h = ledgerCount L h + ledgerCount L' h"
  by (simp_all add: ledgerCount_def)

locale refcounter =
  fixes good :: "'s \<Rightarrow> bool"
    and countOf :: "'s \<Rightarrow> hash \<Rightarrow> nat"
    and adjust :: "bool \<Rightarrow> hash list \<Rightarrow> 's \<Rightarrow> panic + ('e option \<times> 's)"
  assumes adjust_up: "good s \<Longrightarrow> (\<And>h. countOf s h + length hs < 2 ^ 64) \<Longrightarrow>
      \<exists>err s'. adjust True hs s = Inr (err, s') \<and> good s'
        \<and> (\<forall>h. countOf s' h = (if err = None then countOf s h + count_list hs h else countOf s h))"
    and adjust_down: "good s \<Longrightarrow> (\<And>h. count_list hs h \<le> countOf s h) \<Longrightarrow>
      \<exists>s'. adjust False hs s = Inr (None, s') \<and> good s' \<and> (\<forall>h. countOf s' h = countOf s h - count_list hs h)"
begin

definition balanced :: "'s \<Rightarrow> hash list list \<Rightarrow> bool" where
  "balanced s L \<longleftrightarrow> good s \<and> (\<forall>h. countOf s h = ledgerCount L h)"

lemma enter:
  assumes "balanced s L" and "\<And>h. ledgerCount L h + length hs < 2 ^ 64"
  shows "\<exists>err s'. adjust True hs s = Inr (err, s') \<and> balanced s' (if err = None then hs # L else L)"
  using adjust_up [of s hs] assms by (fastforce simp: balanced_def)

lemma leave:
  assumes "balanced s (L @ hs # L')"
  shows "\<exists>s'. adjust False hs s = Inr (None, s') \<and> balanced s' (L @ L')"
  using adjust_down [of s hs] assms by (fastforce simp: balanced_def)

lemma balanced_perm: "balanced s L \<Longrightarrow> (\<And>h. ledgerCount L' h = ledgerCount L h) \<Longrightarrow> balanced s L'"
  by (simp add: balanced_def)

end

definition storeGood :: "object_server \<Rightarrow> bool" where
  "storeGood store \<longleftrightarrow> (\<exists>rs. storeInv store rs)"

definition storeCount :: "object_server \<Rightarrow> hash \<Rightarrow> nat" where
  "storeCount store h = (case refcountOf store h of None \<Rightarrow> 0 | Some c \<Rightarrow> unat c)"

definition adjustStore :: "bool \<Rightarrow> hash list \<Rightarrow> object_server \<Rightarrow> panic + (store_error option \<times> object_server)" where
  "adjustStore increment hashes store = adjustRefcounts increment (hashes, None) store"

lemma storeCount_refs:
  assumes "storeInv store rs" and "x \<in> refsOf store"
  shows "unat (refcount (memory store x)) = storeCount store (obj_hash (memory store x))"
  using storeInv_known [OF assms] by (simp add: storeCount_def refcountOf_def)

lemma unat_u64: "unat (c :: u64) < 2 ^ 64"
  using unsigned_less [of c] by simp

interpretation objs: refcounter storeGood storeCount adjustStore
proof
  fix s :: object_server and hs :: "hash list"
  assume good: "storeGood s" and room: "\<And>h. storeCount s h + length hs < 2 ^ 64"
  obtain rs where inv: "storeInv s rs" using good by (auto simp: storeGood_def)
  have small: "\<forall>x\<in>refsOf s. unat (refcount (memory s x)) + length hs < 2 ^ 64"
    using storeCount_refs [OF inv] room by simp
  obtain err s' rs' where a: "adjustRefcounts True (hs, None) s = Inr (err, s')" "storeInv s' rs'"
    "err = None \<longleftrightarrow> (None :: store_error option) = None
      \<and> (\<forall>h\<in>set hs. case refcountOf s h of None \<Rightarrow> False | Some c \<Rightarrow> True \<or> count_list hs h \<le> unat c)"
    "\<forall>h. refcountOf s' h = (if err \<noteq> None then refcountOf s h
       else map_option (\<lambda>c. if True then c + of_nat (count_list hs h) else c - of_nat (count_list hs h)) (refcountOf s h))"
    using adjustRefcounts_spec [where increment = True and iterErr = None and hashes = hs, OF inv small] by blast
  have "storeCount s' h = (if err = None then storeCount s h + count_list hs h else storeCount s h)" for h
  proof (cases "refcountOf s h")
    case None
    then have "err = None \<Longrightarrow> h \<notin> set hs" using a(3) by auto
    then show ?thesis using None a(4) by (auto simp: storeCount_def count_list_0_iff)
  next
    case (Some c)
    have "count_list hs h \<le> length hs" by (rule count_le_length)
    then have "unat c + count_list hs h < 2 ^ 64" using room [of h] Some by (simp add: storeCount_def)
    then have "unat (c + of_nat (count_list hs h)) = unat c + count_list hs h"
      by (simp add: unat_word_ariths unat_of_nat)
    then show ?thesis using Some a(4) by (simp add: storeCount_def)
  qed
  then show "\<exists>err s'. adjustStore True hs s = Inr (err, s') \<and> storeGood s'
      \<and> (\<forall>h. storeCount s' h = (if err = None then storeCount s h + count_list hs h else storeCount s h))"
    using a(1,2) by (auto simp: adjustStore_def storeGood_def)
next
  fix s :: object_server and hs :: "hash list"
  assume good: "storeGood s" and have_refs: "\<And>h. count_list hs h \<le> storeCount s h"
  obtain rs where inv: "storeInv s rs" using good by (auto simp: storeGood_def)
  obtain err s' rs' where a: "adjustRefcounts False (hs, None) s = Inr (err, s')" "storeInv s' rs'"
    "err = None \<longleftrightarrow> (None :: store_error option) = None
      \<and> (\<forall>h\<in>set hs. case refcountOf s h of None \<Rightarrow> False | Some c \<Rightarrow> False \<or> count_list hs h \<le> unat c)"
    "\<forall>h. refcountOf s' h = (if err \<noteq> None then refcountOf s h
       else map_option (\<lambda>c. if False then c + of_nat (count_list hs h) else c - of_nat (count_list hs h)) (refcountOf s h))"
    using adjustRefcounts_spec [OF inv, where increment = False and iterErr = None and hashes = hs] by blast
  have "err = None" unfolding a(3)
  proof (intro conjI ballI refl)
    fix h assume "h \<in> set hs"
    then have "0 < count_list hs h" by (metis count_list_0_iff gr0I)
    then show "case refcountOf s h of None \<Rightarrow> False | Some c \<Rightarrow> False \<or> count_list hs h \<le> unat c"
      using have_refs [of h] by (simp add: storeCount_def split: option.splits)
  qed
  moreover have "storeCount s' h = storeCount s h - count_list hs h" for h
  proof (cases "refcountOf s h")
    case None
    then show ?thesis using a(4) \<open>err = None\<close> by (simp add: storeCount_def)
  next
    case (Some c)
    have le: "count_list hs h \<le> unat c" using have_refs [of h] Some by (simp add: storeCount_def)
    then have "count_list hs h < 2 ^ 64" using unat_u64 [of c] by simp
    then have n: "unat (of_nat (count_list hs h) :: u64) = count_list hs h" by (simp add: unat_of_nat)
    then have "unat (c - of_nat (count_list hs h)) = unat c - count_list hs h"
      using le unat_sub [of "of_nat (count_list hs h)" c] by (simp add: word_le_nat_alt)
    then show ?thesis using Some a(4) \<open>err = None\<close> by (simp add: storeCount_def)
  qed
  ultimately show "\<exists>s'. adjustStore False hs s = Inr (None, s') \<and> storeGood s' \<and> (\<forall>h. storeCount s' h = storeCount s h - count_list hs h)"
    using a(1,2) by (auto simp: adjustStore_def storeGood_def)
qed


section \<open>Operations of the object server that keep the counts\<close>

definition keeps :: "object_server \<Rightarrow> object_server \<Rightarrow> bool" where
  "keeps store store' \<longleftrightarrow> storeGood store' \<and> (\<forall>h. storeCount store' h = storeCount store h)"

lemma keeps_refl: "storeGood store \<Longrightarrow> keeps store store"
  by (simp add: keeps_def)

lemma keeps_trans: "keeps a b \<Longrightarrow> keeps b c \<Longrightarrow> keeps a c"
  by (simp add: keeps_def)

lemma keeps_good: "keeps a b \<Longrightarrow> storeGood b"
  by (simp add: keeps_def)

lemma storeGood_frame [simp]:
  "storeGood (st\<lparr>disk := d\<rparr>) = storeGood st" "storeGood (st\<lparr>lastGarbageCollection := t\<rparr>) = storeGood st"
  by (simp_all add: storeGood_def)

lemma keeps_disk [simp]: "keeps store (store'\<lparr>disk := d\<rparr>) = keeps store store'" "keeps (store\<lparr>disk := d\<rparr>) store' = keeps store store'"
  by (simp_all add: keeps_def storeCount_def refcountOf_def)

lemma addNew_keeps:
  assumes "storeGood st" and "map_of (objects st) h = None"
  shows "\<exists>st'. addNew env h sz st = Inr st' \<and> keeps st st' \<and> objects st' = objects st @ [(h, freshRef st)]"
proof -
  obtain rs where inv: "storeInv st rs" using assms(1) by (auto simp: storeGood_def)
  obtain st' where st': "addNew env h sz st = Inr st'" "storeInv st' (rs @ [freshRef st])"
    "objects st' = objects st @ [(h, freshRef st)]" "refcount (memory st' (freshRef st)) = 0"
    "\<forall>r. r \<noteq> freshRef st \<longrightarrow> refcount (memory st' r) = refcount (memory st r)"
    using addNew_spec [OF inv assms(2), of env sz] by blast
  have "storeCount st' k = storeCount st k" for k
  proof (cases "map_of (objects st) k")
    case None
    then show ?thesis using st'(3,4) by (simp add: storeCount_def refcountOf_def map_add_def)
  next
    case (Some r)
    then have "(k, r) \<in> set (objects st)" by (rule map_of_SomeD)
    then have "r \<noteq> freshRef st" using inv by (auto simp: storeInv_def)
    then show ?thesis using Some st'(3,5) by (simp add: storeCount_def refcountOf_def)
  qed
  then show ?thesis using st'(1-3) by (auto simp: keeps_def storeGood_def)
qed

lemma newObjectServer_keeps:
  assumes "distinct (map fst found)" and "newObjectServer env files found = Inr st"
  shows "keeps (emptyServer env files) st"
proof -
  have "storeGood store \<Longrightarrow> distinct (map fst found) \<Longrightarrow> fst ` set found \<inter> fst ` set (objects store) = {} \<Longrightarrow>
      \<exists>st. foldE (\<lambda>(h, sz). addNew env h sz) found store = Inr st \<and> keeps store st" for store found
  proof (induction found arbitrary: store)
    case (Cons e found)
    obtain h sz where e: "e = (h, sz)" by (cases e)
    have "map_of (objects store) h = None" using Cons.prems(3) e by (force simp: map_of_eq_None_iff)
    then obtain st1 where st1: "addNew env h sz store = Inr st1" "keeps store st1" "objects st1 = objects store @ [(h, freshRef store)]"
      using addNew_keeps [OF Cons.prems(1)] by blast
    have "fst ` set found \<inter> fst ` set (objects st1) = {}" using Cons.prems(2,3) e st1(3) by auto
    then show ?case using Cons.IH [OF keeps_good [OF st1(2)]] Cons.prems(2) e st1 keeps_trans [OF st1(2)] by auto
  qed (simp add: keeps_refl)
  moreover have "storeGood (emptyServer env files)" using emptyServer_inv storeGood_def by blast
  ultimately show ?thesis using assms by (force simp: newObjectServer_def emptyServer_def)
qed

lemma addObject_keeps:
  assumes "storeGood st"
  shows "\<exists>res st'. addObject env sha512 readError stream len expected st = Inr (res, st') \<and> keeps st st'"
proof (cases "readObject sha512 readError stream len expected")
  case (Inl e)
  then show ?thesis using keeps_refl [OF assms] by (simp add: addObject_def)
next
  case (Inr p)
  obtain h d where p: "p = (h, d)" by (cases p)
  show ?thesis
  proof (cases "addOrCompareOnce env d (objectPath env h) st")
    case (Inl e)
    then show ?thesis using Inr p keeps_refl [OF assms] by (simp add: addObject_def)
  next
    fix q assume q: "addOrCompareOnce env d (objectPath env h) st = Inr q"
    obtain isNew st1 where st1: "q = (isNew, st1)" by (cases q)
    from addOrCompareOnce_inv [OF q [unfolded st1]] obtain disk' where x: "st1 = st\<lparr>disk := disk'\<rparr>" ..
    show ?thesis
    proof (cases "map_of (objects st) h")
      case None
      then obtain st' where "addNew env h (of_nat (length d)) st1 = Inr st'" "keeps st1 st'"
        using addNew_keeps [of st1 h env] assms x by auto
      then show ?thesis using Inr p q st1 x None by (simp add: addObject_def)
    next
      case (Some r)
      then show ?thesis using Inr p q st1 x keeps_refl [OF assms] by (simp add: addObject_def)
    qed
  qed
qed

lemma commitObject_keeps:
  assumes "storeGood st" and "commitObject env callback h st = Inr (err, st')"
  shows "keeps st st'"
proof (cases "map_of (objects st) h = None")
  case True
  have st1: "\<exists>st1. addNew env h sz st = Inr st1 \<and> keeps st st1" for sz
    using addNew_keeps [OF assms(1) True] by blast
  show ?thesis
  proof (cases "disk st (stashPath env h)")
    case None
    then show ?thesis using assms keeps_refl [OF assms(1)] by (auto simp: commitObject_def split: sum.splits if_splits)
  next
    case (Some f)
    show ?thesis
    proof (cases f)
      case NonFile
      then show ?thesis using assms(2) keeps_refl [OF assms(1)] Some by (auto simp: commitObject_def)
    next
      case (PlainFile content)
      then obtain st1 where "addNew env h (of_nat (length content)) st = Inr st1" "keeps st st1" using st1 by blast
      then show ?thesis using assms(2) keeps_refl [OF assms(1)] Some PlainFile True
        by (auto simp: commitObject_def split: if_splits)
    qed
  qed
next
  case False
  then show ?thesis using assms(2) keeps_refl [OF assms(1)]
    by (auto simp: commitObject_def split: option.splits disk_file.splits sum.splits if_splits)
qed

lemma stashOrVerifyObject_keeps:
  assumes "storeGood st" and "stashOrVerifyObject env sha512 readError stream len expected st = (out, st')"
  shows "keeps st st'"
proof -
  have "keeps st (snd (stashOrVerifyObject env sha512 readError stream len expected st))"
    using keeps_refl [OF assms(1)]
    by (simp add: stashOrVerifyObject_def split: sum.split prod.split option.split disk_file.split)
      (auto dest!: addOrCompareOnce_inv)
  then show ?thesis using assms(2) by simp
qed

lemma deleteStashedObject_keeps:
  "storeGood st \<Longrightarrow> deleteStashedObject env h st = (err, st') \<Longrightarrow> keeps st st'"
  by (auto simp: deleteStashedObject_def keeps_refl split: if_splits)

lemma collection_keeps:
  assumes "storeInv st rs" and "storeInv st' (drop k rs)"
    and "\<forall>h. refcountOf st' h = (if \<exists>r\<in>set (take k rs). map_of (objects st) h = Some r then None else refcountOf st h)"
  shows "keeps st st'"
proof -
  have "storeCount st' h = storeCount st h" for h
  proof (cases "\<exists>r\<in>set (take k rs). map_of (objects st) h = Some r")
    case True
    then obtain r where r: "r \<in> set rs" "map_of (objects st) h = Some r" by (meson in_set_takeD)
    then have "refcountOf st h = Some 0" using storeInv_listed [OF assms(1)] by (simp add: refcountOf_def)
    then show ?thesis using True assms(3) by (simp add: storeCount_def)
  qed (use assms(3) in \<open>simp add: storeCount_def\<close>)
  then show ?thesis using assms(2) by (auto simp: keeps_def storeGood_def)
qed

lemma deleteUnreferenced_keeps:
  assumes "storeGood st" and "deleteUnreferenced env percentage b st = (out, st')"
  shows "keeps st st'"
proof -
  obtain rs where inv: "storeInv st rs" using assms(1) by (auto simp: storeGood_def)
  show ?thesis using deleteUnreferenced_spec [OF inv, of env percentage b] assms(2) by (auto intro: collection_keeps [OF inv])
qed

lemma garbageCollector_keeps:
  assumes "storeGood st" and "garbageCollector env st = Inr (res, st')"
  shows "keeps st st'"
proof (cases "\<exists>free. spaceMetrics env = Some (free, 0)")
  case False
  obtain rs where inv: "storeInv st rs" using assms(1) by (auto simp: storeGood_def)
  show ?thesis using garbageCollector_spec [OF inv, of env] assms(2) False by (auto intro: collection_keeps [OF inv])
next
  case True
  then have "clock env - lastGarbageCollection st < 10 ^ 9"
    using assms(2) by (auto simp: garbageCollector_def bytesToCollect_def split: if_splits)
  then show ?thesis using assms by (auto simp: garbageCollector_def keeps_refl)
qed

lemma addMissing_keeps:
  "storeGood st \<Longrightarrow> \<exists>err st'. addMissing env sha512 hs answers st = Inr (err, st') \<and> keeps st st'"
proof (induction env sha512 hs answers st rule: addMissing.induct)
  case (2 env sha512 h hs content answers store)
  obtain res st1 where st1: "addObject env sha512 False content (of_nat (length content)) (Some h) store = Inr (res, st1)" "keeps store st1"
    using addObject_keeps [OF "2.prems"] by blast
  show ?case
  proof (cases res)
    case (Inl e)
    then show ?thesis using st1 by simp
  next
    case (Inr b)
    obtain err st' where "addMissing env sha512 hs answers st1 = Inr (err, st')" "keeps st1 st'"
      using "2.IH" [of "(res, st1)" res st1 b] Inr st1(1) keeps_good [OF st1(2)] by auto
    then show ?thesis using Inr st1 keeps_trans [OF st1(2)] by auto
  qed
qed (auto simp: keeps_refl)

lemma supplyObjects_keeps:
  assumes "storeGood st"
  shows "\<exists>err st'. supplyObjects env sha512 master img st = Inr (err, st') \<and> keeps st st'"
  using addMissing_keeps [OF assms] keeps_refl [OF assms]
  by (auto simp: supplyObjects_def getMissingObjects_def split: sum.splits option.splits)


section \<open>The references of the images\<close>

definition imageLedger :: "(string \<times> image_type option) list \<Rightarrow> hash list list" where
  "imageLedger t = concat (map (\<lambda>e. case snd e of None \<Rightarrow> [] | Some it \<Rightarrow> [forEachObject (it_image it)]) t)"

lemma imageLedger_simps [simp]:
  "imageLedger [] = []" "imageLedger ((name, None) # t) = imageLedger t"
  "imageLedger ((name, Some it) # t) = forEachObject (it_image it) # imageLedger t"
  "imageLedger (t @ t') = imageLedger t @ imageLedger t'"
  by (simp_all add: imageLedger_def)

lemma imageLedger_positive:
  "(name, Some it) \<in> set t \<Longrightarrow> h \<in> set (forEachObject (it_image it)) \<Longrightarrow> 0 < ledgerCount (imageLedger t) h"
proof (induction t)
  case (Cons e t)
  have "0 < count_list (forEachObject (it_image it)) h" using Cons.prems(2) by (metis count_list_0_iff gr0I)
  then show ?case using Cons by (cases e; cases "snd e") auto
qed simp

definition databaseInv :: "image_database \<Rightarrow> bool" where
  "databaseInv st \<longleftrightarrow> distinct (map fst (imageMap st)) \<and> objs.balanced (objectServer st) (imageLedger (imageMap st))"

lemma table_new: "map_of t k = None \<Longrightarrow> putTable k v t = t @ [(k, v)]"
  by (induction t) (auto split: if_splits)

lemma table_renew: "map_of t k = None \<Longrightarrow> putTable k v (t @ [(k, w)]) = t @ [(k, v)]"
  by (induction t) (auto split: if_splits)

lemma table_split:
  assumes "map_of t k = Some v" and "distinct (map fst t)"
  obtains t1 t2 where "t = t1 @ (k, v) # t2" "\<And>v'. putTable k v' t = t1 @ (k, v') # t2" "deleteKey k t = t1 @ t2"
    "k \<notin> fst ` set t1" "k \<notin> fst ` set t2"
proof -
  obtain t1 t2 where t: "t = t1 @ (k, v) # t2" using split_list [OF map_of_SomeD [OF assms(1)]] by blast
  then have k: "k \<notin> fst ` set t1" "k \<notin> fst ` set t2" using assms(2) by auto
  have "putTable k v' (t1 @ (k, v) # t2) = t1 @ (k, v') # t2" for v' using k(1) by (induction t1) auto
  moreover have "filter (\<lambda>e. fst e \<noteq> k) t1 = t1" "filter (\<lambda>e. fst e \<noteq> k) t2 = t2"
    using k by (force simp: filter_id_conv)+
  then have "deleteKey k (t1 @ (k, v) # t2) = t1 @ t2" by (simp add: deleteKey_def)
  ultimately show thesis using that t k by blast
qed


definition room :: "db_image \<Rightarrow> image_database \<Rightarrow> bool" where
  "room img st \<longleftrightarrow> (\<forall>h. storeCount (objectServer st) h + length (forEachObject img) < 2 ^ 64)"

lemma databaseInv_frame [simp]:
  "databaseInv (st\<lparr>imageFiles := fs\<rparr>) = databaseInv st" "databaseInv (st\<lparr>directoryMap := ds\<rparr>) = databaseInv st"
  by (simp_all add: databaseInv_def)

lemma room_frame [simp]: "room img (st\<lparr>imageFiles := fs\<rparr>) = room img st" "room img (st\<lparr>imageMap := t\<rparr>) = room img st"
  by (simp_all add: room_def)

lemma databaseInv_good: "databaseInv st \<Longrightarrow> storeGood (objectServer st)"
  by (simp add: databaseInv_def objs.balanced_def)

lemma inv_store: "databaseInv st \<Longrightarrow> keeps (objectServer st) store \<Longrightarrow> databaseInv (st\<lparr>objectServer := store\<rparr>)"
  by (simp add: databaseInv_def objs.balanced_def keeps_def)

lemma inv_reserve:
  "databaseInv st \<Longrightarrow> map_of (imageMap st) name = None \<Longrightarrow> databaseInv (st\<lparr>imageMap := putTable name None (imageMap st)\<rparr>)"
  by (simp add: databaseInv_def) (simp add: table_new)

lemma inv_forget:
  assumes "databaseInv st" and "map_of (imageMap st) name = Some None"
  shows "databaseInv (forgetName name st)"
proof -
  have "distinct (map fst (imageMap st))" using assms(1) by (simp add: databaseInv_def)
  with assms(2) obtain t1 t2 where t: "imageMap st = t1 @ (name, None) # t2" "deleteKey name (imageMap st) = t1 @ t2"
    by (rule table_split) blast
  then show ?thesis using assms(1) by (simp add: databaseInv_def forgetName_def)
qed

lemma ledgerCount_enter:
  assumes "distinct (map fst t)" and "map_of t name = Some None \<or> map_of t name = None"
  shows "ledgerCount (imageLedger (putTable name (Some it) t)) h = ledgerCount (forEachObject (it_image it) # imageLedger t) h"
  using assms(2)
proof
  assume "map_of t name = Some None"
  then obtain t1 t2 where "t = t1 @ (name, None) # t2" "\<And>v'. putTable name v' t = t1 @ (name, v') # t2"
    using assms(1) by (rule table_split) blast
  then show ?thesis by simp
qed (simp add: table_new)

lemma inv_enter:
  assumes "databaseInv st" and "room img st" and "map_of (imageMap st) name = Some None \<or> map_of (imageMap st) name = None"
  shows "\<exists>err store. adjustRefcounts True (forEachObject img, None) (objectServer st) = Inr (err, store)
    \<and> (if err = None
       then \<forall>it. it_image it = img \<longrightarrow> databaseInv (st\<lparr>objectServer := store, imageMap := putTable name (Some it) (imageMap st)\<rparr>)
       else databaseInv (st\<lparr>objectServer := store\<rparr>))"
proof -
  have bal: "objs.balanced (objectServer st) (imageLedger (imageMap st))" and d: "distinct (map fst (imageMap st))"
    using assms(1) by (simp_all add: databaseInv_def)
  have "ledgerCount (imageLedger (imageMap st)) h + length (forEachObject img) < 2 ^ 64" for h
    using assms(2) bal by (simp add: room_def objs.balanced_def)
  from objs.enter [OF bal this] obtain err store where e: "adjustStore True (forEachObject img) (objectServer st) = Inr (err, store)"
    "objs.balanced store (if err = None then forEachObject img # imageLedger (imageMap st) else imageLedger (imageMap st))" by blast
  have "databaseInv (st\<lparr>objectServer := store, imageMap := putTable name (Some it) (imageMap st)\<rparr>)"
    if "err = None" "it_image it = img" for it
    using e(2) that d ledgerCount_enter [OF d assms(3), of it]
    by (simp add: databaseInv_def objs.balanced_def)
  moreover have "databaseInv (st\<lparr>objectServer := store\<rparr>)" if "err \<noteq> None"
    using e(2) that d by (simp add: databaseInv_def)
  ultimately show ?thesis using e(1) by (auto simp: adjustStore_def)
qed

lemma inv_leave:
  assumes "databaseInv st" and "map_of (imageMap st) name = Some (Some it)"
  shows "\<exists>store. adjustRefcounts False (forEachObject (it_image it), None) (objectServer st) = Inr (None, store)
    \<and> databaseInv (st\<lparr>imageMap := deleteKey name (imageMap st), objectServer := store\<rparr>)"
proof -
  have bal: "objs.balanced (objectServer st) (imageLedger (imageMap st))" and d: "distinct (map fst (imageMap st))"
    using assms(1) by (simp_all add: databaseInv_def)
  from assms(2) d obtain t1 t2 where t: "imageMap st = t1 @ (name, Some it) # t2" "deleteKey name (imageMap st) = t1 @ t2"
    by (rule table_split) blast
  have "objs.balanced (objectServer st) (imageLedger t1 @ forEachObject (it_image it) # imageLedger t2)" using bal t(1) by simp
  from objs.leave [OF this] obtain store where "adjustStore False (forEachObject (it_image it)) (objectServer st) = Inr (None, store)"
    "objs.balanced store (imageLedger t1 @ imageLedger t2)" by blast
  then show ?thesis using t d by (auto simp: databaseInv_def adjustStore_def)
qed

lemma inv_update:
  assumes "databaseInv st" and "\<And>it. forEachObject (it_image (f it)) = forEachObject (it_image it)"
  shows "databaseInv (updateImage name f st)"
proof (cases "\<exists>it. map_of (imageMap st) name = Some (Some it)")
  case True
  then obtain it where it: "map_of (imageMap st) name = Some (Some it)" ..
  have d: "distinct (map fst (imageMap st))" using assms(1) by (simp add: databaseInv_def)
  from it d obtain t1 t2 where t: "imageMap st = t1 @ (name, Some it) # t2"
    "\<And>v'. putTable name v' (imageMap st) = t1 @ (name, v') # t2" by (rule table_split) blast
  then show ?thesis using assms it by (simp add: databaseInv_def updateImage_def)
next
  case False
  then have "updateImage name f st = st" by (auto simp: updateImage_def split: option.splits)
  then show ?thesis using assms(1) by simp
qed


section \<open>Every operation keeps the references\<close>

lemma forEachObject_frame [simp]:
  "forEachObject (img\<lparr>im_ExpiresAt := t\<rparr>) = forEachObject img" "forEachObject (img\<lparr>im_CreatedBy := u\<rparr>) = forEachObject img"
  "forEachObject (img\<lparr>im_CreatedOn := t\<rparr>) = forEachObject img"
  by (simp_all add: forEachObject_def)

lemma room_cong: "forEachObject img = forEachObject img' \<Longrightarrow> room img st = room img' st"
  by (simp add: room_def)

lemma room_keeps: "keeps (objectServer st) store \<Longrightarrow> room img (st\<lparr>objectServer := store\<rparr>) = room img st"
  by (simp add: room_def keeps_def)

lemma prepareToWrite_inv:
  assumes "databaseInv st" and "prepareToWrite name st = Inr st'"
  shows "databaseInv st'" "map_of (imageMap st') name = Some None" "room img st' = room img st"
  using assms by (auto simp: prepareToWrite_def inv_reserve map_of_putTable split: option.splits)

lemma writeImage_inv:
  assumes "databaseInv st" and "room img st" and "map_of (imageMap st) name = Some None"
  shows "\<exists>err st'. writeImage env name img exclusive st = Inr (err, st') \<and> databaseInv st'
    \<and> (err \<noteq> None \<longrightarrow> map_of (imageMap st') name = Some None)"
proof (cases "writeImageFile env (imagePath env name) img exclusive st")
  case (Inl e)
  then show ?thesis using assms by (simp add: writeImage_def)
next
  case (Inr p)
  then obtain checksum fs where p: "p = (checksum, st\<lparr>imageFiles := fs\<rparr>)" by (auto simp: writeImageFile_def split: if_splits)
  obtain err store where e: "adjustRefcounts True (forEachObject img, None) (objectServer st) = Inr (err, store)"
    "if err = None
     then \<forall>it. it_image it = img \<longrightarrow> databaseInv (st\<lparr>objectServer := store, imageMap := putTable name (Some it) (imageMap st)\<rparr>)
     else databaseInv (st\<lparr>objectServer := store\<rparr>)"
    using inv_enter [OF assms(1,2)] assms(3) by blast
  show ?thesis
  proof (cases err)
    case None
    let ?it = "\<lparr>it_computedFiles = GetComputedFiles (im_FileSystem img), it_fileChecksum = checksum,
       it_image = img, it_modifying = False, it_ownerGroups = set (im_OwnerGroups img),
       it_ownerUsers = set (im_OwnerUsers img), it_usageEstimate = estimateUsage (im_FileSystem img) 0\<rparr>"
    have "databaseInv (st\<lparr>objectServer := store, imageMap := putTable name (Some ?it) (imageMap st)\<rparr>)"
      using e(2) None by simp
    then show ?thesis using Inr p e(1) None by (simp add: writeImage_def databaseInv_def)
  next
    case (Some x)
    then show ?thesis using Inr p e assms(3) by (simp add: writeImage_def databaseInv_def)
  qed
qed

lemma addImageBegin_inv:
  "databaseInv st \<Longrightarrow> addImageBegin env img name st = Inr st' \<Longrightarrow> databaseInv st' \<and> map_of (imageMap st') name = Some None"
  by (auto simp: addImageBegin_def prepareToWrite_inv split: if_splits sum.splits)

lemma addImageFinish_inv:
  assumes "databaseInv st" and "room img st" and "map_of (imageMap st) name = Some None"
  shows "\<exists>err st'. addImageFinish env img name authInfo st = Inr (err, st') \<and> databaseInv st'"
proof (cases "checkPermissions name None authInfo st")
  case None
  obtain err st' where w: "writeImage env name img (ReplicationMaster env = '''') st = Inr (err, st')" "databaseInv st'"
    "err \<noteq> None \<longrightarrow> map_of (imageMap st') name = Some None"
    using writeImage_inv [OF assms] by blast
  then show ?thesis using None by (cases err) (simp_all add: addImageFinish_def inv_forget)
next
  case (Some e)
  then show ?thesis using assms inv_forget by (simp add: addImageFinish_def)
qed

lemma deleteImageAndUpdate_inv:
  assumes "databaseInv st"
  shows "\<exists>st'. deleteImageAndUpdateUnreferencedObjectsList name st = Inr st' \<and> databaseInv st'"
proof (cases "\<exists>it. map_of (imageMap st) name = Some (Some it)")
  case True
  then obtain it where it: "map_of (imageMap st) name = Some (Some it)" ..
  from inv_leave [OF assms this] show ?thesis
    using it by (auto simp: deleteImageAndUpdateUnreferencedObjectsList_def getImageWithLock_def)
next
  case False
  then have "fst (getImageWithLock name st) = None" by (auto simp: getImageWithLock_def split: option.splits)
  then show ?thesis using assms by (simp add: deleteImageAndUpdateUnreferencedObjectsList_def)
qed

lemma deleteImage_inv:
  assumes "databaseInv st"
  shows "\<exists>err st'. deleteImage env name authInfo st = Inr (err, st') \<and> databaseInv st'"
proof -
  obtain st1 where "deleteImageAndUpdateUnreferencedObjectsList name
      (st\<lparr>imageFiles := (imageFiles st)(imagePath env name \<mapsto> None)\<rparr>) = Inr st1" "databaseInv st1"
    using deleteImageAndUpdate_inv [of "st\<lparr>imageFiles := (imageFiles st)(imagePath env name \<mapsto> None)\<rparr>"] assms by auto
  then show ?thesis using assms by (auto simp: deleteImage_def split: option.split)
qed

lemma expireImage_inv:
  "databaseInv st \<Longrightarrow> \<exists>st'. expireImage env img name st = Inr st' \<and> databaseInv st'"
  using deleteImageAndUpdate_inv [of st name]
    deleteImageAndUpdate_inv [of "st\<lparr>imageFiles := (imageFiles st)(imagePath env name := None)\<rparr>" name]
  by (auto simp: expireImage_def)

lemma changeExpirationBegin_inv:
  assumes "databaseInv st" and "changeExpirationBegin env name expiresAt authInfo st = Inr (Inr (it, st'))"
  shows "databaseInv st'"
proof -
  have "st' = updateImage name (\<lambda>it. it\<lparr>it_modifying := True\<rparr>) st"
    using assms(2) by (auto simp: changeExpirationBegin_def bindP_def split: sum.splits option.splits if_splits)
  then show ?thesis using inv_update [OF assms(1), of "\<lambda>it. it\<lparr>it_modifying := True\<rparr>"] by simp
qed

lemma updateModified_inv:
  "databaseInv st \<Longrightarrow> (\<And>it. forEachObject (it_image (f it)) = forEachObject (it_image it)) \<Longrightarrow> databaseInv (updateModified name f st)"
  by (simp add: updateModified_def inv_update)

lemma changeExpirationEnd_inv:
  "databaseInv st \<Longrightarrow> databaseInv (snd (changeExpirationEnd name it expiresAt written st))"
  by (auto simp: changeExpirationEnd_def Let_def updateModified_inv split: option.split sum.split)

lemma writeNewExpiration_inv:
  "databaseInv st \<Longrightarrow> writeNewExpiration env name img expiresAt st = Inr (checksum, st') \<Longrightarrow> databaseInv st'"
  by (auto simp: writeNewExpiration_def writeImageFile_def split: if_splits)


lemma writeRestored_inv:
  assumes "databaseInv st" and "room img st" and "map_of (imageMap st) name = Some None"
    and "writeRestored env name img checksumMatches authInfo st = Inr (err, st')"
  shows "databaseInv st'"
proof -
  let ?signed = "if checksumMatches then Inr img
    else (case authInfo of
            None \<Rightarrow> Inl NilDereference
          | Some auth \<Rightarrow> Inr (img\<lparr>im_CreatedBy := Username auth, im_CreatedOn := db_clock env\<rparr>))"
  obtain img2 where img2: "?signed = Inr img2"
    using assms(4) by (cases ?signed) (simp_all only: writeRestored_def bindP_simps, simp)
  then have "forEachObject img2 = forEachObject img" by (auto split: if_splits option.splits)
  then have "room img2 st" using assms(2) room_cong by blast
  from writeImage_inv [OF assms(1) this assms(3), of env "\<not> checksumMatches"]
  obtain err1 st1 where "writeImage env name img2 (\<not> checksumMatches) st = Inr (err1, st1)" "databaseInv st1"
    "err1 \<noteq> None \<longrightarrow> map_of (imageMap st1) name = Some None" by blast
  then show ?thesis using assms(4) unfolding writeRestored_def img2
    by (cases err1) (auto simp: inv_forget)
qed

lemma restoredExpiration_objects:
  "restoredExpiration env img reqExpiresAt authInfo = Inr (Inr img') \<Longrightarrow> forEachObject img' = forEachObject img"
  by (auto simp: restoredExpiration_def bindP_def split: if_splits sum.splits option.splits)

lemma restoreImageFromArchive_inv:
  assumes "databaseInv st" and "\<And>name img. decoded = Some (name, img) \<Longrightarrow> room img st"
    and "restoreImageFromArchive env decoded checksumMatches reqExpiresAt authInfo st = Inr (err, st')"
  shows "databaseInv st'"
proof (cases "st' = st")
  case False
  then obtain name img img1 st1 where p: "decoded = Some (name, img)" "prepareToWrite name st = Inr st1"
    "restoredExpiration env img reqExpiresAt authInfo = Inr (Inr img1)"
    "writeRestored env name img1 checksumMatches authInfo st1 = Inr (err, st')"
    using assms(3)
    by (auto simp: restoreImageFromArchive_def bindP_def split: option.splits sum.splits if_splits prod.splits)
  have "room img1 st1"
    using assms(2) [OF p(1)] prepareToWrite_inv(3) [OF assms(1) p(2)] restoredExpiration_objects [OF p(3)] room_cong by blast
  then show ?thesis using writeRestored_inv [OF prepareToWrite_inv(1) [OF assms(1) p(2)] _ prepareToWrite_inv(2) [OF assms(1) p(2)] p(4)]
    by blast
qed (use assms(1) in simp)

lemma loadFile_inv:
  assumes "databaseInv st" and "map_of (imageMap st) filename = None"
    and "\<And>img. imageFiles st (imagePath env filename) = Some (Some img)
      \<Longrightarrow> room (img\<lparr>im_FileSystem := rebuild (im_FileSystem img)\<rparr>) st"
    and "loadFile env sha512 master corrupt rebuild filename st = Inr (err, st')"
  shows "databaseInv st'"
proof (cases "(\<exists>img. \<not> corrupt filename \<and> imageFiles st (imagePath env filename) = Some (Some img) \<and> \<not> imageIsExpired env img)
    \<and> filename \<noteq> '''' \<and> last filename \<noteq> CHR ''~''")
  case True
  then obtain img where img: "\<not> corrupt filename" "imageFiles st (imagePath env filename) = Some (Some img)" "\<not> imageIsExpired env img"
    by blast
  obtain e1 store where s: "supplyObjects env sha512 master img (objectServer st) = Inr (e1, store)" "keeps (objectServer st) store"
    using supplyObjects_keeps [OF databaseInv_good [OF assms(1)]] by blast
  let ?img = "img\<lparr>im_FileSystem := rebuild (im_FileSystem img)\<rparr>"
  let ?st = "st\<lparr>objectServer := store\<rparr>"
  have inv: "databaseInv ?st" using inv_store [OF assms(1) s(2)] .
  have "room ?img ?st" using assms(3) [OF img(2)] room_keeps [OF s(2)] by simp
  from inv_enter [OF inv this, of filename] obtain e2 store2 where
    e: "adjustRefcounts True (forEachObject ?img, None) store = Inr (e2, store2)"
    "if e2 = None
     then \<forall>it. it_image it = ?img \<longrightarrow> databaseInv (?st\<lparr>objectServer := store2, imageMap := putTable filename (Some it) (imageMap ?st)\<rparr>)
     else databaseInv (?st\<lparr>objectServer := store2\<rparr>)" using assms(2) by auto
  then show ?thesis using assms(4) True img s(1) inv
    by (auto simp: loadFile_def Let_def databaseInv_def split: if_splits option.splits)
next
  case False
  then show ?thesis using assms(1,4)
    by (auto simp: loadFile_def Let_def split: if_splits option.splits)
qed

text \<open>Operations on directories leave the images alone.\<close>

lemma makeDirectoryWithLock_frame:
  "\<exists>ds. snd (makeDirectoryWithLock env dirname metadata authInfo userRpc st) = st\<lparr>directoryMap := ds\<rparr>"
  by (intro exI [of _ "directoryMap (snd (makeDirectoryWithLock env dirname metadata authInfo userRpc st))"])
    (auto simp: makeDirectoryWithLock_def updateDirectoryMetadata_def Let_def split: sum.split option.split)

lemma makeDirectoryAllRecurse_frame:
  "makeDirectoryAllRecurse fuel env dirname authInfo st = Some (err, st') \<Longrightarrow> \<exists>ds. st' = st\<lparr>directoryMap := ds\<rparr>"
proof (induction fuel arbitrary: dirname err st')
  case (Suc fuel)
  show ?case
  proof (cases "dirname = ''.'' \<or> map_of (directoryMap st) dirname \<noteq> None")
    case True
    then have "st' = st\<lparr>directoryMap := directoryMap st\<rparr>" using Suc.prems by (auto split: if_splits)
    then show ?thesis by blast
  next
    case False
    then obtain e1 st1 where r: "makeDirectoryAllRecurse fuel env (pathDir dirname) authInfo st = Some (e1, st1)"
      using Suc.prems by (auto split: option.splits)
    from Suc.IH [OF this] obtain ds where "st1 = st\<lparr>directoryMap := ds\<rparr>" ..
    then show ?thesis using makeDirectoryWithLock_frame [of env dirname "''''" authInfo True st1] Suc.prems r False
      by (cases e1) (auto split: if_splits)
  qed
qed simp

lemma chownDirectory_frame: "\<exists>ds. snd (chownDirectory env dirname ownerGroup authInfo st) = st\<lparr>directoryMap := ds\<rparr>"
  by (intro exI [of _ "directoryMap (snd (chownDirectory env dirname ownerGroup authInfo st))"])
    (auto simp: chownDirectory_def updateDirectoryMetadata_def Let_def split: option.split)

lemma deleteDirectory_frame: "\<exists>ds. snd (deleteDirectory env name authInfo st) = st\<lparr>directoryMap := ds\<rparr>"
  by (intro exI [of _ "directoryMap (snd (deleteDirectory env name authInfo st))"])
    (auto simp: deleteDirectory_def split: option.split)


section \<open>The states of an image server\<close>

text \<open>
  Where the code gives up its lock, other steps may come in between. An image is written under a
  name that was reserved for it; a file is loaded under a name that no other image has. The
  count of an object must have room for the references of the image.
\<close>

inductive dbReach :: "(u8 list \<Rightarrow> hash) \<Rightarrow> image_database \<Rightarrow> bool" for sha512 where
  start: "newObjectServer env files found = Inr store \<Longrightarrow> distinct (map fst found) \<Longrightarrow>
    dbReach sha512 \<lparr>directoryMap = dirs, imageMap = [], imageFiles = imageFiles0, objectServer = store\<rparr>"
| load: "dbReach sha512 st \<Longrightarrow> map_of (imageMap st) filename = None \<Longrightarrow>
    (\<And>img. imageFiles st (imagePath env filename) = Some (Some img) \<Longrightarrow>
       room (img\<lparr>im_FileSystem := rebuild (im_FileSystem img)\<rparr>) st) \<Longrightarrow>
    loadFile env sha512 master corrupt rebuild filename st = Inr (err, st') \<Longrightarrow> dbReach sha512 st'"
| reserve: "dbReach sha512 st \<Longrightarrow> addImageBegin env img name st = Inr st' \<Longrightarrow> dbReach sha512 st'"
| finish: "dbReach sha512 st \<Longrightarrow> map_of (imageMap st) name = Some None \<Longrightarrow> room img st \<Longrightarrow>
    addImageFinish env img name authInfo st = Inr (err, st') \<Longrightarrow> dbReach sha512 st'"
| restore: "dbReach sha512 st \<Longrightarrow> (\<And>name img. decoded = Some (name, img) \<Longrightarrow> room img st) \<Longrightarrow>
    restoreImageFromArchive env decoded checksumMatches reqExpiresAt authInfo st = Inr (err, st') \<Longrightarrow> dbReach sha512 st'"
| delete: "dbReach sha512 st \<Longrightarrow> deleteImage env name authInfo st = Inr (err, st') \<Longrightarrow> dbReach sha512 st'"
| expire: "dbReach sha512 st \<Longrightarrow> expireImage env img name st = Inr st' \<Longrightarrow> dbReach sha512 st'"
| change: "dbReach sha512 st \<Longrightarrow> changeExpirationBegin env name expiresAt authInfo st = Inr (Inr (it, st')) \<Longrightarrow> dbReach sha512 st'"
| rewrite: "dbReach sha512 st \<Longrightarrow> writeNewExpiration env name img expiresAt st = Inr (checksum, st') \<Longrightarrow> dbReach sha512 st'"
| changed: "dbReach sha512 st \<Longrightarrow> changeExpirationEnd name it expiresAt written st = (res, st') \<Longrightarrow> dbReach sha512 st'"
| mkdir: "dbReach sha512 st \<Longrightarrow> makeDirectoryWithLock env dirname metadata authInfo userRpc st = (res, st') \<Longrightarrow> dbReach sha512 st'"
| mkdirAll: "dbReach sha512 st \<Longrightarrow> makeDirectoryAll fuel env dirname authInfo st = Some (res, st') \<Longrightarrow> dbReach sha512 st'"
| chown: "dbReach sha512 st \<Longrightarrow> chownDirectory env dirname ownerGroup authInfo st = (res, st') \<Longrightarrow> dbReach sha512 st'"
| rmdir: "dbReach sha512 st \<Longrightarrow> deleteDirectory env dirname authInfo st = (res, st') \<Longrightarrow> dbReach sha512 st'"
| addObject: "dbReach sha512 st \<Longrightarrow>
    addObject senv sha512 readError stream len expected (objectServer st) = Inr (added, store) \<Longrightarrow> dbReach sha512 (st\<lparr>objectServer := store\<rparr>)"
| commitObject: "dbReach sha512 st \<Longrightarrow> commitObject senv callback h (objectServer st) = Inr (cerr, store) \<Longrightarrow>
    dbReach sha512 (st\<lparr>objectServer := store\<rparr>)"
| stashObject: "dbReach sha512 st \<Longrightarrow> stashOrVerifyObject senv sha512 readError stream len expected (objectServer st) = (out, store) \<Longrightarrow>
    dbReach sha512 (st\<lparr>objectServer := store\<rparr>)"
| unstashObject: "dbReach sha512 st \<Longrightarrow> deleteStashedObject senv h (objectServer st) = (cerr, store) \<Longrightarrow>
    dbReach sha512 (st\<lparr>objectServer := store\<rparr>)"
| collect: "dbReach sha512 st \<Longrightarrow> deleteUnreferenced senv percentage b (objectServer st) = (deleted, store) \<Longrightarrow>
    dbReach sha512 (st\<lparr>objectServer := store\<rparr>)"
| gc: "dbReach sha512 st \<Longrightarrow> garbageCollector senv (objectServer st) = Inr (collected, store) \<Longrightarrow>
    dbReach sha512 (st\<lparr>objectServer := store\<rparr>)"

lemma databaseInv_start:
  assumes "newObjectServer env files found = Inr store" and "distinct (map fst found)"
  shows "databaseInv \<lparr>directoryMap = dirs, imageMap = [], imageFiles = imageFiles0, objectServer = store\<rparr>"
proof -
  have "storeCount (emptyServer env files) h = 0" for h by (simp add: storeCount_def refcountOf_def emptyServer_def)
  then show ?thesis using newObjectServer_keeps [OF assms(2,1)] by (simp add: databaseInv_def objs.balanced_def keeps_def)
qed

lemma dbReach_inv: "dbReach sha512 st \<Longrightarrow> databaseInv st"
proof (induction rule: dbReach.induct)
  case (start env files found store dirs imageFiles0)
  then show ?case by (rule databaseInv_start)
next
  case (load st filename env rebuild master corrupt err st')
  then show ?case using loadFile_inv [OF load.IH load.hyps(2)] by blast
next
  case (finish st name img env authInfo err st')
  then show ?case using addImageFinish_inv [OF finish.IH finish.hyps(3,2), of env authInfo] by auto
next
  case (restore st decoded env checksumMatches reqExpiresAt authInfo err st')
  then show ?case using restoreImageFromArchive_inv [OF restore.IH] by blast
next
  case (delete st env name authInfo err st')
  then show ?case using deleteImage_inv [OF delete.IH, of env name authInfo] by auto
next
  case (expire st env img name st')
  then show ?case using expireImage_inv [OF expire.IH, of env img name] by auto
next
  case (changed st name it expiresAt written res st')
  then show ?case using changeExpirationEnd_inv [OF changed.IH, of name it expiresAt written] by simp
next
  case (mkdir st env dirname metadata authInfo userRpc res st')
  then show ?case using makeDirectoryWithLock_frame [of env dirname metadata authInfo userRpc st] by auto
next
  case (mkdirAll st fuel env dirname authInfo res st')
  then show ?case using makeDirectoryAllRecurse_frame [of fuel env dirname authInfo st res st']
    by (auto simp: makeDirectoryAll_def split: if_splits)
next
  case (chown st env dirname ownerGroup authInfo res st')
  then show ?case using chownDirectory_frame [of env dirname ownerGroup authInfo st] by auto
next
  case (rmdir st env dirname authInfo res st')
  then show ?case using deleteDirectory_frame [of env dirname authInfo st] by auto
next
  case (addObject st senv readError stream len expected added store)
  then show ?case using addObject_keeps [OF databaseInv_good [OF addObject.IH], of senv sha512 readError stream len expected]
    by (auto intro: inv_store)
qed (blast intro: inv_store databaseInv_good commitObject_keeps stashOrVerifyObject_keeps deleteStashedObject_keeps
       deleteUnreferenced_keeps garbageCollector_keeps changeExpirationBegin_inv writeNewExpiration_inv dest: addImageBegin_inv)+

text \<open>
  C3. In every state an image server can reach, each object of each image is known to the object
  server, its count is the number of times the images refer to it, and collecting garbage, however
  much is asked for, leaves the object and its count as they are.
\<close>

theorem image_objects_stay:
  assumes "dbReach sha512 st" and "map_of (imageMap st) name = Some (Some it)" and "h \<in> set (forEachObject (it_image it))"
  shows "\<exists>c. refcountOf (objectServer st) h = Some c \<and> 0 < c \<and> unat c = ledgerCount (imageLedger (imageMap st)) h
    \<and> (\<forall>senv percentage bytes. refcountOf (snd (deleteUnreferenced senv percentage bytes (objectServer st))) h = Some c)
    \<and> (\<forall>senv res store. garbageCollector senv (objectServer st) = Inr (res, store) \<longrightarrow> refcountOf store h = Some c)"
proof -
  have inv: "databaseInv st" using assms(1) by (rule dbReach_inv)
  have count: "storeCount (objectServer st) h = ledgerCount (imageLedger (imageMap st)) h"
    using inv by (simp add: databaseInv_def objs.balanced_def)
  have pos: "0 < ledgerCount (imageLedger (imageMap st)) h" using imageLedger_positive [OF map_of_SomeD [OF assms(2)] assms(3)] .
  have kept: "\<exists>c. refcountOf store h = Some c \<and> unat c = ledgerCount (imageLedger (imageMap st)) h"
    if "keeps (objectServer st) store" for store
  proof -
    have "storeCount store h = ledgerCount (imageLedger (imageMap st)) h" using that count by (simp add: keeps_def)
    then show ?thesis using pos by (simp add: storeCount_def split: option.splits)
  qed
  obtain c where c: "refcountOf (objectServer st) h = Some c" "unat c = ledgerCount (imageLedger (imageMap st)) h"
    using kept keeps_refl [OF databaseInv_good [OF inv]] by blast
  have same: "refcountOf store h = Some c" if "keeps (objectServer st) store" for store
    using kept [OF that] c(2) by (metis word_eq_iff_unsigned)
  have "0 < c" using c(2) pos by (simp add: word_less_nat_alt)
  moreover have "keeps (objectServer st) (snd (deleteUnreferenced senv percentage bytes (objectServer st)))" for senv percentage bytes
    by (rule deleteUnreferenced_keeps [OF databaseInv_good [OF inv], of senv percentage bytes]) (rule surjective_pairing)
  ultimately show ?thesis using c same garbageCollector_keeps [OF databaseInv_good [OF inv]] by blast
qed

lemma addImage_added:
  assumes "databaseInv st" and "room img st" and "\<not> imageIsExpired env img"
    and "addImage env img name authInfo st = Inr (None, st1)"
  shows "databaseInv st1" and "map_of (imageMap st) name = None"
    and "\<exists>it. it_image it = img \<and> imageMap st1 = imageMap st @ [(name, Some it)]"
proof -
  obtain st0 where b: "addImageBegin env img name st = Inr st0" "addImageFinish env img name authInfo st0 = Inr (None, st1)"
    using assms(3,4) by (auto simp: addImage_def addImageBegin_def split: sum.splits if_splits)
  have n: "map_of (imageMap st) name = None" "st0 = st\<lparr>imageMap := imageMap st @ [(name, None)]\<rparr>"
    using b(1) by (auto simp: addImageBegin_def prepareToWrite_def table_new split: if_splits sum.splits option.splits)
  show "map_of (imageMap st) name = None" using n(1) .
  have r: "room img st0" "databaseInv st0" "map_of (imageMap st0) name = Some None"
    using n assms(2) addImageBegin_inv [OF assms(1) b(1)] by simp_all
  from addImageFinish_inv [OF r(2,1,3), of env authInfo] show "databaseInv st1" using b(2) by simp
  show "\<exists>it. it_image it = img \<and> imageMap st1 = imageMap st @ [(name, Some it)]"
    using b(2) n by (auto simp: table_renew addImageFinish_def writeImage_def writeImageFile_def Let_def split: option.splits if_splits)
qed

text \<open>
  C31. Adding an image and deleting it again gives back the images and the counts that were there
  before, for every object.
\<close>

theorem add_then_delete:
  assumes "dbReach sha512 st" and "room img st" and "\<not> imageIsExpired env img"
    and "addImage env img name authInfo st = Inr (None, st1)"
    and "deleteImage env' name authInfo' st1 = Inr (None, st2)"
  shows "imageMap st2 = imageMap st \<and> storeCount (objectServer st2) = storeCount (objectServer st)"
proof -
  have inv: "databaseInv st" using assms(1) by (rule dbReach_inv)
  note added = addImage_added [OF inv assms(2-4)]
  have "imageMap st2 = deleteKey name (imageMap st1)"
    using assms(5) by (auto simp: deleteImage_def deleteImageAndUpdateUnreferencedObjectsList_def getImageWithLock_def Let_def
        split: option.splits if_splits)
  also have "\<dots> = imageMap st" using added(2,3) by (force simp: deleteKey_def filter_id_conv map_of_eq_None_iff)
  finally have "imageMap st2 = imageMap st" .
  moreover have "databaseInv st2" using deleteImage_inv [OF added(1), of env' name authInfo'] assms(5) by auto
  ultimately show ?thesis using inv by (auto simp: databaseInv_def objs.balanced_def)
qed


section \<open>What the operations leave out\<close>

text \<open>The computed inodes of a subdirectory are not compared: it passes whatever is in it.\<close>

lemma verifyDirectory_ignores_subdirectories:
  "fst (verifyDirectory (Directory [DirectoryEntry name inum (Some (DirectoryInode d))] m u g) seen)"
  by simp

text \<open>An image that is loaded from its file has no owners, whatever the file says.\<close>

lemma loadFile_forgets_owners:
  assumes "map_of (imageMap st) filename = None"
    and "loadFile env sha512 master corrupt rebuild filename st = Inr (err, st')"
    and "map_of (imageMap st') filename = Some (Some it)"
  shows "it_ownerUsers it = {} \<and> it_ownerGroups it = {}"
  using assms by (auto simp: loadFile_def Let_def map_of_putTable split: if_splits option.splits)

text \<open>Making all directories of an absolute path goes on at the root forever.\<close>

lemma makeDirectoryAll_absolute:
  "map_of (directoryMap st) ''/'' = None \<Longrightarrow> makeDirectoryAll fuel env ''/'' authInfo st = None"
  unfolding makeDirectoryAll_def
proof (induction fuel)
  case (Suc fuel)
  have "pathDir ''/'' = ''/''" by code_simp
  then show ?case using Suc by simp
qed simp

text \<open>
  An image that is deleted while its expiration changes gets its file back, without being in the
  data base: it is there again when the server starts next.
\<close>

lemma changed_file_of_deleted_image:
  "map_of (imageMap st) name = None \<Longrightarrow> writeNewExpiration env name img expiresAt st = Inr (checksum, st')
   \<Longrightarrow> map_of (imageMap st') name = None \<and> imageFiles st' (imagePath env name) = Some (Some (img\<lparr>im_ExpiresAt := expiresAt\<rparr>))"
  by (auto simp: writeNewExpiration_def writeImageFile_def split: if_splits)

section \<open>Examples\<close>

definition exampleDbEnv :: db_env where
  "exampleDbEnv = \<lparr>db_BaseDirectory = ''/images'', MaximumExpirationDuration = 86400, MaximumExpirationDurationPrivileged = 864000,
     ReplicationMaster = '''', db_clock = 10, imageChecksum = (\<lambda>_. []), imageWriteFails = (\<lambda>_. False),
     truncateFails = (\<lambda>_. False), unlinkFails = (\<lambda>_. False), directoryFails = (\<lambda>_. False),
     metadataFails = (\<lambda>_. False), objectEnv = exampleStoreEnv\<rparr>"

definition exampleDbImage :: db_image where
  "exampleDbImage = \<lparr>im_BuildBranch = '''', im_BuildCommitId = '''', im_CreatedBy = ''joe'', im_CreatedFor = '''',
     im_FileSystem = \<lparr>InodeTable = [(1, Some (RegularInode \<lparr>ri_Mode = 0, ri_Uid = 0, ri_Gid = 0, ri_MtimeNanoSeconds = 0,
         ri_MtimeSeconds = 0, ri_Size = 5, ri_Hash = [1]\<rparr>))],
       NumRegularInodes = 1, TotalDataBytes = 5, DirectoryCount = 1, fs_root = Directory [] 0 0 0\<rparr>,
     im_ReleaseNotes = None, im_BuildLog = None, im_CreatedOn = 5, im_ExpiresAt = 0,
     im_OwnerGroups = [], im_OwnerUsers = [], im_Tags = Map.empty\<rparr>"

definition exampleAdmin :: auth_information where
  "exampleAdmin = \<lparr>HaveMethodAccess = True, Username = ''joe'', GroupList = {}\<rparr>"

definition exampleDb :: image_database where
  "exampleDb = \<lparr>directoryMap = [(''.'', '''')], imageMap = [], imageFiles = Map.empty, objectServer = exampleStore\<rparr>"

lemma exampleDb_reach: "dbReach sha512 exampleDb"
  unfolding exampleDb_def by (rule dbReach.start [OF exampleStore_new]) simp

lemma exampleDbImage_objects: "forEachObject exampleDbImage = [[1]]"
  by (simp add: forEachObject_def exampleDbImage_def annotationObject_def)

lemma exampleDb_room: "room exampleDbImage exampleDb"
  by (simp add: room_def exampleDb_def exampleDbImage_objects storeCount_def refcountOf_def exampleStore_objects)

definition exampleDb1 :: image_database where
  "exampleDb1 = (case addImage exampleDbEnv exampleDbImage ''img'' (Some exampleAdmin) exampleDb of Inr (_, st) \<Rightarrow> st)"

lemma exampleStore_adjusted: "\<exists>store. adjustRefcounts True ([[1]], None) exampleStore = Inr (None, store)"
proof -
  obtain rs where inv: "storeInv exampleStore rs" using storeReach_inv [OF exampleStore_reach] by blast
  have small: "\<forall>x\<in>refsOf exampleStore. unat (refcount (memory exampleStore x)) + length [[1]] < 2 ^ 64"
    by (simp add: exampleStore_objects)
  show ?thesis
    using adjustRefcounts_spec [where increment = True and iterErr = None and hashes = "[[1]]", OF inv small]
    by (auto simp: refcountOf_def exampleStore_objects)
qed

lemma exampleDb1_added:
  "addImage exampleDbEnv exampleDbImage ''img'' (Some exampleAdmin) exampleDb = Inr (None, exampleDb1)"
  "imageFiles exampleDb1 = [imagePath exampleDbEnv ''img'' \<mapsto> Some exampleDbImage]"
proof -
  obtain store where store: "adjustRefcounts True ([[1]], None) exampleStore = Inr (None, store)"
    using exampleStore_adjusted by blast
  have "verifyImage exampleDbImage" "\<not> imageIsExpired exampleDbEnv exampleDbImage"
    by (simp_all add: verifyImage_def exampleDbImage_def imageIsExpired_def)
  then have b: "addImageBegin exampleDbEnv exampleDbImage ''img'' exampleDb = Inr (exampleDb\<lparr>imageMap := [(''img'', None)]\<rparr>)"
    by (simp add: addImageBegin_def prepareToWrite_def exampleDb_def)
  obtain st1 where "addImageFinish exampleDbEnv exampleDbImage ''img'' (Some exampleAdmin) (exampleDb\<lparr>imageMap := [(''img'', None)]\<rparr>)
      = Inr (None, st1)" "imageFiles st1 = [imagePath exampleDbEnv ''img'' \<mapsto> Some exampleDbImage]"
    using store by (simp add: addImageFinish_def checkPermissions_def exampleAdmin_def writeImage_def writeImageFile_def
        exampleDbImage_objects exampleDb_def exampleDbEnv_def)
  then show "addImage exampleDbEnv exampleDbImage ''img'' (Some exampleAdmin) exampleDb = Inr (None, exampleDb1)"
    "imageFiles exampleDb1 = [imagePath exampleDbEnv ''img'' \<mapsto> Some exampleDbImage]"
    using b by (simp_all add: addImage_def exampleDb1_def)
qed

lemma addImage_reach:
  assumes "dbReach sha512 st" and "room img st" and "addImage env img name authInfo st = Inr (err, st')"
  shows "dbReach sha512 st'"
proof (cases "addImageBegin env img name st")
  case (Inl e)
  then show ?thesis using assms by (simp add: addImage_def)
next
  case (Inr st0)
  have "room img st0" using Inr assms(2)
    by (auto simp: addImageBegin_def prepareToWrite_def split: if_splits sum.splits option.splits)
  moreover have "map_of (imageMap st0) name = Some None" using addImageBegin_inv [OF dbReach_inv [OF assms(1)] Inr] by blast
  ultimately show ?thesis using dbReach.finish [OF dbReach.reserve [OF assms(1) Inr]] Inr assms(3) by (simp add: addImage_def)
qed

lemma exampleDb1_image:
  "dbReach sha512 exampleDb1" "\<exists>it. it_image it = exampleDbImage \<and> map_of (imageMap exampleDb1) ''img'' = Some (Some it)"
proof -
  show "dbReach sha512 exampleDb1" by (rule addImage_reach [OF exampleDb_reach exampleDb_room exampleDb1_added(1)])
  have "\<not> imageIsExpired exampleDbEnv exampleDbImage" by (simp add: exampleDbImage_def imageIsExpired_def)
  from addImage_added(3) [OF dbReach_inv [OF exampleDb_reach] exampleDb_room this exampleDb1_added(1)]
  show "\<exists>it. it_image it = exampleDbImage \<and> map_of (imageMap exampleDb1) ''img'' = Some (Some it)"
    by (auto simp: exampleDb_def)
qed

theorem image_objects_stay_witness:
  "\<exists>c. refcountOf (objectServer exampleDb1) [1] = Some c \<and> 0 < c
     \<and> (\<forall>senv percentage bytes. refcountOf (snd (deleteUnreferenced senv percentage bytes (objectServer exampleDb1))) [1] = Some c)"
proof -
  obtain it where it: "it_image it = exampleDbImage" "map_of (imageMap exampleDb1) ''img'' = Some (Some it)"
    using exampleDb1_image(2) by blast
  have "[1] \<in> set (forEachObject (it_image it))" by (simp add: it(1) exampleDbImage_objects)
  from image_objects_stay [OF exampleDb1_image(1) it(2) this] show ?thesis by blast
qed

theorem add_then_delete_witness:
  "\<exists>st2. deleteImage exampleDbEnv ''img'' (Some exampleAdmin) exampleDb1 = Inr (None, st2)
     \<and> imageMap st2 = [] \<and> storeCount (objectServer st2) [1] = 0"
proof -
  obtain err st2 where d: "deleteImage exampleDbEnv ''img'' (Some exampleAdmin) exampleDb1 = Inr (err, st2)"
    using deleteImage_inv [OF dbReach_inv [OF exampleDb1_image(1)]] by blast
  then have "err = None" using exampleDb1_image(2) exampleDb1_added(2)
    by (auto simp: deleteImage_def checkPermissions_def exampleAdmin_def exampleDbEnv_def split: if_splits)
  have e: "\<not> imageIsExpired exampleDbEnv exampleDbImage" by (simp add: exampleDbImage_def imageIsExpired_def)
  have "imageMap st2 = imageMap exampleDb \<and> storeCount (objectServer st2) = storeCount (objectServer exampleDb)"
    by (rule add_then_delete [OF exampleDb_reach exampleDb_room e exampleDb1_added(1) d [unfolded \<open>err = None\<close>]])
  moreover have "storeCount (objectServer exampleDb) [1] = 0"
    by (simp add: exampleDb_def storeCount_def refcountOf_def exampleStore_objects)
  ultimately show ?thesis using d \<open>err = None\<close> by (simp add: exampleDb_def)
qed

end
