(* ===== verification/Spec2Isabelle.thy ===== *)
theory Spec2Isabelle
  imports Object_Cache Object_Placement Sub_Daemon Scanner_History Sub_Services Sub_Disruption Herd_Safety Image_References
begin

text \<open>
  \<^bold>\<open>A verification development of the Dominator\<close>

  The Dominator keeps a fleet of machines in the state that images prescribe. An image
  server holds images, an object server holds the contents of files by hash. On every
  machine runs \<^verbatim>\<open>subd\<close>, which scans its root file system, fetches objects into a local
  cache and applies updates. The central \<^verbatim>\<open>dominator\<close> polls every \<^verbatim>\<open>subd\<close>, compares what
  it finds with the required image, pushes missing objects and sends an update request.
\<close>

end
